(* ===== verification/Prelude.thy ===== *)
theory Prelude
  imports Main "HOL-Library.Word"
begin

text \<open>
  What every component shares: the names of the model's machine types, the
  collections the component proofs draw on, little-endian encodings of machine words
  as byte lists (the on-disk form of every integer the program stores), and generic
  facts on lists.

  \<^item> \<open>byte\<close> is an octet of a file; \<open>u16\<close>, \<open>u32\<close>, \<open>u64\<close> are the C types
    \<open>uint16_t\<close>, \<open>unsigned int\<close>/\<open>uint32_t\<close> and \<open>uint64_t\<close>/\<open>size_t\<close>.
  \<^item> \<open>off\<close> is the C type \<open>off_t\<close>, a signed 64-bit number: an \<open>int\<close>, with
    \<open>off_of_u64\<close> and \<open>u64_of_off\<close> for the C conversions from and to unsigned.
\<close>

type_synonym byte = "8 word"
type_synonym u16 = "16 word"
type_synonym u32 = "32 word"
type_synonym u64 = "64 word"
type_synonym off = int
type_synonym path = string

named_theorems frame \<open>what an operation leaves unchanged\<close>
named_theorems codec \<open>decoding an encoding\<close>

text \<open>The value \<open>FAIL\<close> of \<open>structs.h\<close>, returned by system calls and by most functions.\<close>

abbreviation FAIL :: int where
  "FAIL \<equiv> -1"

lemma unat_byte_less: "unat (b :: byte) < 256"
  by (rule order_less_le_trans [OF unsigned_less]) simp

lemma unat_u64_less: "unat (x :: u64) < 18446744073709551616"
  by (rule order_less_le_trans [OF unsigned_less]) simp

section \<open>Little-endian bytes\<close>

text \<open>
  \<open>le_bytes n v\<close> are the \<open>n\<close> low bytes of \<open>v\<close>, least significant first: what
  \<open>to_le64\<close> followed by \<open>write\<close> puts on disk. \<open>le_val\<close> reads them back.
\<close>

fun le_bytes :: "nat \<Rightarrow> nat \<Rightarrow> byte list" where
  "le_bytes 0 v = []"
| "le_bytes (Suc n) v = of_nat v # le_bytes n (v div 256)"

fun le_val :: "byte list \<Rightarrow> nat" where
  "le_val [] = 0"
| "le_val (b # bs) = unat b + 256 * le_val bs"

lemma length_le_bytes [simp]: "length (le_bytes n v) = n"
  by (induction n arbitrary: v) auto

lemma le_val_bytes [codec]: "le_val (le_bytes n v) = v mod 256 ^ n"
proof (induction n arbitrary: v)
  case 0
  then show ?case by simp
next
  case (Suc n)
  have "le_val (le_bytes (Suc n) v) = v mod 256 + 256 * (v div 256 mod 256 ^ n)"
    using Suc by (simp add: unat_of_nat)
  then show ?case by (simp add: mod_mult2_eq)
qed

lemma le_val_bound: "le_val bs < 256 ^ length bs"
proof (induction bs)
  case Nil
  then show ?case by simp
next
  case (Cons b bs)
  have "unat b < 256" by (rule unat_byte_less)
  with Cons show ?case by simp
qed

lemma le_bytes_val [codec]: "le_bytes (length bs) (le_val bs) = bs"
proof (induction bs)
  case Nil
  then show ?case by simp
next
  case (Cons b bs)
  have b: "unat b < 256" by (rule unat_byte_less)
  then have "(unat b + 256 * le_val bs) div 256 = le_val bs" by simp
  moreover have "(of_nat (unat b + 256 * le_val bs) :: byte) = b"
    by (rule word_unat_eq_iff [THEN iffD2]) (use b in \<open>simp add: unat_of_nat del: of_nat_add of_nat_mult\<close>)
  ultimately show ?case using Cons by simp
qed

lemma le_bytes_inj:
  assumes "le_bytes n v = le_bytes n v'" and "v < 256 ^ n" and "v' < 256 ^ n"
  shows "v = v'"
proof -
  from assms(1) have "le_val (le_bytes n v) = le_val (le_bytes n v')" by simp
  with assms(2,3) show ?thesis by (simp add: le_val_bytes)
qed

section \<open>C conversions between off_t and unsigned 64-bit numbers\<close>

definition u64_of_off :: "off \<Rightarrow> u64" where
  "u64_of_off n = word_of_int n"

definition off_of_u64 :: "u64 \<Rightarrow> off" where
  "off_of_u64 x = sint x"

definition off_range :: "off \<Rightarrow> bool" where
  "off_range n \<longleftrightarrow> - (2 ^ 63) \<le> n \<and> n < 2 ^ 63"

lemma off_of_u64_of_off [codec]: "off_range n \<Longrightarrow> off_of_u64 (u64_of_off n) = n"
  by (simp add: off_of_u64_def u64_of_off_def off_range_def int_word_sint)

lemma off_range_of_u64: "off_range (off_of_u64 x)"
  unfolding off_range_def off_of_u64_def
  using sint_ge [of x] sint_lt [of x] by simp

section \<open>Lists\<close>

text \<open>Overwriting part of a list, as \<open>write\<close> and \<open>memcpy\<close> do; a gap past the end reads as zeros.\<close>

definition splice_at :: "nat \<Rightarrow> byte list \<Rightarrow> byte list \<Rightarrow> byte list" where
  "splice_at pos new old =
     take pos old @ replicate (pos - length old) 0 @ new @ drop (pos + length new) old"

lemma length_splice_at: "length (splice_at pos new old) = max (length old) (pos + length new)"
  by (simp add: splice_at_def max_def min_def)

lemma splice_at_end [simp]: "splice_at (length old) new old = old @ new"
  by (simp add: splice_at_def)

lemma splice_at_nil [simp]: "pos \<le> length old \<Longrightarrow> splice_at pos [] old = old"
  by (simp add: splice_at_def)

lemma splice_at_0: "splice_at 0 new old = new @ drop (length new) old"
  by (simp add: splice_at_def)

end
