(* ===== verification/CString.thy ===== *)
theory CString
  imports Prelude "HOL-Library.Sublist"
begin

text \<open>
  C strings, and the two string functions of \<^verbatim>\<open>utils.h\<close>.

  A C string is the list of its characters before the terminating NUL. A pointer into a
  string is the suffix it points at, so a function that returns a pointer or NULL returns
  \<open>string option\<close>. \<open>gethash\<close> is modelled on the object's memory, the terminator
  included, because its do-while loop reads one character more than a while loop would.
\<close>

abbreviation NUL :: char where
  "NUL \<equiv> CHR 0x00"

section \<open>The library functions the source uses\<close>

definition strncmp_prefix :: "string \<Rightarrow> string \<Rightarrow> bool" where
  \<comment> \<open>\<open>strncmp(s, p, strlen(p)) == 0\<close>\<close>
  "strncmp_prefix s p \<longleftrightarrow> prefix p s"

fun strstr :: "string \<Rightarrow> string \<Rightarrow> string option" where
  "strstr [] needle = (if needle = [] then Some [] else None)"
| "strstr (c # s) needle = (if prefix needle (c # s) then Some (c # s) else strstr s needle)"

definition to_lower :: "char \<Rightarrow> char" where
  "to_lower c =
     (let n = of_char c :: nat
      in if 65 \<le> n \<and> n \<le> 90 then char_of (n + 32) else c)"

definition strcasestr :: "string \<Rightarrow> string \<Rightarrow> string option" where
  "strcasestr s needle = strstr (map to_lower s) (map to_lower needle)"

text \<open>\<open>rindex s c\<close>: the suffix that starts at the last \<open>c\<close>.\<close>

fun rindex :: "string \<Rightarrow> char \<Rightarrow> string option" where
  "rindex [] c = None"
| "rindex (d # s) c =
     (case rindex s c of Some r \<Rightarrow> Some r | None \<Rightarrow> if d = c then Some (d # s) else None)"

lemma strstr_iff: "(strstr s needle \<noteq> None) = sublist needle s"
  by (induction s needle rule: strstr.induct) (auto simp: sublist_Cons_right)

lemma strstr_suffix: "strstr s needle = Some r \<Longrightarrow> suffix r s \<and> prefix needle r"
  by (induction s needle rule: strstr.induct) (auto split: if_splits intro: suffix_ConsI)

lemma rindex_Some:
  "rindex s c = Some r \<Longrightarrow> \<exists>d r'. r = c # r' \<and> s = d @ r \<and> c \<notin> set r'"
proof (induction s c arbitrary: r rule: rindex.induct)
  case (1 c)
  then show ?case by simp
next
  case (2 d s c)
  show ?case
  proof (cases "rindex s c")
    case None
    have "\<And>x. rindex x c = None \<Longrightarrow> c \<notin> set x"
      subgoal for x by (induction x) (auto split: option.splits if_splits)
      done
    with None "2.prems" show ?thesis by (auto split: if_splits)
  next
    case (Some q)
    with "2.prems" have "rindex s c = Some r" by simp
    from "2.IH" [OF this] show ?thesis by (metis append_Cons)
  qed
qed

lemma rindex_None: "rindex s c = None \<longleftrightarrow> c \<notin> set s"
  by (induction s) (auto split: option.splits)

lemma rindex_append: "c \<notin> set r \<Longrightarrow> rindex (d @ c # r) c = Some (c # r)"
proof (induction d)
  case Nil
  then have "rindex r c = None" by (simp add: rindex_None)
  then show ?case by simp
next
  case (Cons x d)
  then show ?case by simp
qed

section \<open>strestr\<close>

text \<open>
  \<open>haystack + strlen(haystack) - 1 - strlen(needle)\<close>, then \<open>strstr\<close>. The pointer is
  computed before anything is compared: with a needle as long as the haystack or longer it
  points before the object, which is the outer \<open>None\<close>. The inner option is the pointer
  returned.
\<close>

definition strestr :: "string \<Rightarrow> string \<Rightarrow> string option option" where
  "strestr haystack needle =
     (if length needle + 1 \<le> length haystack
      then Some (strstr (drop (length haystack - 1 - length needle) haystack) needle)
      else None)"

text \<open>
  It finds a needle at the end of a longer haystack. It also finds one that ends one
  character earlier.
\<close>

lemma strestr_suffix:
  assumes "suffix needle haystack" and "length needle < length haystack"
  shows "\<exists>r. strestr haystack needle = Some (Some r)"
proof -
  let ?n = "length haystack - 1 - length needle"
  obtain p where p: "haystack = p @ needle" using assms(1) by (auto elim: suffixE)
  then have "p \<noteq> []" using assms(2) by auto
  then have "drop ?n haystack = last p # needle"
    using p by (cases p rule: rev_cases) auto
  then have "sublist needle (drop ?n haystack)"
    by (simp add: sublist_Cons_right)
  then show ?thesis
    using assms(2) strstr_iff [of "drop ?n haystack" needle] by (auto simp: strestr_def)
qed

lemma strestr_shape:
  assumes "strestr haystack needle = Some (Some r)"
  shows "\<exists>p c. haystack = p @ needle \<or> haystack = p @ needle @ [c]"
proof -
  let ?n = "length haystack - 1 - length needle"
  have len: "length needle + 1 \<le> length haystack"
    using assms by (simp add: strestr_def split: if_splits)
  then have "strstr (drop ?n haystack) needle \<noteq> None"
    using assms by (simp add: strestr_def)
  then obtain a b where ab: "drop ?n haystack = a @ needle @ b"
    unfolding strstr_iff sublist_def by blast
  have "length (drop ?n haystack) = length needle + 1" using len by simp
  then have "length a + length b = 1" unfolding ab by simp
  then have "b = [] \<or> (\<exists>c. a = [] \<and> b = [c])"
    by (cases b) auto
  moreover have "haystack = take ?n haystack @ drop ?n haystack" by simp
  ultimately show ?thesis using ab by (metis append.assoc append_Nil append_Nil2)
qed

section \<open>gethash\<close>

text \<open>A \<open>char\<close> in arithmetic: signed, then converted to \<open>unsigned int\<close>.\<close>

definition char_to_uint :: "char \<Rightarrow> u32" where
  "char_to_uint c = (let n = of_char c :: int in word_of_int (if n < 128 then n else n - 256))"

text \<open>
  \<open>gethash_loop\<close> runs over the rest of the object's memory; \<open>k\<close> is \<open>ptr - start\<close>. The
  condition reads the character after the one just hashed; at the end of the object
  there is none, and the result is \<open>None\<close>.
\<close>

fun gethash_loop :: "u32 \<Rightarrow> nat \<Rightarrow> char list \<Rightarrow> (u32 \<times> nat) option" where
  "gethash_loop hash k [] = None"
| "gethash_loop hash k (c # rest) =
     (let hash' = 31 * hash + char_to_uint c
      in case rest of
           [] \<Rightarrow> None
         | d # _ \<Rightarrow> if d = NUL then Some (hash', k + 1 + 1) else gethash_loop hash' (k + 1) rest)"

definition gethash :: "string \<Rightarrow> (u32 \<times> nat) option" where
  "gethash s = gethash_loop 0 0 (s @ [NUL])"

definition hash_of :: "string \<Rightarrow> u32" where
  "hash_of s = foldl (\<lambda>h c. 31 * h + char_to_uint c) 0 s"

lemma gethash_loop_eq:
  assumes "s \<noteq> []" and "NUL \<notin> set s"
  shows "gethash_loop hash k (s @ [NUL]) =
    Some (foldl (\<lambda>h c. 31 * h + char_to_uint c) hash s, k + length s + 1)"
  using assms
proof (induction s arbitrary: hash k)
  case Nil
  then show ?case by simp
next
  case (Cons c s)
  show ?case
  proof (cases s)
    case Nil
    then show ?thesis by simp
  next
    case (Cons d s')
    let ?hash = "31 * hash + char_to_uint c"
    have d: "NUL \<notin> set s" "d \<noteq> NUL" using Cons.prems Cons by auto
    have "gethash_loop hash k ((c # s) @ [NUL]) = gethash_loop ?hash (k + 1) (s @ [NUL])"
      unfolding append_Cons gethash_loop.simps(2) [of hash k c "s @ [NUL]"]
      using Cons d by (simp add: Let_def del: gethash_loop.simps)
    also have "\<dots> = Some (foldl (\<lambda>h c. 31 * h + char_to_uint c) ?hash s, k + 1 + length s + 1)"
      by (rule Cons.IH) (use Cons d in simp_all)
    finally show ?thesis by simp
  qed
qed

text \<open>
  On a non-empty name the loop is the fold over its characters and stores the length with
  the terminator; on an empty one it hashes the terminator and then reads past the object.
\<close>

lemma gethash_eq:
  assumes "s \<noteq> []" and "NUL \<notin> set s"
  shows "gethash s = Some (hash_of s, length s + 1)"
  using gethash_loop_eq [OF assms] by (simp add: gethash_def hash_of_def)

lemma gethash_empty: "gethash [] = None"
  by (simp add: gethash_def)

end
