(* ===== verification/Posix.thy ===== *)
theory Posix
  imports CString "HOL-Library.Monad_Syntax"
begin

text \<open>
  The system calls the program is built on, as functions on a \<open>world\<close>: the names of the
  backing file system (hard links are several names of one inode), the inodes with their
  data and attributes, the open file descriptions and the descriptor table.

  Every call may fail. What the environment does is a script in the world: each call takes
  the next \<open>outcome\<close> from \<open>script\<close> (\<open>Normally\<close> once it is used up), which may be an error
  or, for \<open>read\<close> and \<open>write\<close>, a transfer of fewer bytes. A theorem that holds for every
  world therefore holds for every combination of disk-full, I/O and permission errors at
  every point. \<open>suffixes\<close> is what \<open>mkstemp\<close> tries for its six X's, and \<open>cancels\<close> says at
  which of its tests the background compression finds that another thread has set CANCEL.

  Not in the model: directories as objects (a name is a whole path), symbolic links, the
  reuse of descriptor numbers, access-time updates by reads.
\<close>

datatype errno =
  ENOENT | EACCES | EPERM | EEXIST | ENOTDIR | ENOSPC | EIO | EBADF | EINVAL | ENOMEM | EINTR | EINPROGRESS

datatype outcome = Normally | Fault errno | Partial nat

datatype oflag = O_WRONLY | O_RDWR | O_CREAT | O_TRUNC | O_APPEND

type_synonym timespec = "int \<times> int"

record inode =
  idata :: "byte list"
  imode :: nat
  iuid :: nat
  igid :: nat
  iatim :: timespec
  imtim :: timespec
  inlink :: nat

record ofile =
  o_ino :: nat
  o_pos :: nat
  o_flags :: "oflag set"

record world =
  names :: "path \<Rightarrow> nat option"
  inodes :: "nat \<Rightarrow> inode option"
  ofiles :: "nat \<Rightarrow> ofile option"
  fdtab :: "int \<Rightarrow> nat option"
  next_ino :: nat
  next_ofile :: nat
  next_fd :: nat
  script :: "outcome list"
  suffixes :: "string list"
  cancels :: "bool list"
  errno :: errno
  now :: timespec
  euid :: nat
  f_bsize :: u64
  f_bavail :: u64
  f_bfree :: u64
  decomp_cache_size :: int

section \<open>The script of the environment\<close>

definition next_outcome :: "world \<Rightarrow> outcome \<times> world" where
  "next_outcome w =
     (case script w of [] \<Rightarrow> (Normally, w) | x # xs \<Rightarrow> (x, w\<lparr>script := xs\<rparr>))"

definition next_cancel :: "world \<Rightarrow> bool \<times> world" where
  "next_cancel w =
     (case cancels w of [] \<Rightarrow> (False, w) | x # xs \<Rightarrow> (x, w\<lparr>cancels := xs\<rparr>))"

definition fail :: "errno \<Rightarrow> world \<Rightarrow> int \<times> world" where
  "fail e w = (FAIL, w\<lparr>errno := e\<rparr>)"

text \<open>A call with no partial transfer: it fails, or does its work on the world.\<close>

definition syscall :: "(world \<Rightarrow> int \<times> world) \<Rightarrow> world \<Rightarrow> int \<times> world" where
  "syscall act w =
     (case next_outcome w of (Fault e, w1) \<Rightarrow> fail e w1 | (_, w1) \<Rightarrow> act w1)"

section \<open>Looking things up\<close>

definition file_of :: "world \<Rightarrow> path \<Rightarrow> inode option" where
  "file_of w p = Option.bind (names w p) (inodes w)"

definition contents :: "world \<Rightarrow> path \<Rightarrow> byte list option" where
  "contents w p = map_option idata (file_of w p)"

definition fd_ofile :: "world \<Rightarrow> int \<Rightarrow> ofile option" where
  "fd_ofile w fd = Option.bind (fdtab w fd) (ofiles w)"

definition fd_inode :: "world \<Rightarrow> int \<Rightarrow> inode option" where
  "fd_inode w fd = Option.bind (map_option o_ino (fd_ofile w fd)) (inodes w)"

definition readable :: "ofile \<Rightarrow> bool" where
  "readable d \<longleftrightarrow> O_WRONLY \<notin> o_flags d"

definition writable :: "ofile \<Rightarrow> bool" where
  "writable d \<longleftrightarrow> O_WRONLY \<in> o_flags d \<or> O_RDWR \<in> o_flags d"

text \<open>The bytes between a descriptor's position and the end of its file.\<close>

definition rest_of :: "world \<Rightarrow> int \<Rightarrow> byte list" where
  "rest_of w fd =
     (case (fd_ofile w fd, fd_inode w fd) of
        (Some d, Some i) \<Rightarrow> drop (o_pos d) (idata i)
      | _ \<Rightarrow> [])"

definition set_inode :: "nat \<Rightarrow> inode \<Rightarrow> world \<Rightarrow> world" where
  "set_inode n i w = w\<lparr>inodes := (inodes w)(n \<mapsto> i)\<rparr>"

definition set_ofile :: "nat \<Rightarrow> ofile \<Rightarrow> world \<Rightarrow> world" where
  "set_ofile n d w = w\<lparr>ofiles := (ofiles w)(n \<mapsto> d)\<rparr>"

section \<open>Attributes\<close>

record stat =
  st_size :: off
  st_mode :: nat
  st_uid :: nat
  st_gid :: nat
  st_atim :: timespec
  st_mtim :: timespec
  st_nlink :: nat
  st_ino :: nat

definition no_stat :: stat where
  "no_stat = \<lparr>st_size = 0, st_mode = 0, st_uid = 0, st_gid = 0, st_atim = (0, 0),
     st_mtim = (0, 0), st_nlink = 0, st_ino = 0\<rparr>"

definition stat_of :: "nat \<Rightarrow> inode \<Rightarrow> stat" where
  "stat_of n i = \<lparr>st_size = int (length (idata i)), st_mode = imode i, st_uid = iuid i,
     st_gid = igid i, st_atim = iatim i, st_mtim = imtim i, st_nlink = inlink i, st_ino = n\<rparr>"

definition S_ISREG :: "nat \<Rightarrow> bool" where
  "S_ISREG m \<longleftrightarrow> m div 4096 mod 16 = 8"

text \<open>\<open>lstat\<close>, \<open>stat\<close> (no symbolic links here) and \<open>fstat\<close>.\<close>

definition sys_lstat :: "path \<Rightarrow> stat \<Rightarrow> world \<Rightarrow> (int \<times> stat) \<times> world" where
  "sys_lstat p buf w =
     (case next_outcome w of
        (Fault e, w1) \<Rightarrow> ((FAIL, buf), w1\<lparr>errno := e\<rparr>)
      | (_, w1) \<Rightarrow>
          (case names w1 p of
             None \<Rightarrow> ((FAIL, buf), w1\<lparr>errno := ENOENT\<rparr>)
           | Some n \<Rightarrow>
               (case inodes w1 n of
                  None \<Rightarrow> ((FAIL, buf), w1\<lparr>errno := ENOENT\<rparr>)
                | Some i \<Rightarrow> ((0, stat_of n i), w1))))"

definition sys_fstat :: "int \<Rightarrow> stat \<Rightarrow> world \<Rightarrow> (int \<times> stat) \<times> world" where
  "sys_fstat fd buf w =
     (case next_outcome w of
        (Fault e, w1) \<Rightarrow> ((FAIL, buf), w1\<lparr>errno := e\<rparr>)
      | (_, w1) \<Rightarrow>
          (case fd_ofile w1 fd of
             None \<Rightarrow> ((FAIL, buf), w1\<lparr>errno := EBADF\<rparr>)
           | Some d \<Rightarrow>
               (case inodes w1 (o_ino d) of
                  None \<Rightarrow> ((FAIL, buf), w1\<lparr>errno := EBADF\<rparr>)
                | Some i \<Rightarrow> ((0, stat_of (o_ino d) i), w1))))"

definition on_path :: "path \<Rightarrow> (inode \<Rightarrow> inode) \<Rightarrow> world \<Rightarrow> int \<times> world" where
  "on_path p f = syscall (\<lambda>w.
     case names w p of
       None \<Rightarrow> fail ENOENT w
     | Some n \<Rightarrow>
         (case inodes w n of
            None \<Rightarrow> fail ENOENT w
          | Some i \<Rightarrow> (0, set_inode n (f i) w)))"

definition on_fd :: "int \<Rightarrow> (inode \<Rightarrow> inode) \<Rightarrow> world \<Rightarrow> int \<times> world" where
  "on_fd fd f = syscall (\<lambda>w.
     case fd_ofile w fd of
       None \<Rightarrow> fail EBADF w
     | Some d \<Rightarrow>
         (case inodes w (o_ino d) of
            None \<Rightarrow> fail EBADF w
          | Some i \<Rightarrow> (0, set_inode (o_ino d) (f i) w)))"

text \<open>
  \<open>chmod\<close> keeps the file type, the part of the mode above the twelve permission bits.
  \<open>utime\<close> takes seconds only; with no times it sets the current time.
\<close>

definition new_mode :: "nat \<Rightarrow> nat \<Rightarrow> nat" where
  "new_mode old m = old div 4096 * 4096 + m mod 4096"

definition sys_chmod :: "path \<Rightarrow> nat \<Rightarrow> world \<Rightarrow> int \<times> world" where
  "sys_chmod p m = on_path p (\<lambda>i. i\<lparr>imode := new_mode (imode i) m\<rparr>)"

definition sys_fchmod :: "int \<Rightarrow> nat \<Rightarrow> world \<Rightarrow> int \<times> world" where
  "sys_fchmod fd m = on_fd fd (\<lambda>i. i\<lparr>imode := new_mode (imode i) m\<rparr>)"

definition sys_lchown :: "path \<Rightarrow> nat \<Rightarrow> nat \<Rightarrow> world \<Rightarrow> int \<times> world" where
  "sys_lchown p u g = on_path p (\<lambda>i. i\<lparr>iuid := u, igid := g\<rparr>)"

definition sys_fchown :: "int \<Rightarrow> nat \<Rightarrow> nat \<Rightarrow> world \<Rightarrow> int \<times> world" where
  "sys_fchown fd u g = on_fd fd (\<lambda>i. i\<lparr>iuid := u, igid := g\<rparr>)"

definition sys_utime :: "path \<Rightarrow> int \<Rightarrow> int \<Rightarrow> world \<Rightarrow> int \<times> world" where
  "sys_utime p actime modtime = on_path p (\<lambda>i. i\<lparr>iatim := (actime, 0), imtim := (modtime, 0)\<rparr>)"

definition sys_lutimes :: "path \<Rightarrow> timespec \<Rightarrow> timespec \<Rightarrow> world \<Rightarrow> int \<times> world" where
  \<comment> \<open>\<open>struct timeval\<close> counts microseconds, the inode nanoseconds\<close>
  "sys_lutimes p a m = on_path p (\<lambda>i. i\<lparr>iatim := (fst a, snd a * 1000), imtim := (fst m, snd m * 1000)\<rparr>)"

definition sys_futimens :: "int \<Rightarrow> timespec \<Rightarrow> timespec \<Rightarrow> world \<Rightarrow> int \<times> world" where
  "sys_futimens fd a m = on_fd fd (\<lambda>i. i\<lparr>iatim := a, imtim := m\<rparr>)"

definition sys_statvfs :: "path \<Rightarrow> world \<Rightarrow> int \<times> world" where
  "sys_statvfs p = syscall (\<lambda>w. case file_of w p of None \<Rightarrow> fail ENOENT w | Some _ \<Rightarrow> (0, w))"

section \<open>Names\<close>

definition sys_unlink :: "path \<Rightarrow> world \<Rightarrow> int \<times> world" where
  "sys_unlink p = syscall (\<lambda>w.
     case names w p of
       None \<Rightarrow> fail ENOENT w
     | Some n \<Rightarrow>
         (0, w\<lparr>names := (names w)(p := None),
               inodes := (inodes w)(n := map_option (\<lambda>i. i\<lparr>inlink := inlink i - 1\<rparr>) (inodes w n))\<rparr>))"

definition sys_link :: "path \<Rightarrow> path \<Rightarrow> world \<Rightarrow> int \<times> world" where
  "sys_link old new = syscall (\<lambda>w.
     case names w old of
       None \<Rightarrow> fail ENOENT w
     | Some n \<Rightarrow>
         if names w new \<noteq> None then fail EEXIST w
         else (0, w\<lparr>names := (names w)(new \<mapsto> n),
                    inodes := (inodes w)(n := map_option (\<lambda>i. i\<lparr>inlink := inlink i + 1\<rparr>) (inodes w n))\<rparr>))"

text \<open>If both names are links to one file, \<open>rename\<close> does nothing and reports success.\<close>

definition sys_rename :: "path \<Rightarrow> path \<Rightarrow> world \<Rightarrow> int \<times> world" where
  "sys_rename from to = syscall (\<lambda>w.
     case names w from of
       None \<Rightarrow> fail ENOENT w
     | Some n \<Rightarrow>
         if names w to = Some n then (0, w)
         else
           (0, w\<lparr>names := (names w)(from := None, to := Some n),
                 inodes := (case names w to of
                    None \<Rightarrow> inodes w
                  | Some m \<Rightarrow>
                      (inodes w)(m := map_option (\<lambda>i. i\<lparr>inlink := inlink i - 1\<rparr>) (inodes w m)))\<rparr>))"

section \<open>Descriptors\<close>

text \<open>A new description for an inode, in a new slot of the table.\<close>

definition new_fd :: "nat \<Rightarrow> oflag set \<Rightarrow> world \<Rightarrow> int \<times> world" where
  "new_fd n flags w =
     (int (next_fd w),
      w\<lparr>ofiles := (ofiles w)(next_ofile w \<mapsto> \<lparr>o_ino = n, o_pos = 0, o_flags = flags\<rparr>),
        next_ofile := next_ofile w + 1,
        fdtab := (fdtab w)(int (next_fd w) \<mapsto> next_ofile w),
        next_fd := next_fd w + 1\<rparr>)"

definition new_inode :: "path \<Rightarrow> nat \<Rightarrow> world \<Rightarrow> nat \<times> world" where
  "new_inode p mode w =
     (next_ino w,
      w\<lparr>names := (names w)(p \<mapsto> next_ino w),
        inodes := (inodes w)(next_ino w \<mapsto>
          \<lparr>idata = [], imode = 8 * 4096 + mode mod 4096, iuid = euid w, igid = 0,
           iatim = now w, imtim = now w, inlink = 1\<rparr>),
        next_ino := next_ino w + 1\<rparr>)"

definition sys_open :: "path \<Rightarrow> oflag set \<Rightarrow> nat \<Rightarrow> world \<Rightarrow> int \<times> world" where
  "sys_open p flags mode = syscall (\<lambda>w.
     case names w p of
       None \<Rightarrow>
         if O_CREAT \<in> flags
         then (let (n, w1) = new_inode p mode w in new_fd n flags w1)
         else fail ENOENT w
     | Some n \<Rightarrow>
         (let w1 = (if O_TRUNC \<in> flags
                    then w\<lparr>inodes := (inodes w)(n := map_option (\<lambda>i. i\<lparr>idata := []\<rparr>) (inodes w n))\<rparr>
                    else w)
          in new_fd n flags w1))"

definition sys_close :: "int \<Rightarrow> world \<Rightarrow> int \<times> world" where
  "sys_close fd w =
     (case next_outcome w of
        (Fault e, w1) \<Rightarrow> fail e (w1\<lparr>fdtab := (fdtab w1)(fd := None)\<rparr>)
      | (_, w1) \<Rightarrow>
          if fdtab w1 fd = None then fail EBADF w1
          else (0, w1\<lparr>fdtab := (fdtab w1)(fd := None)\<rparr>))"

definition sys_dup :: "int \<Rightarrow> world \<Rightarrow> int \<times> world" where
  "sys_dup fd = syscall (\<lambda>w.
     case fdtab w fd of
       None \<Rightarrow> fail EBADF w
     | Some k \<Rightarrow>
         (int (next_fd w),
          w\<lparr>fdtab := (fdtab w)(int (next_fd w) \<mapsto> k), next_fd := next_fd w + 1\<rparr>))"

datatype whence = SEEK_SET | SEEK_CUR | SEEK_END

definition sys_lseek :: "int \<Rightarrow> off \<Rightarrow> whence \<Rightarrow> world \<Rightarrow> int \<times> world" where
  "sys_lseek fd offset wh = syscall (\<lambda>w.
     case fdtab w fd of
       None \<Rightarrow> fail EBADF w
     | Some k \<Rightarrow>
         (case ofiles w k of
            None \<Rightarrow> fail EBADF w
          | Some d \<Rightarrow>
              let base = (case wh of
                    SEEK_SET \<Rightarrow> 0
                  | SEEK_CUR \<Rightarrow> int (o_pos d)
                  | SEEK_END \<Rightarrow>
                      (case inodes w (o_ino d) of None \<Rightarrow> 0 | Some i \<Rightarrow> int (length (idata i))));
                  p = base + offset
              in if p < 0 then fail EINVAL w
                 else (p, set_ofile k (d\<lparr>o_pos := nat p\<rparr>) w)))"

text \<open>
  \<open>mkstemp\<close>: the next candidate for the X's is tried; it fails if that is not six
  characters long or the name exists.
\<close>

definition sys_mkstemp :: "path \<Rightarrow> world \<Rightarrow> (int \<times> path) \<times> world" where
  "sys_mkstemp template w =
     (case next_outcome w of
        (Fault e, w1) \<Rightarrow> ((FAIL, template), w1\<lparr>errno := e\<rparr>)
      | (_, w1) \<Rightarrow>
          (case suffixes w1 of
             [] \<Rightarrow> ((FAIL, template), w1\<lparr>errno := EEXIST\<rparr>)
           | x # xs \<Rightarrow>
               (let w2 = w1\<lparr>suffixes := xs\<rparr>;
                    p = template @ x
                in if length x \<noteq> 6 \<or> names w2 p \<noteq> None
                   then ((FAIL, template), w2\<lparr>errno := EEXIST\<rparr>)
                   else (let (n, w3) = new_inode p 384 w2;
                             (fd, w4) = new_fd n {O_RDWR} w3
                         in ((fd, p), w4)))))"

section \<open>Data\<close>

text \<open>
  A read returns the bytes between the position and the end of the file, at most \<open>count\<close>,
  and fewer (but at least one) when the script says \<open>Partial\<close>. A write may stop early.
\<close>

definition read_count :: "outcome \<Rightarrow> nat \<Rightarrow> nat" where
  "read_count oc count = (case oc of Partial k \<Rightarrow> min (max 1 k) count | _ \<Rightarrow> count)"

definition write_count :: "outcome \<Rightarrow> nat \<Rightarrow> nat" where
  "write_count oc count = (case oc of Partial k \<Rightarrow> min k count | _ \<Rightarrow> count)"

definition sys_read :: "int \<Rightarrow> nat \<Rightarrow> world \<Rightarrow> (int \<times> byte list) \<times> world" where
  "sys_read fd count w =
     (case next_outcome w of
        (Fault e, w1) \<Rightarrow> ((FAIL, []), w1\<lparr>errno := e\<rparr>)
      | (oc, w1) \<Rightarrow>
          (case fdtab w1 fd of
             None \<Rightarrow> ((FAIL, []), w1\<lparr>errno := EBADF\<rparr>)
           | Some k \<Rightarrow>
               (case ofiles w1 k of
                  None \<Rightarrow> ((FAIL, []), w1\<lparr>errno := EBADF\<rparr>)
                | Some d \<Rightarrow>
                    (case inodes w1 (o_ino d) of
                       None \<Rightarrow> ((FAIL, []), w1\<lparr>errno := EBADF\<rparr>)
                     | Some i \<Rightarrow>
                         if \<not> readable d then ((FAIL, []), w1\<lparr>errno := EBADF\<rparr>)
                         else (let bs = take (read_count oc count) (drop (o_pos d) (idata i))
                               in ((int (length bs), bs),
                                   set_ofile k (d\<lparr>o_pos := o_pos d + length bs\<rparr>) w1))))))"

definition sys_write :: "int \<Rightarrow> byte list \<Rightarrow> world \<Rightarrow> int \<times> world" where
  "sys_write fd buf w =
     (case next_outcome w of
        (Fault e, w1) \<Rightarrow> fail e w1
      | (oc, w1) \<Rightarrow>
          (case fdtab w1 fd of
             None \<Rightarrow> fail EBADF w1
           | Some k \<Rightarrow>
               (case ofiles w1 k of
                  None \<Rightarrow> fail EBADF w1
                | Some d \<Rightarrow>
                    (case inodes w1 (o_ino d) of
                       None \<Rightarrow> fail EBADF w1
                     | Some i \<Rightarrow>
                         if \<not> writable d then fail EBADF w1
                         else (let bs = take (write_count oc (length buf)) buf
                               in (int (length bs),
                                   set_ofile k (d\<lparr>o_pos := o_pos d + length bs\<rparr>)
                                     (set_inode (o_ino d)
                                        (i\<lparr>idata := splice_at (o_pos d) bs (idata i), imtim := now w1\<rparr>) w1)))))))"

definition sys_pread :: "int \<Rightarrow> nat \<Rightarrow> off \<Rightarrow> world \<Rightarrow> (int \<times> byte list) \<times> world" where
  "sys_pread fd count offset w =
     (case next_outcome w of
        (Fault e, w1) \<Rightarrow> ((FAIL, []), w1\<lparr>errno := e\<rparr>)
      | (oc, w1) \<Rightarrow>
          (case fd_ofile w1 fd of
             None \<Rightarrow> ((FAIL, []), w1\<lparr>errno := EBADF\<rparr>)
           | Some d \<Rightarrow>
               (case inodes w1 (o_ino d) of
                  None \<Rightarrow> ((FAIL, []), w1\<lparr>errno := EBADF\<rparr>)
                | Some i \<Rightarrow>
                    if \<not> readable d then ((FAIL, []), w1\<lparr>errno := EBADF\<rparr>)
                    else if offset < 0 then ((FAIL, []), w1\<lparr>errno := EINVAL\<rparr>)
                    else (let bs = take (read_count oc count) (drop (nat offset) (idata i))
                          in ((int (length bs), bs), w1)))))"

definition sys_pwrite :: "int \<Rightarrow> byte list \<Rightarrow> off \<Rightarrow> world \<Rightarrow> int \<times> world" where
  "sys_pwrite fd buf offset w =
     (case next_outcome w of
        (Fault e, w1) \<Rightarrow> fail e w1
      | (oc, w1) \<Rightarrow>
          (case fd_ofile w1 fd of
             None \<Rightarrow> fail EBADF w1
           | Some d \<Rightarrow>
               (case inodes w1 (o_ino d) of
                  None \<Rightarrow> fail EBADF w1
                | Some i \<Rightarrow>
                    if \<not> writable d then fail EBADF w1
                    else if offset < 0 then fail EINVAL w1
                    else (let bs = take (write_count oc (length buf)) buf
                          in (int (length bs),
                              set_inode (o_ino d)
                                (i\<lparr>idata := splice_at (nat offset) bs (idata i), imtim := now w1\<rparr>) w1)))))"

definition sys_ftruncate :: "int \<Rightarrow> off \<Rightarrow> world \<Rightarrow> int \<times> world" where
  "sys_ftruncate fd sz = syscall (\<lambda>w.
     case fd_ofile w fd of
       None \<Rightarrow> fail EBADF w
     | Some d \<Rightarrow>
         (case inodes w (o_ino d) of
            None \<Rightarrow> fail EBADF w
          | Some i \<Rightarrow>
              if \<not> writable d \<or> sz < 0 then fail EINVAL w
              else (0, set_inode (o_ino d)
                         (i\<lparr>idata := take (nat sz) (idata i) @ replicate (nat sz - length (idata i)) 0,
                            imtim := now w\<rparr>) w)))"

end
