(* ===== verification/PosixFacts.thy ===== *)
theory PosixFacts
  imports Posix
begin

text \<open>
  Facts about the system calls that every component proof uses: what a call does on each
  outcome, up to the environment's script and \<open>errno\<close> (\<open>agree\<close>); a well-formedness
  invariant of the world that every call keeps (\<open>world_ok\<close>); and the behaviour of a call when
  the script has nothing left to inject.
\<close>

section \<open>Worlds that differ only in the script and errno\<close>

definition strip :: "world \<Rightarrow> world" where
  "strip w = w\<lparr>script := [], suffixes := [], cancels := [], errno := ENOENT\<rparr>"

definition agree :: "world \<Rightarrow> world \<Rightarrow> bool" where
  "agree w w' \<longleftrightarrow> strip w = strip w'"

lemma agree_refl [simp, intro]: "agree w w"
  by (simp add: agree_def)

lemma agree_sym: "agree w w' \<Longrightarrow> agree w' w"
  by (simp add: agree_def)

lemma agree_trans [trans]: "agree a b \<Longrightarrow> agree b c \<Longrightarrow> agree a c"
  by (simp add: agree_def)

lemma agree_iff: "agree w w' \<longleftrightarrow>
    names w = names w' \<and> inodes w = inodes w' \<and> ofiles w = ofiles w' \<and> fdtab w = fdtab w' \<and>
    next_ino w = next_ino w' \<and> next_ofile w = next_ofile w' \<and> next_fd w = next_fd w' \<and>
    now w = now w' \<and> euid w = euid w' \<and> f_bsize w = f_bsize w' \<and> f_bavail w = f_bavail w' \<and>
    f_bfree w = f_bfree w' \<and> decomp_cache_size w = decomp_cache_size w'"
  by (cases w; cases w') (auto simp: agree_def strip_def)

lemma agreeD:
  assumes "agree w w'"
  shows "names w = names w'" "inodes w = inodes w'" "ofiles w = ofiles w'" "fdtab w = fdtab w'"
    "next_ino w = next_ino w'" "next_ofile w = next_ofile w'" "next_fd w = next_fd w'"
    "decomp_cache_size w = decomp_cache_size w'" "now w = now w'"
  using assms by (auto simp: agree_iff)

lemma agree_script [simp]:
  "agree (w\<lparr>script := x\<rparr>) w' = agree w w'" "agree (w\<lparr>errno := e\<rparr>) w' = agree w w'"
  "agree (w\<lparr>suffixes := s\<rparr>) w' = agree w w'" "agree (w\<lparr>cancels := c\<rparr>) w' = agree w w'"
  by (auto simp: agree_iff)

text \<open>A world in which the environment injects nothing.\<close>

abbreviation clean :: "world \<Rightarrow> bool" where
  "clean w \<equiv> script w = []"

lemma next_outcome_agree: "next_outcome w = (oc, w1) \<Longrightarrow> agree w1 w"
  by (auto simp: next_outcome_def split: list.splits)

lemma next_outcome_clean: "clean w \<Longrightarrow> next_outcome w = (Normally, w)"
  by (simp add: next_outcome_def)

lemma next_cancel_agree: "next_cancel w = (c, w1) \<Longrightarrow> agree w1 w \<and> script w1 = script w"
  by (auto simp: next_cancel_def split: list.splits)

section \<open>Well-formed worlds\<close>

definition world_ok :: "world \<Rightarrow> bool" where
  "world_ok w \<longleftrightarrow>
     (\<forall>p n. names w p = Some n \<longrightarrow> inodes w n \<noteq> None) \<and>
     (\<forall>n. inodes w n \<noteq> None \<longrightarrow> n < next_ino w) \<and>
     (\<forall>fd k. fdtab w fd = Some k \<longrightarrow> 0 \<le> fd \<and> fd < int (next_fd w) \<and> ofiles w k \<noteq> None) \<and>
     (\<forall>k d. ofiles w k = Some d \<longrightarrow> k < next_ofile w \<and> inodes w (o_ino d) \<noteq> None)"

lemma world_ok_agree: "agree w w' \<Longrightarrow> world_ok w = world_ok w'"
  by (simp add: agree_iff world_ok_def)

lemma world_ok_names: "world_ok w \<Longrightarrow> names w p = Some n \<Longrightarrow> \<exists>i. inodes w n = Some i \<and> n < next_ino w"
  unfolding world_ok_def by (metis not_None_eq)

lemma world_ok_inodes: "world_ok w \<Longrightarrow> inodes w n = Some i \<Longrightarrow> n < next_ino w"
  unfolding world_ok_def by (metis option.distinct(1))

lemma world_ok_fd: "world_ok w \<Longrightarrow> fdtab w fd = Some k \<Longrightarrow> 0 \<le> fd \<and> fd < int (next_fd w) \<and> (\<exists>d. ofiles w k = Some d)"
  unfolding world_ok_def by (metis not_None_eq)

lemma world_ok_ofile: "world_ok w \<Longrightarrow> ofiles w k = Some d \<Longrightarrow> k < next_ofile w \<and> (\<exists>i. inodes w (o_ino d) = Some i)"
  unfolding world_ok_def by (metis not_None_eq)

text \<open>The elementary updates keep it.\<close>

lemma world_ok_set_inode: "world_ok w \<Longrightarrow> inodes w n \<noteq> None \<Longrightarrow> world_ok (set_inode n i w)"
  by (auto simp: world_ok_def set_inode_def)

lemma world_ok_set_ofile: "world_ok w \<Longrightarrow> ofiles w k = Some d0 \<Longrightarrow> o_ino d = o_ino d0 \<Longrightarrow> world_ok (set_ofile k d w)"
  by (auto simp: world_ok_def set_ofile_def)

lemma world_ok_new_fd: "world_ok w \<Longrightarrow> inodes w n \<noteq> None \<Longrightarrow> new_fd n flags w = (fd, w') \<Longrightarrow> world_ok w'"
  unfolding world_ok_def new_fd_def by (auto split: if_splits simp: less_Suc_eq) fastforce+

lemma world_ok_new_inode: "world_ok w \<Longrightarrow> new_inode p mode w = (n, w') \<Longrightarrow> world_ok w' \<and> inodes w' n \<noteq> None"
  unfolding world_ok_def new_inode_def by (auto simp: less_Suc_eq split: if_splits)

lemma world_ok_close: "world_ok w \<Longrightarrow> world_ok (w\<lparr>fdtab := (fdtab w)(fd := None)\<rparr>)"
  by (auto simp: world_ok_def)

lemma world_ok_rename_names:
  "world_ok w \<Longrightarrow> names w from = Some n \<Longrightarrow>
   world_ok (w\<lparr>names := (names w)(from := None, to := Some n),
         inodes := (case names w to of
            None \<Rightarrow> inodes w
          | Some m \<Rightarrow> (inodes w)(m := map_option f (inodes w m)))\<rparr>)"
  unfolding world_ok_def by (auto split: option.splits if_splits; metis option.map_disc_iff)

section \<open>What each call does\<close>

lemma syscall_cases:
  assumes "syscall act w = (r, w')"
  obtains (fault) "r = FAIL" "agree w' w" | (runs) w1 where "agree w1 w" "act w1 = (r, w')"
  using assms next_outcome_agree [of w]
  by (fastforce simp: syscall_def fail_def split: prod.splits outcome.splits)

lemma syscall_clean: "clean w \<Longrightarrow> syscall act w = act w"
  by (simp add: syscall_def next_outcome_clean)

lemma sys_lstat_spec:
  assumes "sys_lstat p buf w = ((r, st), w')"
  shows "agree w' w \<and> (r = FAIL \<and> st = buf \<or>
     (\<exists>n i. r = 0 \<and> names w p = Some n \<and> inodes w n = Some i \<and> st = stat_of n i))"
proof (cases "next_outcome w")
  case (Pair oc w1)
  have a: "agree w1 w" by (rule next_outcome_agree [OF Pair])
  show ?thesis
    using assms Pair a agreeD(1,2) [OF a]
    by (auto simp: sys_lstat_def split: outcome.splits option.splits)
qed

lemma sys_fstat_spec:
  assumes "sys_fstat fd buf w = ((r, st), w')"
  shows "agree w' w \<and> (r = FAIL \<and> st = buf \<or>
     (\<exists>d i. r = 0 \<and> fd_ofile w fd = Some d \<and> inodes w (o_ino d) = Some i \<and> st = stat_of (o_ino d) i))"
proof (cases "next_outcome w")
  case (Pair oc w1)
  have a: "agree w1 w" by (rule next_outcome_agree [OF Pair])
  then have "fd_ofile w1 fd = fd_ofile w fd" by (simp add: agree_iff fd_ofile_def)
  then show ?thesis
    using assms Pair a agreeD(1,2) [OF a]
    by (auto simp: sys_fstat_def split: outcome.splits option.splits)
qed

lemma agree_set_inode: "agree w w' \<Longrightarrow> agree (set_inode n i w) (set_inode n i w')"
  by (simp add: agree_iff set_inode_def)

lemma agree_set_ofile: "agree w w' \<Longrightarrow> agree (set_ofile k d w) (set_ofile k d w')"
  by (simp add: agree_iff set_ofile_def)

lemma on_path_spec:
  assumes "on_path p f w = (r, w')"
  shows "r = FAIL \<and> agree w' w \<or>
     (\<exists>n i. r = 0 \<and> names w p = Some n \<and> inodes w n = Some i \<and> agree w' (set_inode n (f i) w))"
  using assms unfolding on_path_def
proof (cases rule: syscall_cases)
  case fault
  then show ?thesis by simp
next
  case (runs w1)
  then show ?thesis
    using agreeD(1,2) [OF runs(1)] agree_set_inode [OF runs(1)]
    by (auto simp: fail_def split: option.splits)
qed

lemma on_fd_spec:
  assumes "on_fd fd f w = (r, w')"
  shows "r = FAIL \<and> agree w' w \<or>
     (\<exists>d i. r = 0 \<and> fd_ofile w fd = Some d \<and> inodes w (o_ino d) = Some i \<and>
        agree w' (set_inode (o_ino d) (f i) w))"
  using assms unfolding on_fd_def
proof (cases rule: syscall_cases)
  case fault
  then show ?thesis by simp
next
  case (runs w1)
  have "fd_ofile w1 fd = fd_ofile w fd" using agreeD [OF runs(1)] by (simp add: fd_ofile_def)
  then show ?thesis
    using runs agreeD(1,2) [OF runs(1)] agree_set_inode [OF runs(1)]
    by (auto simp: fail_def split: option.splits)
qed

lemma sys_statvfs_spec: "sys_statvfs p w = (r, w') \<Longrightarrow> agree w' w \<and> (r = 0 \<or> r = FAIL)"
  unfolding sys_statvfs_def
  by (erule syscall_cases) (auto simp: fail_def split: option.splits)

lemma sys_unlink_spec:
  assumes "sys_unlink p w = (r, w')"
  shows "r = FAIL \<and> agree w' w \<or>
     (\<exists>n. r = 0 \<and> names w p = Some n \<and>
        agree w' (w\<lparr>names := (names w)(p := None),
          inodes := (inodes w)(n := map_option (\<lambda>i. i\<lparr>inlink := inlink i - 1\<rparr>) (inodes w n))\<rparr>))"
  using assms unfolding sys_unlink_def
proof (cases rule: syscall_cases)
  case fault
  then show ?thesis by simp
next
  case (runs w1)
  then show ?thesis by (auto simp: agree_iff fail_def split: option.splits)
qed

lemma sys_rename_spec:
  assumes "sys_rename from to w = (r, w')"
  shows "r = FAIL \<and> agree w' w \<or>
     (\<exists>n. r = 0 \<and> names w from = Some n \<and> names w to = Some n \<and> agree w' w) \<or>
     (\<exists>n. r = 0 \<and> names w from = Some n \<and> names w to \<noteq> Some n \<and>
        agree w' (w\<lparr>names := (names w)(from := None, to := Some n),
          inodes := (case names w to of
             None \<Rightarrow> inodes w
           | Some m \<Rightarrow>
               (inodes w)(m := map_option (\<lambda>i. i\<lparr>inlink := inlink i - 1\<rparr>) (inodes w m)))\<rparr>))"
  using assms unfolding sys_rename_def
proof (cases rule: syscall_cases)
  case fault
  then show ?thesis by simp
next
  case (runs w1)
  then show ?thesis by (auto simp: agree_iff fail_def split: option.splits if_splits)
qed

lemma new_fd_agree:
  assumes "agree w w'"
  shows "agree (snd (new_fd n flags w)) (snd (new_fd n flags w'))"
    and "fst (new_fd n flags w) = fst (new_fd n flags w')"
  using assms by (simp_all add: agree_iff new_fd_def)

lemma new_inode_agree:
  assumes "agree w w'"
  shows "agree (snd (new_inode p m w)) (snd (new_inode p m w'))"
    and "fst (new_inode p m w) = fst (new_inode p m w')"
  using assms by (simp_all add: agree_iff new_inode_def)

text \<open>Opening an existing file without truncation.\<close>

lemma sys_open_spec:
  assumes "sys_open p flags mode w = (r, w')" and "O_CREAT \<notin> flags" and "O_TRUNC \<notin> flags"
  shows "r = FAIL \<and> agree w' w \<or>
     (\<exists>n. names w p = Some n \<and> r = int (next_fd w) \<and> agree w' (snd (new_fd n flags w)))"
  using assms(1) unfolding sys_open_def
proof (cases rule: syscall_cases)
  case fault
  then show ?thesis by simp
next
  case (runs w1)
  then show ?thesis
    using assms(2,3)
    by (auto simp: agree_iff fail_def new_fd_def split: option.splits if_splits)
qed

lemma sys_close_spec:
  "sys_close fd w = (r, w') \<Longrightarrow> agree w' (w\<lparr>fdtab := (fdtab w)(fd := None)\<rparr>) \<and> (r = 0 \<or> r = FAIL)"
  using next_outcome_agree [of w]
  by (auto simp: sys_close_def fail_def agree_iff fun_upd_idem_iff split: prod.splits outcome.splits if_splits)

lemma sys_dup_spec:
  assumes "sys_dup fd w = (r, w')"
  shows "r = FAIL \<and> agree w' w \<or>
     (\<exists>k. fdtab w fd = Some k \<and> r = int (next_fd w) \<and>
        agree w' (w\<lparr>fdtab := (fdtab w)(int (next_fd w) \<mapsto> k), next_fd := next_fd w + 1\<rparr>))"
  using assms unfolding sys_dup_def
proof (cases rule: syscall_cases)
  case fault
  then show ?thesis by simp
next
  case (runs w1)
  then show ?thesis by (auto simp: agree_iff fail_def split: option.splits)
qed

lemma sys_mkstemp_spec:
  assumes "sys_mkstemp template w = ((r, p), w')"
  shows "r = FAIL \<and> agree w' w \<or>
     (names w p = None \<and> r = int (next_fd w) \<and>
      (\<exists>x. p = template @ x \<and> length x = 6) \<and>
      agree w' (snd (new_fd (next_ino w) {O_RDWR} (snd (new_inode p 384 w)))))"
  using assms next_outcome_agree [of w]
  by (auto simp: sys_mkstemp_def Let_def agree_iff new_fd_def new_inode_def
      split: prod.splits outcome.splits list.splits if_splits)

text \<open>A read either fails, or returns a piece of the file, empty only at its end.\<close>

lemma sys_read_spec:
  assumes "sys_read fd count w = ((r, bs), w')"
  shows "r = FAIL \<and> bs = [] \<and> agree w' w \<or>
     (\<exists>k d i m. fdtab w fd = Some k \<and> ofiles w k = Some d \<and> inodes w (o_ino d) = Some i \<and>
        bs = take m (drop (o_pos d) (idata i)) \<and> m \<le> count \<and> (0 < count \<longrightarrow> 0 < m) \<and>
        r = int (length bs) \<and>
        agree w' (set_ofile k (d\<lparr>o_pos := o_pos d + length bs\<rparr>) w))"
proof (cases "next_outcome w")
  case (Pair oc w1)
  have a: "agree w1 w" by (rule next_outcome_agree [OF Pair])
  have m: "read_count oc count \<le> count \<and> (0 < count \<longrightarrow> 0 < read_count oc count)"
    by (auto simp: read_count_def split: outcome.splits)
  show ?thesis
    using assms Pair agreeD(2-4) [OF a] a agree_set_ofile [OF a] m
    by (auto simp: sys_read_def Let_def split: outcome.splits option.splits if_splits)
qed

lemma sys_read_runs:
  assumes "fdtab w fd = Some k" and "ofiles w k = Some d" and "inodes w (o_ino d) = Some i"
    and "readable d" and "clean w"
  shows "sys_read fd count w =
    (let bs = take count (drop (o_pos d) (idata i))
     in ((int (length bs), bs), set_ofile k (d\<lparr>o_pos := o_pos d + length bs\<rparr>) w))"
  using assms by (simp add: sys_read_def next_outcome_clean read_count_def)

text \<open>A write either fails, or puts a first part of the buffer at the position.\<close>

lemma sys_write_spec:
  assumes "sys_write fd buf w = (r, w')"
  shows "r = FAIL \<and> agree w' w \<or>
     (\<exists>k d i bs. fdtab w fd = Some k \<and> ofiles w k = Some d \<and> inodes w (o_ino d) = Some i \<and>
        prefix bs buf \<and> r = int (length bs) \<and>
        agree w' (set_ofile k (d\<lparr>o_pos := o_pos d + length bs\<rparr>)
          (set_inode (o_ino d) (i\<lparr>idata := splice_at (o_pos d) bs (idata i), imtim := now w\<rparr>) w)))"
proof (cases "next_outcome w")
  case (Pair oc w1)
  have a: "agree w1 w" by (rule next_outcome_agree [OF Pair])
  let ?bs = "take (write_count oc (length buf)) buf"
  have "prefix ?bs buf" by (rule take_is_prefix)
  show ?thesis
  proof (cases "r = FAIL \<and> agree w' w")
    case False
    then obtain k d i where "fdtab w fd = Some k" "ofiles w k = Some d" "inodes w (o_ino d) = Some i"
      "r = int (length ?bs)" "w' = set_ofile k (d\<lparr>o_pos := o_pos d + length ?bs\<rparr>)
         (set_inode (o_ino d) (i\<lparr>idata := splice_at (o_pos d) ?bs (idata i), imtim := now w\<rparr>) w1)"
      using assms Pair agreeD [OF a] a
      by (auto simp: sys_write_def Let_def fail_def split: outcome.splits option.splits if_splits)
    then show ?thesis
      using \<open>prefix ?bs buf\<close> agree_set_ofile [OF agree_set_inode [OF a]] by blast
  qed simp
qed

lemma sys_write_runs:
  assumes "fdtab w fd = Some k" and "ofiles w k = Some d" and "inodes w (o_ino d) = Some i"
    and "writable d" and "clean w"
  shows "sys_write fd buf w =
    (int (length buf), set_ofile k (d\<lparr>o_pos := o_pos d + length buf\<rparr>)
       (set_inode (o_ino d) (i\<lparr>idata := splice_at (o_pos d) buf (idata i), imtim := now w\<rparr>) w))"
  using assms by (simp add: sys_write_def next_outcome_clean write_count_def)


section \<open>Reading moves one position, and nothing else\<close>

definition repositioned :: "int \<Rightarrow> world \<Rightarrow> world \<Rightarrow> bool" where
  "repositioned fd w w' \<longleftrightarrow>
     agree w' (w\<lparr>ofiles := ofiles w'\<rparr>) \<and>
     (\<forall>k. fdtab w fd \<noteq> Some k \<longrightarrow> ofiles w' k = ofiles w k) \<and>
     (\<forall>k. case ofiles w k of
        None \<Rightarrow> ofiles w' k = None
      | Some d \<Rightarrow> \<exists>p. ofiles w' k = Some (d\<lparr>o_pos := p\<rparr>))"

lemma repositioned_agree: "agree w' w \<Longrightarrow> repositioned fd w w'"
proof -
  have "\<exists>p. d = d\<lparr>o_pos := p\<rparr>" for d :: ofile by (rule exI [of _ "o_pos d"]) simp
  then show "agree w' w \<Longrightarrow> repositioned fd w w'"
    by (auto simp: repositioned_def agree_iff split: option.splits)
qed

lemma repositioned_refl [simp]: "repositioned fd w w"
  by (rule repositioned_agree) simp

lemma repositioned_same:
  assumes "repositioned fd w w'"
  shows "names w' = names w" "inodes w' = inodes w" "fdtab w' = fdtab w" "next_ino w' = next_ino w"
    "next_ofile w' = next_ofile w" "next_fd w' = next_fd w" "now w' = now w"
    "decomp_cache_size w' = decomp_cache_size w"
  using assms by (simp_all add: repositioned_def agree_iff)

lemma repositioned_trans [trans]:
  assumes "repositioned fd w1 w2" and "repositioned fd w2 w3"
  shows "repositioned fd w1 w3"
proof -
  note s = repositioned_same(3) [OF assms(1)]
  have "agree w3 (w1\<lparr>ofiles := ofiles w3\<rparr>)"
    using assms by (simp add: repositioned_def agree_iff)
  moreover have "fdtab w1 fd \<noteq> Some k \<longrightarrow> ofiles w3 k = ofiles w1 k" for k
    using assms s by (simp add: repositioned_def)
  moreover have "case ofiles w1 k of None \<Rightarrow> ofiles w3 k = None
      | Some d \<Rightarrow> \<exists>p. ofiles w3 k = Some (d\<lparr>o_pos := p\<rparr>)" for k
  proof -
    have "case ofiles w1 k of None \<Rightarrow> ofiles w2 k = None | Some d \<Rightarrow> \<exists>p. ofiles w2 k = Some (d\<lparr>o_pos := p\<rparr>)"
      and "case ofiles w2 k of None \<Rightarrow> ofiles w3 k = None | Some d \<Rightarrow> \<exists>p. ofiles w3 k = Some (d\<lparr>o_pos := p\<rparr>)"
      using assms by (simp_all add: repositioned_def)
    then show ?thesis by (auto split: option.splits)
  qed
  ultimately show ?thesis by (simp add: repositioned_def)
qed

lemma repositioned_ofile:
  assumes "repositioned fd w w'" and "ofiles w k = Some d"
  shows "\<exists>p. ofiles w' k = Some (d\<lparr>o_pos := p\<rparr>)"
proof -
  have "case ofiles w k of None \<Rightarrow> ofiles w' k = None | Some d \<Rightarrow> \<exists>p. ofiles w' k = Some (d\<lparr>o_pos := p\<rparr>)"
    using assms(1) by (simp add: repositioned_def)
  with assms(2) show ?thesis by simp
qed

lemma repositioned_other:
  assumes "repositioned fd w w'" and "fdtab w fd \<noteq> Some k"
  shows "ofiles w' k = ofiles w k"
  using assms by (simp add: repositioned_def)

lemma repositioned_world_ok: "repositioned fd w w' \<Longrightarrow> world_ok w \<Longrightarrow> world_ok w'"
proof -
  assume r: "repositioned fd w w'" and w: "world_ok w"
  have "ofiles w' k = Some d \<Longrightarrow> \<exists>d0. ofiles w k = Some d0 \<and> o_ino d = o_ino d0" for k d
    using r by (cases "ofiles w k") (auto simp: repositioned_def dest!: spec [of _ k])
  moreover have "ofiles w k \<noteq> None \<Longrightarrow> ofiles w' k \<noteq> None" for k
    using r by (auto simp: repositioned_def dest!: spec [of _ k])
  ultimately show "world_ok w'"
    using w repositioned_same [OF r] unfolding world_ok_def by metis
qed

text \<open>In terms of the bytes still to be read.\<close>

lemma sys_read_rest:
  assumes "sys_read fd count w = ((r, bs), w')"
  shows "repositioned fd w w'"
    and "r = FAIL \<and> bs = [] \<or>
      (\<exists>m. bs = take m (rest_of w fd) \<and> m \<le> count \<and> (0 < count \<longrightarrow> 0 < m) \<and> r = int (length bs) \<and>
         rest_of w' fd = drop (length bs) (rest_of w fd))"
proof -
  have "repositioned fd w (set_ofile k (d\<lparr>o_pos := p\<rparr>) w)"
    if "fdtab w fd = Some k" "ofiles w k = Some d" for k d p
  proof -
    have "\<exists>q. e = e\<lparr>o_pos := q\<rparr>" for e :: ofile by (rule exI [of _ "o_pos e"]) simp
    then show ?thesis
      using that by (auto simp: repositioned_def set_ofile_def agree_iff split: option.splits)
  qed
  then have moved: "repositioned fd w w'"
    if "fdtab w fd = Some k" "ofiles w k = Some d" "agree w' (set_ofile k (d\<lparr>o_pos := p\<rparr>) w)" for k d p
    using that repositioned_agree [OF that(3)] repositioned_trans by blast
  from sys_read_spec [OF assms] show "repositioned fd w w'"
    by (elim disjE conjE exE) (auto intro: repositioned_agree moved)
  from sys_read_spec [OF assms] show "r = FAIL \<and> bs = [] \<or>
      (\<exists>m. bs = take m (rest_of w fd) \<and> m \<le> count \<and> (0 < count \<longrightarrow> 0 < m) \<and> r = int (length bs) \<and>
         rest_of w' fd = drop (length bs) (rest_of w fd))"
  proof (elim disjE conjE exE)
    fix k d i m
    assume a: "fdtab w fd = Some k" "ofiles w k = Some d" "inodes w (o_ino d) = Some i"
      "bs = take m (drop (o_pos d) (idata i))" "m \<le> count" "0 < count \<longrightarrow> 0 < m" "r = int (length bs)"
      and w': "agree w' (set_ofile k (d\<lparr>o_pos := o_pos d + length bs\<rparr>) w)"
    have "rest_of w fd = drop (o_pos d) (idata i)"
      using a by (simp add: rest_of_def fd_ofile_def fd_inode_def)
    moreover have "rest_of w' fd = drop (o_pos d + length bs) (idata i)"
      using a agreeD [OF w'] by (simp add: rest_of_def fd_ofile_def fd_inode_def set_ofile_def)
    ultimately show ?thesis using a by (auto simp: add.commute)
  qed simp
qed

text \<open>A descriptor that can be read, and what a read from it does without faults.\<close>

definition can_read :: "world \<Rightarrow> int \<Rightarrow> bool" where
  "can_read w fd \<longleftrightarrow>
     (\<exists>k d i. fdtab w fd = Some k \<and> ofiles w k = Some d \<and> inodes w (o_ino d) = Some i \<and> readable d)"

lemma repositioned_can_read: "repositioned fd w w' \<Longrightarrow> can_read w x \<Longrightarrow> can_read w' x"
proof -
  assume r: "repositioned fd w w'" and "can_read w x"
  then obtain k d i where k: "fdtab w x = Some k" "ofiles w k = Some d" "inodes w (o_ino d) = Some i" "readable d"
    by (auto simp: can_read_def)
  from repositioned_ofile [OF r k(2)] obtain p where "ofiles w' k = Some (d\<lparr>o_pos := p\<rparr>)" by blast
  with k repositioned_same [OF r] show ?thesis by (simp add: can_read_def readable_def)
qed

lemma sys_read_clean:
  assumes "sys_read fd n w = ((r, bs), w')" and "clean w" and "can_read w fd"
  shows "bs = take n (rest_of w fd)" and "r = int (length bs)" and "clean w'"
    and "rest_of w' fd = drop n (rest_of w fd)" and "can_read w' fd" and "cancels w' = cancels w"
proof -
  obtain k d i where k: "fdtab w fd = Some k" "ofiles w k = Some d" "inodes w (o_ino d) = Some i" "readable d"
    using assms(3) by (auto simp: can_read_def)
  have rest: "rest_of w fd = drop (o_pos d) (idata i)"
    using k by (simp add: rest_of_def fd_ofile_def fd_inode_def)
  have bs: "bs = take n (rest_of w fd)" "r = int (length bs)"
    and w': "w' = set_ofile k (d\<lparr>o_pos := o_pos d + length bs\<rparr>) w"
    using assms(1,2) k by (auto simp: sys_read_def next_outcome_clean read_count_def Let_def rest)
  show "bs = take n (rest_of w fd)" "r = int (length bs)" using bs by auto
  show "clean w'" "cancels w' = cancels w" using w' assms(2) by (simp_all add: set_ofile_def)
  show "can_read w' fd" using w' k by (auto simp: can_read_def set_ofile_def readable_def)
  have "rest_of w' fd = drop (o_pos d + length bs) (idata i)"
    using w' k by (simp add: rest_of_def fd_ofile_def fd_inode_def set_ofile_def)
  then show "rest_of w' fd = drop n (rest_of w fd)"
    using rest bs by (auto simp: min_def add.commute)
qed

section \<open>Appending\<close>

text \<open>
  A descriptor open for writing whose position is the end of its file, and the world after
  bytes were written there.
\<close>

definition at_end :: "world \<Rightarrow> int \<Rightarrow> bool" where
  "at_end w fd \<longleftrightarrow>
     (case fd_ofile w fd of
        None \<Rightarrow> False
      | Some d \<Rightarrow>
          writable d \<and>
          (case inodes w (o_ino d) of None \<Rightarrow> False | Some i \<Rightarrow> o_pos d = length (idata i)))"

definition append_fd :: "int \<Rightarrow> byte list \<Rightarrow> world \<Rightarrow> world" where
  "append_fd fd bs w =
     (case fdtab w fd of
        None \<Rightarrow> w
      | Some k \<Rightarrow>
          (case ofiles w k of
             None \<Rightarrow> w
           | Some d \<Rightarrow>
               (case inodes w (o_ino d) of
                  None \<Rightarrow> w
                | Some i \<Rightarrow>
                    set_ofile k (d\<lparr>o_pos := o_pos d + length bs\<rparr>)
                      (set_inode (o_ino d) (i\<lparr>idata := idata i @ bs, imtim := now w\<rparr>) w))))"

definition data_of :: "world \<Rightarrow> int \<Rightarrow> byte list" where
  "data_of w fd = (case fd_inode w fd of None \<Rightarrow> [] | Some i \<Rightarrow> idata i)"

lemma sys_write_appends:
  assumes "clean w" and "at_end w fd"
  shows "sys_write fd bs w = (int (length bs), append_fd fd bs w)"
  using assms
  by (auto simp: at_end_def append_fd_def fd_ofile_def sys_write_runs bind_eq_Some_conv
      split: option.splits)

lemma append_fd_clean [simp]: "script (append_fd fd bs w) = script w"
  by (simp add: append_fd_def set_ofile_def set_inode_def split: option.split)

lemma append_fd_at_end [simp]: "at_end w fd \<Longrightarrow> at_end (append_fd fd bs w) fd"
  by (auto simp: append_fd_def at_end_def fd_ofile_def set_ofile_def set_inode_def writable_def
      bind_eq_Some_conv split: option.splits)

lemma append_fd_append: "at_end w fd \<Longrightarrow> append_fd fd b (append_fd fd a w) = append_fd fd (a @ b) w"
  by (auto simp: append_fd_def at_end_def fd_ofile_def set_ofile_def set_inode_def
      bind_eq_Some_conv add.assoc split: option.splits)

lemma append_fd_data: "at_end w fd \<Longrightarrow> data_of (append_fd fd bs w) fd = data_of w fd @ bs"
  by (auto simp: append_fd_def data_of_def at_end_def fd_inode_def fd_ofile_def set_ofile_def
      set_inode_def bind_eq_Some_conv split: option.splits)

lemma append_fd_same [simp]:
  "names (append_fd fd bs w) = names w" "fdtab (append_fd fd bs w) = fdtab w"
  "next_fd (append_fd fd bs w) = next_fd w" "cancels (append_fd fd bs w) = cancels w"
  by (simp_all add: append_fd_def set_ofile_def set_inode_def split: option.splits)

end
