(* ===== verification/Structs.thy ===== *)
theory Structs
  imports PosixFacts
begin

text \<open>
  The data types of \<^verbatim>\<open>structs.h\<close>, \<^verbatim>\<open>minilzo/lzo.h\<close> and the globals of
  \<^verbatim>\<open>globals.c\<close>.

  \<^item> A \<open>compressor_t *\<close> is an index into the table \<open>compressors\<close> of the configuration
    (\<open>None\<close> is NULL); the table's entries are records of functions, one per compression
    module. A function of a module returns \<open>None\<close> where the C code would not return
    or would leave defined behaviour.
  \<^item> \<open>status\<close>, a bit mask in C, is the set of its bits.
  \<^item> A \<open>file_t\<close> holds its descriptors in \<open>head\<close>, so the back pointer
    \<open>descriptor->file\<close> is the file that holds the descriptor. The mutex and the
    condition variable have no counterpart: where the source gives up the lock during a
    call, the model says what other threads may do there. The counter of reported errors
    only limits log messages and is left out, as are the unused fields \<open>ino\<close> and \<open>nlink\<close>.
  \<^item> The cache of decompressed pages is \<open>None\<close> for a NULL \<open>cache\<close> pointer.
\<close>

section \<open>lzo.h\<close>

datatype lzoMode = LZO_READ | LZO_WRITE

record lzoHead =
  hd_usize :: nat
  hd_psize :: nat

text \<open>\<open>usize\<close>: size of the buffer when writing; \<open>psize\<close>: number of stored bytes when writing.\<close>

record lzoBlock =
  bbuf :: "byte list option"
  usize :: nat
  psize :: nat

record lzoFile =
  lfd :: int
  lmode :: lzoMode
  block :: lzoBlock
  blockoff :: nat

section \<open>structs.h\<close>

text \<open>
  \<open>struct lzmafile\<close> of \<^verbatim>\<open>compress_lzma.c\<close>: the library's state, the part of the read buffer it has not
  taken yet (\<open>next_in\<close>, \<open>avail_in\<close>), the descriptor and the mode.
\<close>

record lzmafile =
  l_str :: "nat list"
  l_in :: "byte list"
  l_fd :: int
  l_mode :: char

text \<open>
  What \<open>compressor->open\<close> returns: a descriptor (null), an \<open>lzoFile\<close>, a \<open>struct lzmafile\<close>, or the
  stream of zlib or libbz2.
\<close>

datatype handle = HFd int | HLzo lzoFile | HLzma lzmafile | HExt "nat list"

datatype access_type = TYPE_NONE | READ | WRITE

datatype flag = COMPRESSING | DECOMPRESSING | CANCEL | DEDUPING

record descriptor_t =
  d_id :: nat
  d_fd :: int
  d_flags :: "oflag set"
  d_handle :: "handle option"
  d_offset :: off

record file_t =
  filename :: path
  filename_hash :: u32
  deleted :: bool
  accesses :: int
  fsize :: off
  fcompressor :: "nat option"
  skipped :: off
  dontcompress :: bool
  ftype :: access_type
  status :: "flag set"
  deduped :: bool
  cache :: "byte list option list option"
  head :: "descriptor_t list"

record compressor_t =
  ctype :: byte
  cname :: string
  compress :: "file_t \<Rightarrow> int \<Rightarrow> int \<Rightarrow> world \<Rightarrow> (off \<times> file_t \<times> world) option"
  decompress :: "int \<Rightarrow> int \<Rightarrow> world \<Rightarrow> (off \<times> world) option"
  copen :: "int \<Rightarrow> string \<Rightarrow> world \<Rightarrow> (handle option \<times> world) option"
  cclose :: "handle \<Rightarrow> world \<Rightarrow> (int \<times> world) option"
  cread :: "handle \<Rightarrow> nat \<Rightarrow> world \<Rightarrow> ((int \<times> byte list \<times> handle) \<times> world) option"
  cwrite :: "handle \<Rightarrow> byte list \<Rightarrow> world \<Rightarrow> ((int \<times> handle) \<times> world) option"

record header_t =
  h_id :: "byte list"
  h_type :: byte
  h_size :: u64

text \<open>\<open>sizeof(header_t)\<close>: the structure is packed.\<close>

abbreviation sizeof_header :: nat where
  "sizeof_header \<equiv> 12"

section \<open>globals.c\<close>

text \<open>
  What \<open>main\<close> sets once, before the file system is mounted. \<open>compressors\<close> has five
  slots; a module that was not compiled in leaves its slot NULL.
\<close>

record config =
  compressors :: "compressor_t option list"
  compressor_default :: "nat option"
  min_filesize_background :: int
  read_only :: bool
  root_fs :: bool
  cache_decompressed_data :: bool
  max_decomp_cache_size :: int
  dont_compress_beyond :: u64
  dedup_enabled :: bool
  dedup_redup :: bool
  compresslevel :: string
  user_incompressible :: "string list"
  user_exclude_paths :: "string list"

abbreviation TEMP :: string where
  "TEMP \<equiv> ''._fCtmp''"

abbreviation FUSE :: string where
  "FUSE \<equiv> ''.fuse_hidden''"

abbreviation FUSECOMPRESS_PREFIX :: string where
  "FUSECOMPRESS_PREFIX \<equiv> ''._fC''"

abbreviation DC_PAGE_SIZE :: nat where
  "DC_PAGE_SIZE \<equiv> 4096"

definition incompressible :: "string list" where
  "incompressible =
    [''.mp3'', ''.ogg'', ''.wma'', ''.m4a'', ''.mp2'',
     ''.avi'', ''.mov'', ''.mpg'', ''.mpeg'', ''.mp4'', ''.m4v'', ''.mkv'', ''.asf'', ''.flv'',
     ''.3gp'', ''.vob'', ''.swf'', ''.ogm'',
     ''.gz'', ''.bz2'', ''.zip'', ''.tgz'', ''.lzo'', ''.lzma'', ''.rar'', ''.ace'', ''.7z'',
     ''.lha'', ''.lzh'', ''.chm'', ''.lrz'', ''.xz'', ''.odt'', ''.epub'', ''.xpi'',
     ''.lzx'',
     ''.jpg'', ''.png'', ''.djvu'', ''.cbr'', ''.cbz'',
     ''.rpm'', ''.deb'', ''.cab'',
     ''.cdz'', ''.cso'',
     ''.torrent'',
     ''.pack'',
     ''.wmv'']"

definition mmapped_dirs :: "string list" where
  "mmapped_dirs = [''bin/'', ''sbin/'', ''usr/bin/'', ''usr/sbin/'']"

text \<open>\<open>assert\<close>, as a debug build has it: where the condition fails, the program does not return.\<close>

definition assert :: "bool \<Rightarrow> unit option" where
  "assert b = (if b then Some () else None)"

lemma assert_simps [simp]: "assert True = Some ()" "assert False = None"
  by (simp_all add: assert_def)

lemma assert_Some [simp]: "assert b = Some x \<longleftrightarrow> b"
  by (simp add: assert_def)

end
