(* ===== verification/LzoStream.thy ===== *)
theory LzoStream
  imports Lzo
begin

text \<open>
  What the block stream of \<^verbatim>\<open>minilzo/lzo.c\<close> means. Writing: in a world without faults,
  any sequence of \<open>lzowrite\<close> calls followed by \<open>lzoclose\<close> appends to the file the blocks
  of the data cut into pieces of the buffer's size. Reading: whatever faults occur,
  \<open>lzoread\<close> either reports an error or returns the next bytes of the decoded stream.
  \<open>lzo_decode\<close> is the decoder as one function on byte lists.
\<close>

section \<open>Writing\<close>

definition block_bytes :: "lzo_lib \<Rightarrow> byte list \<Rightarrow> byte list" where
  "block_bytes lib xs =
     (case lzo1x_1_compress lib xs of
        None \<Rightarrow> []
      | Some c \<Rightarrow>
          if length xs \<le> length c then head_bytes (length xs) (length xs) @ xs
          else head_bytes (length xs) (length c) @ c)"

definition stream :: "lzo_lib \<Rightarrow> byte list list \<Rightarrow> byte list" where
  "stream lib chunks = concat (map (block_bytes lib) chunks)"

lemma length_head_bytes [simp]: "length (head_bytes us ps) = 16"
  by (simp add: head_bytes_def)

lemma write_block_clean:
  assumes "clean w" and "at_end w fd"
  shows "write_block fd us stored w = (0, append_fd fd (head_bytes us (length stored) @ stored) w)"
  using assms by (simp add: write_block_def sys_write_appends append_fd_append)

lemma lzowriteblock_clean:
  assumes "clean w" and "at_end w fd" and "bbuf blk = Some b" and "psize blk \<le> length b"
    and "lzo1x_1_compress lib (take (psize blk) b) \<noteq> None"
  shows "lzowriteblock lib fd blk w = Some (0, append_fd fd (block_bytes lib (take (psize blk) b)) w)"
  using assms by (auto simp: lzowriteblock_def block_bytes_def Let_def write_block_clean)

text \<open>The writer's invariant: the first \<open>blockoff\<close> bytes of the buffer wait to be written.\<close>

definition writer_ok :: "lzoFile \<Rightarrow> bool" where
  "writer_ok f \<longleftrightarrow>
     lmode f = LZO_WRITE \<and> usize (block f) = WRITE_BUFFER_SIZE \<and>
     psize (block f) = blockoff f \<and> blockoff f \<le> WRITE_BUFFER_SIZE \<and>
     (\<exists>b. bbuf (block f) = Some b \<and> blockoff f \<le> length b)"

definition waiting :: "lzoFile \<Rightarrow> byte list" where
  "waiting f = (case bbuf (block f) of None \<Rightarrow> [] | Some b \<Rightarrow> take (blockoff f) b)"

lemma lzodopen_writer_ok: "CHR ''r'' \<notin> set mode \<Longrightarrow> writer_ok (lzodopen fd mode) \<and> waiting (lzodopen fd mode) = []"
  by (simp add: lzodopen_def writer_ok_def waiting_def)

lemma lfd_lzodopen [simp]: "lfd (lzodopen fd mode) = fd"
  by (simp add: lzodopen_def)

lemma store_byte_writer_ok:
  assumes "writer_ok f" and "blockoff f < WRITE_BUFFER_SIZE"
  shows "writer_ok (store_byte c f) \<and> waiting (store_byte c f) = waiting f @ [c] \<and> lfd (store_byte c f) = lfd f"
  using assms by (auto simp: writer_ok_def waiting_def store_byte_def Let_def)

lemma length_waiting: "writer_ok f \<Longrightarrow> length (waiting f) = blockoff f"
  by (auto simp: writer_ok_def waiting_def)

lemma flush_clean:
  assumes "clean w" and "at_end w (lfd f)" and "writer_ok f" and "lzo_lib_ok lib"
  shows "lzowriteblock lib (lfd f) (block f) w =
    Some (0, append_fd (lfd f) (block_bytes lib (waiting f)) w)"
proof -
  obtain b where b: "bbuf (block f) = Some b" "blockoff f \<le> length b" "psize (block f) = blockoff f"
    using assms(3) by (auto simp: writer_ok_def)
  have "lzo1x_1_compress lib (take (psize (block f)) b) \<noteq> None"
    using assms(4) unfolding lzo_lib_ok_def by (metis option.distinct(1))
  then show ?thesis
    using lzowriteblock_clean [OF assms(1,2) b(1)] b by (simp add: waiting_def)
qed

text \<open>Blocks appended one after the other.\<close>

definition emit :: "lzo_lib \<Rightarrow> int \<Rightarrow> byte list list \<Rightarrow> world \<Rightarrow> world" where
  "emit lib fd chunks w = fold (\<lambda>c. append_fd fd (block_bytes lib c)) chunks w"

lemma emit_simps [simp]:
  "emit lib fd [] w = w"
  "emit lib fd (c # cs) w = emit lib fd cs (append_fd fd (block_bytes lib c) w)"
  by (simp_all add: emit_def)

lemma emit_append: "emit lib fd (as @ bs) w = emit lib fd bs (emit lib fd as w)"
  by (simp add: emit_def)

lemma emit_clean [simp]: "script (emit lib fd cs w) = script w"
  by (induction cs arbitrary: w) auto

lemma emit_same [simp]:
  "names (emit lib fd cs w) = names w" "fdtab (emit lib fd cs w) = fdtab w"
  "next_fd (emit lib fd cs w) = next_fd w" "cancels (emit lib fd cs w) = cancels w"
  by (induction cs arbitrary: w) auto

lemma emit_at_end [simp]: "at_end w fd \<Longrightarrow> at_end (emit lib fd cs w) fd"
  by (induction cs arbitrary: w) auto

lemma emit_data: "at_end w fd \<Longrightarrow> data_of (emit lib fd cs w) fd = data_of w fd @ stream lib cs"
  by (induction cs arbitrary: w) (auto simp: append_fd_data stream_def)

lemma lzowrite_loop_clean:
  assumes "clean w" and "at_end w (lfd f)" and "writer_ok f" and "lzo_lib_ok lib"
  shows "\<exists>f' chunks.
     lzowrite_loop lib f buf w = Some ((True, f'), emit lib (lfd f) chunks w) \<and>
     writer_ok f' \<and> lfd f' = lfd f \<and>
     concat chunks @ waiting f' = waiting f @ buf \<and>
     (\<forall>c \<in> set chunks. length c = WRITE_BUFFER_SIZE) \<and>
     (waiting f \<noteq> [] \<or> buf \<noteq> [] \<longrightarrow> waiting f' \<noteq> [])"
  using assms
proof (induction lib f buf w rule: lzowrite_loop.induct)
  case (1 lib f w)
  show ?case
    by (rule exI [of _ f], rule exI [of _ "[]"]) (use 1 in simp)
next
  case (2 lib f c cs w)
  show ?case
  proof (cases "blockoff f < usize (block f)")
    case True
    then have s: "writer_ok (store_byte c f)" "waiting (store_byte c f) = waiting f @ [c]"
      "lfd (store_byte c f) = lfd f"
      using store_byte_writer_ok [OF "2.prems"(3)] "2.prems"(3) by (auto simp: writer_ok_def)
    from "2.IH"(1) [OF True "2.prems"(1)] s "2.prems"(2,4)
    obtain f' chunks where "lzowrite_loop lib (store_byte c f) cs w = Some ((True, f'), emit lib (lfd f) chunks w)"
      "writer_ok f'" "lfd f' = lfd f" "concat chunks @ waiting f' = (waiting f @ [c]) @ cs"
      "\<forall>c \<in> set chunks. length c = WRITE_BUFFER_SIZE" "waiting f' \<noteq> []"
      by auto
    then show ?thesis
      using True by (intro exI [of _ f'] exI [of _ chunks]) simp
  next
    case False
    let ?f1 = "f\<lparr>blockoff := 0, block := (block f)\<lparr>psize := 0\<rparr>\<rparr>"
    let ?w1 = "append_fd (lfd f) (block_bytes lib (waiting f)) w"
    have full: "length (waiting f) = WRITE_BUFFER_SIZE"
      using False "2.prems"(3) length_waiting by (auto simp: writer_ok_def)
    have f1: "writer_ok ?f1" "waiting ?f1 = []" "blockoff ?f1 < WRITE_BUFFER_SIZE"
      using "2.prems"(3) by (auto simp: writer_ok_def waiting_def split: option.splits)
    note s = store_byte_writer_ok [OF f1(1,3)]
    have fl: "lzowriteblock lib (lfd f) (block f) w = Some (0, ?w1)"
      by (rule flush_clean [OF "2.prems"])
    have "\<exists>f' chunks. lzowrite_loop lib (store_byte c ?f1) cs ?w1 = Some ((True, f'), emit lib (lfd (store_byte c ?f1)) chunks ?w1) \<and>
       writer_ok f' \<and> lfd f' = lfd (store_byte c ?f1) \<and>
       concat chunks @ waiting f' = waiting (store_byte c ?f1) @ cs \<and>
       (\<forall>c \<in> set chunks. length c = WRITE_BUFFER_SIZE) \<and>
       (waiting (store_byte c ?f1) \<noteq> [] \<or> cs \<noteq> [] \<longrightarrow> waiting f' \<noteq> [])"
      by (rule "2.IH"(2) [OF False fl refl])
        (use s f1 "2.prems" in \<open>auto simp: writer_ok_def\<close>)
    then obtain f' chunks where
      "lzowrite_loop lib (store_byte c ?f1) cs ?w1 = Some ((True, f'), emit lib (lfd f) chunks ?w1)"
      "writer_ok f'" "lfd f' = lfd f" "concat chunks @ waiting f' = [c] @ cs"
      "\<forall>c \<in> set chunks. length c = WRITE_BUFFER_SIZE" "waiting f' \<noteq> []"
      using s f1 by auto
    then show ?thesis
      using False fl full "2.prems"(3)
      by (intro exI [of _ f'] exI [of _ "waiting f # chunks"]) (auto simp: writer_ok_def Let_def)
  qed
qed

text \<open>Any number of writes.\<close>

fun lzowrite_all :: "lzo_lib \<Rightarrow> lzoFile \<Rightarrow> byte list list \<Rightarrow> world \<Rightarrow> (lzoFile \<times> world) option" where
  "lzowrite_all lib f [] w = Some (f, w)"
| "lzowrite_all lib f (b # bs) w = do {
     ((r, f'), w') \<leftarrow> lzowrite lib f b w;
     assert (r = int (length b));
     lzowrite_all lib f' bs w'
   }"

lemma lzowrite_all_clean:
  assumes "clean w" and "at_end w (lfd f)" and "writer_ok f" and "lzo_lib_ok lib"
  shows "\<exists>f' chunks.
     lzowrite_all lib f bufs w = Some (f', emit lib (lfd f) chunks w) \<and>
     writer_ok f' \<and> lfd f' = lfd f \<and>
     concat chunks @ waiting f' = waiting f @ concat bufs \<and>
     (\<forall>c \<in> set chunks. length c = WRITE_BUFFER_SIZE) \<and>
     (waiting f \<noteq> [] \<or> concat bufs \<noteq> [] \<longrightarrow> waiting f' \<noteq> [])"
  using assms
proof (induction bufs arbitrary: f w)
  case Nil
  show ?case by (rule exI [of _ f], rule exI [of _ "[]"]) (use Nil in simp)
next
  case (Cons b bs)
  obtain f1 cs1 where 1: "lzowrite_loop lib f b w = Some ((True, f1), emit lib (lfd f) cs1 w)"
    "writer_ok f1" "lfd f1 = lfd f" "concat cs1 @ waiting f1 = waiting f @ b"
    "\<forall>c \<in> set cs1. length c = WRITE_BUFFER_SIZE" "waiting f \<noteq> [] \<or> b \<noteq> [] \<longrightarrow> waiting f1 \<noteq> []"
    using lzowrite_loop_clean [OF Cons.prems, of b] by blast
  obtain f2 cs2 where 2: "lzowrite_all lib f1 bs (emit lib (lfd f) cs1 w) =
      Some (f2, emit lib (lfd f) cs2 (emit lib (lfd f) cs1 w))"
    "writer_ok f2" "lfd f2 = lfd f" "concat cs2 @ waiting f2 = waiting f1 @ concat bs"
    "\<forall>c \<in> set cs2. length c = WRITE_BUFFER_SIZE" "waiting f1 \<noteq> [] \<or> concat bs \<noteq> [] \<longrightarrow> waiting f2 \<noteq> []"
    using Cons.IH [of "emit lib (lfd f) cs1 w" f1] 1 Cons.prems by auto
  have cat: "concat (cs1 @ cs2) @ waiting f2 = waiting f @ concat (b # bs)"
    using 1(4) 2(4) by (metis append.assoc concat.simps(2) concat_append)
  show ?case
    by (rule exI [of _ f2], rule exI [of _ "cs1 @ cs2"])
      (use 1 2 cat in \<open>auto simp: lzowrite_def emit_append\<close>)
qed

lemma lzoclose_clean:
  assumes "clean w" and "at_end w (lfd f)" and "writer_ok f" and "lzo_lib_ok lib"
  shows "lzoclose lib f w = Some (sys_close (lfd f) (emit lib (lfd f) [waiting f] w))"
  using flush_clean [OF assms] assms(3) by (simp add: lzoclose_def writer_ok_def)


section \<open>Reading\<close>

text \<open>
  The decoder as a function of the bytes still in the file; \<open>prev\<close> is the size of the
  block read before, 0 at the start. A block of size 0 is what \<open>lzoclose\<close> writes for a
  stream that got no data; after other blocks it is an error, because \<open>realloc\<close> to 0 is
  taken for a failed allocation.
\<close>

function lzo_decode :: "lzo_lib \<Rightarrow> nat \<Rightarrow> byte list \<Rightarrow> byte list option" where
  "lzo_decode lib prev bs =
     (if bs = [] then Some []
      else if length bs < 16 then None
      else
        (let us = le_val (take 8 bs); ps = le_val (drop 8 (take 16 bs)); rest = drop 16 bs;
             p = take ps rest
         in if length rest < ps then None
            else if us = 0 \<and> prev \<noteq> 0 then None
            else
              (case (if us = ps then Some p else lzo1x_decompress_safe lib p us) of
                 None \<Rightarrow> None
               | Some out \<Rightarrow>
                   if length out \<noteq> us then None
                   else if us = 0 then Some []
                   else map_option ((@) out) (lzo_decode lib us (drop ps rest)))))"
  by pat_completeness auto
termination
  by (relation "measure (\<lambda>(lib, prev, bs). length bs)") (auto simp: Let_def)

declare lzo_decode.simps [simp del]

text \<open>The reader's invariant: the block buffer holds \<open>usize\<close> bytes, and is NULL exactly if that is 0.\<close>

definition reader_ok :: "lzoFile \<Rightarrow> bool" where
  "reader_ok f \<longleftrightarrow>
     blockoff f \<le> usize (block f) \<and>
     (case bbuf (block f) of
        None \<Rightarrow> usize (block f) = 0
      | Some b \<Rightarrow> length b = usize (block f) \<and> usize (block f) \<noteq> 0)"

definition pending :: "lzoFile \<Rightarrow> byte list" where
  "pending f = (case bbuf (block f) of None \<Rightarrow> [] | Some b \<Rightarrow> drop (blockoff f) b)"

text \<open>All the bytes the reader will still deliver.\<close>

definition remaining :: "lzo_lib \<Rightarrow> lzoFile \<Rightarrow> world \<Rightarrow> byte list option" where
  "remaining lib f w =
     map_option ((@) (pending f)) (lzo_decode lib (usize (block f)) (rest_of w (lfd f)))"

lemma map_option_append_nil [simp]: "map_option ((@) []) (x :: 'a list option) = x"
  by (cases x) auto

lemma reader_ok_open: "CHR ''r'' \<in> set mode \<Longrightarrow> reader_ok (lzodopen fd mode)"
  by (simp add: reader_ok_def lzodopen_def)

lemma remaining_open:
  "CHR ''r'' \<in> set mode \<Longrightarrow> remaining lib (lzodopen fd mode) w = lzo_decode lib 0 (rest_of w fd)"
  by (simp add: remaining_def pending_def lzodopen_def)

lemma copy_out_spec:
  assumes "reader_ok f"
  shows "\<exists>f'. copy_out f n = Some (take n (pending f), f') \<and> reader_ok f' \<and> lfd f' = lfd f \<and>
    lmode f' = lmode f \<and> block f' = block f \<and> pending f' = drop n (pending f)"
  using assms
proof (induction f n rule: copy_out.induct)
  case (1 f)
  then show ?case by simp
next
  case (2 f n)
  show ?case
  proof (cases "blockoff f < usize (block f)")
    case True
    then obtain b where b: "bbuf (block f) = Some b" "length b = usize (block f)"
      using "2.prems" by (auto simp: reader_ok_def split: option.splits)
    let ?f = "f\<lparr>blockoff := blockoff f + 1\<rparr>"
    have ok: "reader_ok ?f" using "2.prems" True by (auto simp: reader_ok_def split: option.splits)
    have p: "pending f = b ! blockoff f # pending ?f"
      using b True by (simp add: pending_def Cons_nth_drop_Suc)
    obtain f' where "copy_out ?f n = Some (take n (pending ?f), f')" "reader_ok f'" "lfd f' = lfd f"
      "lmode f' = lmode f" "block f' = block f" "pending f' = drop n (pending ?f)"
      using "2.IH" [OF True b(1) _ ok] b True by auto
    then show ?thesis using True b p by simp
  next
    case False
    then have "pending f = []"
      using "2.prems" by (auto simp: reader_ok_def pending_def split: option.splits)
    with False "2.prems" show ?thesis by simp
  qed
qed

lemma reader_ok_clear: "reader_ok (f\<lparr>blockoff := 0, block := lzoclearblock\<rparr>)"
  by (simp add: reader_ok_def lzoclearblock_def)

text \<open>
  One block: the end of the file or a block of size 0, an error, or the next block, in
  which case the rest of the stream decodes as the decoder says.
\<close>

lemma lzoreadblock_spec:
  assumes "lzoreadblock lib fd blk w = ((r, blk'), w')"
    and ok: "usize blk = 0 \<longleftrightarrow> bbuf blk = None"
  shows "repositioned fd w w'"
    and "r = -1 \<and> blk' = lzoclearblock \<or>
      (r = 0 \<and> bbuf blk' = None \<and> usize blk' = 0 \<and> lzo_decode lib (usize blk) (rest_of w fd) = Some [] \<and>
         (usize blk \<noteq> 0 \<longrightarrow> rest_of w' fd = [])) \<or>
      (\<exists>out. r = 0 \<and> bbuf blk' = Some out \<and> usize blk' = length out \<and> out \<noteq> [] \<and>
         lzo_decode lib (usize blk) (rest_of w fd) =
           map_option ((@) out) (lzo_decode lib (length out) (rest_of w' fd)))"
proof -
  obtain r1 hb w1 where rd: "sys_read fd sizeof_lzoHead w = ((r1, hb), w1)"
    by (metis prod.collapse)
  note rd1 = sys_read_rest [OF rd]
  let ?h = "head_of_bytes hb"
  let ?us = "hd_usize ?h" and ?ps = "hd_psize ?h"
  show "repositioned fd w w'"
    using assms(1) rd rd1(1)
    by (auto simp: lzoreadblock_def read_block_def Let_def split: prod.splits if_splits option.splits
        dest!: sys_read_rest(1) intro: repositioned_trans)
  show "r = -1 \<and> blk' = lzoclearblock \<or>
      (r = 0 \<and> bbuf blk' = None \<and> usize blk' = 0 \<and> lzo_decode lib (usize blk) (rest_of w fd) = Some [] \<and>
         (usize blk \<noteq> 0 \<longrightarrow> rest_of w' fd = [])) \<or>
      (\<exists>out. r = 0 \<and> bbuf blk' = Some out \<and> usize blk' = length out \<and> out \<noteq> [] \<and>
         lzo_decode lib (usize blk) (rest_of w fd) =
           map_option ((@) out) (lzo_decode lib (length out) (rest_of w' fd)))"
  proof (cases "r1 = 0 \<or> r1 \<noteq> int sizeof_lzoHead")
    case True
    show ?thesis
    proof (cases "r1 = 0")
      case zero: True
      then have "r = 0" "blk' = lzoclearblock" "w' = w1"
        using assms(1) rd by (auto simp: lzoreadblock_def)
      moreover have "rest_of w fd = []" "rest_of w1 fd = []"
        using zero rd1(2) by auto
      ultimately show ?thesis
        by (simp add: lzoclearblock_def lzo_decode.simps [of lib "usize blk" "[]"])
    next
      case False
      then have "r = -1" "blk' = lzoclearblock"
        using True assms(1) rd by (auto simp: lzoreadblock_def)
      then show ?thesis by simp
    qed
  next
    case False
    let ?bs = "rest_of w fd"
    have hb: "hb = take 16 ?bs" "16 \<le> length ?bs" "rest_of w1 fd = drop 16 ?bs"
      using False rd1(2) by (auto simp: min_def split: if_splits)
    have us: "le_val (take 8 ?bs) = ?us" and ps: "le_val (drop 8 (take 16 ?bs)) = ?ps"
      using hb by (simp_all add: head_of_bytes_def)
    obtain r2 p w2 where rd2: "sys_read fd ?ps w1 = ((r2, p), w2)" by (metis prod.collapse)
    note rd2' = sys_read_rest(2) [OF rd2]
    have run: "lzoreadblock lib fd blk w = read_block lib fd ?h blk w1"
      using False rd by (simp add: lzoreadblock_def)
    show ?thesis
    proof (cases "r = -1")
      case True
      then show ?thesis
        using assms(1) run rd2 by (auto simp: read_block_def Let_def split: if_splits option.splits)
    next
      case ret: False
      have r2: "r2 = int ?ps" and w': "w' = w2" and r0: "r = 0"
        and us0: "?us = 0 \<longrightarrow> usize blk = 0"
        using ret assms(1) run rd2 by (auto simp: read_block_def Let_def split: if_splits option.splits)
      have p: "p = take ?ps (drop 16 ?bs)" "?ps \<le> length (drop 16 ?bs)"
        "rest_of w' fd = drop ?ps (drop 16 ?bs)"
        using rd2' r2 hb w' by (auto simp: min_def split: if_splits)
      define out where "out = (if ?us = ?ps then Some p else lzo1x_decompress_safe lib p ?us)"
      obtain o' where o': "out = Some o'" "length o' = ?us"
        and blk': "bbuf blk' = (if ?us = 0 then None else Some o')" "usize blk' = ?us"
        using ret assms(1) run rd2 ok p unfolding out_def
        by (auto simp: read_block_def Let_def split: if_splits option.splits)
      have dec: "lzo_decode lib (usize blk) ?bs =
          (if ?us = 0 then Some [] else map_option ((@) o') (lzo_decode lib ?us (rest_of w' fd)))"
        using hb p us0 o' unfolding out_def
        by (subst lzo_decode.simps) (auto simp: Let_def us ps split: if_splits)
      show ?thesis
      proof (cases "?us = 0")
        case True
        then show ?thesis using dec blk' r0 us0 by auto
      next
        case False
        then show ?thesis using dec blk' r0 o' by auto
      qed
    qed
  qed
qed

lemma lzoreadblock_reader_ok:
  assumes "lzoreadblock lib (lfd f) (block f) w = ((r, blk), w')" and "reader_ok f"
  shows "reader_ok (f\<lparr>blockoff := 0, block := blk\<rparr>)"
proof -
  have "usize (block f) = 0 \<longleftrightarrow> bbuf (block f) = None"
    using assms(2) by (auto simp: reader_ok_def split: option.splits)
  from lzoreadblock_spec(2) [OF assms(1) this] show ?thesis
    by (auto simp: reader_ok_def lzoclearblock_def)
qed

text \<open>The loop returns: \<open>n + 2\<close> turns are enough, one more than it can use.\<close>

lemma lzoread_loop_terminates:
  assumes "reader_ok f" and "n + (if pending f = [] then 2 else 1) \<le> fuel"
  shows "\<exists>res. lzoread_loop fuel lib f n w = Some res"
  using assms
proof (induction fuel lib f n w rule: lzoread_loop.induct)
  case (1 lib f n w)
  then show ?case by (simp split: if_splits)
next
  case (2 fuel lib f n w)
  obtain f1 where f1: "copy_out f n = Some (take n (pending f), f1)" "reader_ok f1" "lfd f1 = lfd f"
    using copy_out_spec [OF "2.prems"(1), of n] by auto
  let ?bs = "take n (pending f)"
  show ?case
  proof (cases "n = 0 \<or> length ?bs = n")
    case True
    then show ?thesis using f1 by auto
  next
    case False
    obtain r blk w1 where rb: "lzoreadblock lib (lfd f1) (block f1) w = ((r, blk), w1)"
      by (metis prod.collapse)
    let ?f2 = "f1\<lparr>blockoff := 0, block := blk\<rparr>"
    have ok2: "reader_ok ?f2" by (rule lzoreadblock_reader_ok [OF rb f1(2)])
    show ?thesis
    proof (cases "r = -1 \<or> bbuf blk = None")
      case True
      then show ?thesis using False f1 rb by (auto simp: Let_def)
    next
      case more: False
      have "pending ?f2 \<noteq> []"
        using more ok2 by (auto simp: reader_ok_def pending_def split: option.splits)
      moreover have "n - length ?bs + 1 \<le> fuel"
        using "2.prems"(2) False by (cases "pending f") (auto simp: min_def split: if_splits)
      ultimately have "\<exists>res. lzoread_loop fuel lib ?f2 (n - length ?bs) w1 = Some res"
        using more False by (intro "2.IH" [OF _ f1(1) refl _ rb [symmetric] refl refl refl _ _ ok2]) auto
      then show ?thesis using False f1 rb more by (auto simp: Let_def)
    qed
  qed
qed

lemma lzoread_terminates: "reader_ok f \<Longrightarrow> \<exists>res. lzoread lib f n w = Some res"
proof -
  assume "reader_ok f"
  moreover have "n + (if pending f = [] then 2 else 1) \<le> n + 2" by simp
  ultimately obtain res f' w' where "lzoread_loop (n + 2) lib f n w = Some ((res, f'), w')"
    by (metis lzoread_loop_terminates prod.collapse)
  then show ?thesis by (simp add: lzoread_def del: lzoread_loop.simps)
qed

text \<open>
  What it returns: an error, or the next bytes; fewer than asked for only if these are the
  last ones.
\<close>

lemma lzoread_loop_spec:
  assumes "lzoread_loop fuel lib f n w = Some ((res, f'), w')" and "reader_ok f"
  shows "reader_ok f' \<and> lfd f' = lfd f \<and> lmode f' = lmode f \<and> repositioned (lfd f) w w' \<and>
    (case res of None \<Rightarrow> True | Some bs \<Rightarrow>
       (length bs = n \<and>
          remaining lib f w = map_option ((@) bs) (remaining lib f' w')) \<or>
       (length bs < n \<and> remaining lib f w = Some bs \<and> (bs \<noteq> [] \<longrightarrow> remaining lib f' w' = Some [])))"
  using assms
proof (induction fuel lib f n w arbitrary: res f' w' rule: lzoread_loop.induct)
  case (1 lib f n w)
  then show ?case by simp
next
  case (2 fuel lib f n w)
  have id: "map_option ((@) []) x = x" for x :: "byte list option"
    by (cases x) auto
  obtain f1 where f1: "copy_out f n = Some (take n (pending f), f1)" "reader_ok f1" "lfd f1 = lfd f"
    "lmode f1 = lmode f" "block f1 = block f" "pending f1 = drop n (pending f)"
    using copy_out_spec [OF "2.prems"(2), of n] by auto
  let ?bs = "take n (pending f)"
  have comp: "map_option ((@) a) (map_option ((@) b) x) = map_option ((@) (a @ b)) x"
    for a b :: "byte list" and x by (cases x) auto
  have rem1: "remaining lib f w = map_option ((@) ?bs) (remaining lib f1 w)"
    using f1 by (simp add: remaining_def comp append_take_drop_id)
  show ?case
  proof (cases "n = 0 \<or> length ?bs = n")
    case True
    then show ?thesis
      using "2.prems" f1 rem1 by (auto simp: id split: if_splits)
  next
    case False
    then have short: "length ?bs < n" "pending f1 = []" using f1 by auto
    obtain r blk w1 where rb: "lzoreadblock lib (lfd f1) (block f1) w = ((r, blk), w1)"
      by (metis prod.collapse)
    let ?f2 = "f1\<lparr>blockoff := 0, block := blk\<rparr>"
    have ok2: "reader_ok ?f2" by (rule lzoreadblock_reader_ok [OF rb f1(2)])
    have nul: "usize (block f1) = 0 \<longleftrightarrow> bbuf (block f1) = None"
      using f1(2) by (auto simp: reader_ok_def split: option.splits)
    note sp = lzoreadblock_spec [OF rb nul]
    have rep: "repositioned (lfd f) w w1" using sp(1) f1(3) by simp
    have rem: "remaining lib f1 w = lzo_decode lib (usize (block f1)) (rest_of w (lfd f1))"
      using short by (simp add: remaining_def id)
    show ?thesis
    proof (cases "r = -1")
      case True
      then show ?thesis using "2.prems" False f1 rb ok2 rep by auto
    next
      case r: False
      show ?thesis
      proof (cases "bbuf blk")
        case None
        have ret: "res = Some ?bs" "f' = ?f2" "w' = w1"
          using "2.prems" False f1 rb r None by auto
        have dec: "lzo_decode lib (usize (block f1)) (rest_of w (lfd f1)) = Some []"
          and z: "usize blk = 0" and at_eof: "usize (block f1) \<noteq> 0 \<longrightarrow> rest_of w1 (lfd f1) = []"
          using sp(2) r None by auto
        have "?bs \<noteq> [] \<longrightarrow> usize (block f1) \<noteq> 0"
          using "2.prems"(2) f1(5) by (auto simp: reader_ok_def pending_def split: option.splits)
        then have "?bs \<noteq> [] \<longrightarrow> remaining lib ?f2 w1 = Some []"
          using at_eof z None by (auto simp: remaining_def pending_def lzo_decode.simps [of lib 0 "[]"])
        then show ?thesis using ret ok2 rep f1 short rem1 rem dec by simp
      next
        case (Some out)
        have dec: "lzo_decode lib (usize (block f1)) (rest_of w (lfd f1)) =
            map_option ((@) out) (lzo_decode lib (length out) (rest_of w1 (lfd f1)))"
          and us: "usize blk = length out"
          using sp(2) r Some by auto
        have rem2: "remaining lib ?f2 w1 = remaining lib f1 w"
          using rem dec us Some by (simp add: remaining_def pending_def)
        obtain res3 f3 w3 where l3: "lzoread_loop fuel lib ?f2 (n - length ?bs) w1 = Some ((res3, f3), w3)"
          and ret: "res = map_option ((@) ?bs) res3" "f' = f3" "w' = w3"
          using "2.prems" False f1 rb r Some by (auto simp: bind_eq_Some_conv)
        have IH: "reader_ok f3 \<and> lfd f3 = lfd ?f2 \<and> lmode f3 = lmode ?f2 \<and> repositioned (lfd ?f2) w1 w3 \<and>
            (case res3 of None \<Rightarrow> True | Some bs \<Rightarrow>
              (length bs = n - length ?bs \<and>
                 remaining lib ?f2 w1 = map_option ((@) bs) (remaining lib f3 w3)) \<or>
              (length bs < n - length ?bs \<and> remaining lib ?f2 w1 = Some bs \<and>
                 (bs \<noteq> [] \<longrightarrow> remaining lib f3 w3 = Some [])))"
          using False r Some
          by (intro "2.IH" [OF _ f1(1) refl _ rb [symmetric] refl refl refl _ _ l3 ok2]) auto
        have nonempty: "pending ?f2 = out" "out \<noteq> []"
          using Some ok2 by (auto simp: pending_def reader_ok_def)
        have first: "res3 = Some [] \<Longrightarrow> n - length ?bs = 0"
        proof (rule ccontr)
          assume e: "res3 = Some []" and "n - length ?bs \<noteq> 0"
          then have "remaining lib ?f2 w1 = Some []" using IH by auto
          then show False using nonempty by (auto simp: remaining_def)
        qed
        show ?thesis
          using IH ret f1 rep rem1 rem2 short first
          by (cases res3) (auto simp: comp intro: repositioned_trans)
      qed
    qed
  qed
qed

lemma lzoread_spec:
  assumes "lzoread lib f n w = Some ((r, bs, f'), w')" and "reader_ok f"
  shows "reader_ok f' \<and> lfd f' = lfd f \<and> lmode f' = lmode f \<and> repositioned (lfd f) w w' \<and>
    (r = -1 \<and> bs = [] \<or>
     r = int (length bs) \<and>
     ((length bs = n \<and> remaining lib f w = map_option ((@) bs) (remaining lib f' w')) \<or>
      (length bs < n \<and> remaining lib f w = Some bs \<and> (bs \<noteq> [] \<longrightarrow> remaining lib f' w' = Some []))))"
proof -
  obtain res where l: "lzoread_loop (n + 2) lib f n w = Some ((res, f'), w')"
    and r: "(r, bs) = (case res of None \<Rightarrow> (-1, []) | Some bs \<Rightarrow> (int (length bs), bs))"
    using assms(1) by (auto simp: lzoread_def bind_eq_Some_conv split: option.splits simp del: lzoread_loop.simps)
  show ?thesis using lzoread_loop_spec [OF l assms(2)] r by (cases res) auto
qed

text \<open>Progress: a read that delivers bytes takes them from the file or from the buffer.\<close>

lemma sys_read_shrinks:
  "sys_read fd n w = ((r, bs), w') \<Longrightarrow> length (rest_of w' fd) \<le> length (rest_of w fd) \<or> r = FAIL"
  using sys_read_rest(2) [of fd n w r bs w'] by auto

lemma lzoreadblock_progress:
  assumes "lzoreadblock lib fd blk w = ((r, blk'), w')" and "r \<noteq> -1"
  shows "length (rest_of w' fd) \<le> length (rest_of w fd)"
    and "bbuf blk' \<noteq> None \<Longrightarrow> length (rest_of w' fd) < length (rest_of w fd)"
proof -
  obtain r1 hb w1 where rd: "sys_read fd sizeof_lzoHead w = ((r1, hb), w1)"
    by (metis prod.collapse)
  note s1 = sys_read_rest(2) [OF rd]
  let ?ps = "hd_psize (head_of_bytes hb)"
  obtain r2 p w2 where rd2: "sys_read fd ?ps w1 = ((r2, p), w2)" by (metis prod.collapse)
  note s2 = sys_read_rest(2) [OF rd2]
  have "(r1 = 0 \<and> blk' = lzoclearblock \<and> w' = w1) \<or> (r1 = 16 \<and> w' = w2 \<and> r2 = int ?ps)"
    using assms rd rd2
    by (auto simp: lzoreadblock_def read_block_def Let_def split: if_splits option.splits)
  then have "length (rest_of w' fd) \<le> length (rest_of w fd) \<and>
      (bbuf blk' \<noteq> None \<longrightarrow> length (rest_of w' fd) < length (rest_of w fd))"
  proof (elim disjE conjE)
    assume "r1 = 0" "blk' = lzoclearblock" "w' = w1"
    then show ?thesis using s1 by (auto simp: lzoclearblock_def)
  next
    assume a: "r1 = 16" "w' = w2" "r2 = int ?ps"
    have "length (rest_of w1 fd) < length (rest_of w fd)" using s1 a(1) by auto
    moreover have "length (rest_of w2 fd) \<le> length (rest_of w1 fd)" using s2 a(3) by auto
    ultimately show ?thesis using a(2) by simp
  qed
  then show "length (rest_of w' fd) \<le> length (rest_of w fd)"
    "bbuf blk' \<noteq> None \<Longrightarrow> length (rest_of w' fd) < length (rest_of w fd)" by auto
qed

lemma lzoread_loop_progress:
  assumes "lzoread_loop fuel lib f n w = Some ((Some bs, f'), w')" and "reader_ok f"
  shows "length (rest_of w' (lfd f)) < length (rest_of w (lfd f)) \<or>
    length (rest_of w' (lfd f)) = length (rest_of w (lfd f)) \<and>
      length (pending f') + length bs \<le> length (pending f)"
  using assms
proof (induction fuel lib f n w arbitrary: bs f' w' rule: lzoread_loop.induct)
  case (1 lib f n w)
  then show ?case by simp
next
  case (2 fuel lib f n w)
  obtain f1 where f1: "copy_out f n = Some (take n (pending f), f1)" "reader_ok f1" "lfd f1 = lfd f"
    "block f1 = block f" "pending f1 = drop n (pending f)"
    using copy_out_spec [OF "2.prems"(2), of n] by auto
  let ?bs = "take n (pending f)"
  show ?case
  proof (cases "n = 0 \<or> length ?bs = n")
    case True
    then show ?thesis using "2.prems" f1 by (auto split: if_splits)
  next
    case False
    obtain r blk w1 where rb: "lzoreadblock lib (lfd f1) (block f1) w = ((r, blk), w1)"
      by (metis prod.collapse)
    let ?f2 = "f1\<lparr>blockoff := 0, block := blk\<rparr>"
    have ok2: "reader_ok ?f2" by (rule lzoreadblock_reader_ok [OF rb f1(2)])
    have r: "r \<noteq> -1" using "2.prems" False f1 rb by auto
    note pr = lzoreadblock_progress [OF rb r]
    show ?thesis
    proof (cases "bbuf blk")
      case None
      then have "bs = ?bs" "f' = ?f2" "w' = w1" using "2.prems" False f1 rb r by auto
      moreover have "pending ?f2 = []" using None by (simp add: pending_def)
      ultimately show ?thesis using pr(1) f1(3) by auto
    next
      case (Some out)
      obtain res3 w3 where l3: "lzoread_loop fuel lib ?f2 (n - length ?bs) w1 = Some ((Some res3, f'), w3)"
        and "w' = w3"
        using "2.prems" False f1 rb r Some by (auto simp: bind_eq_Some_conv)
      have "length (rest_of w3 (lfd ?f2)) < length (rest_of w1 (lfd ?f2)) \<or>
          length (rest_of w3 (lfd ?f2)) = length (rest_of w1 (lfd ?f2)) \<and>
          length (pending f') + length res3 \<le> length (pending ?f2)"
        using False r Some
        by (intro "2.IH" [OF _ f1(1) refl _ rb [symmetric] refl refl refl _ _ l3 ok2]) auto
      then have "length (rest_of w3 (lfd f)) \<le> length (rest_of w1 (lfd f))" using f1(3) by auto
      moreover have "length (rest_of w1 (lfd f)) < length (rest_of w (lfd f))" using pr(2) Some f1(3) by auto
      ultimately show ?thesis using \<open>w' = w3\<close> by simp
    qed
  qed
qed

lemma lzoread_progress:
  assumes "lzoread lib f n w = Some ((r, bs, f'), w')" and "reader_ok f" and "0 < r"
  shows "length (rest_of w' (lfd f)) < length (rest_of w (lfd f)) \<or>
    length (rest_of w' (lfd f)) = length (rest_of w (lfd f)) \<and>
      length (pending f') < length (pending f)"
proof -
  obtain res where l: "lzoread_loop (n + 2) lib f n w = Some ((res, f'), w')"
    and r: "(r, bs) = (case res of None \<Rightarrow> (-1, []) | Some bs \<Rightarrow> (int (length bs), bs))"
    using assms(1) by (auto simp: lzoread_def bind_eq_Some_conv split: option.splits simp del: lzoread_loop.simps)
  from r assms(3) obtain b where b: "res = Some b" "0 < length b" by (cases res) auto
  from lzoread_loop_progress [OF l [unfolded b(1)] assms(2)] b(2) show ?thesis by linarith
qed

text \<open>Without faults, a well-formed stream is read without an error.\<close>

lemma lzoreadblock_clean:
  assumes "lzoreadblock lib fd blk w = ((r, blk'), w')" and "clean w" and "can_read w fd"
    and "lzo_decode lib (usize blk) (rest_of w fd) \<noteq> None"
  shows "r \<noteq> -1" and "clean w'" and "can_read w' fd"
proof -
  obtain r1 hb w1 where rd: "sys_read fd sizeof_lzoHead w = ((r1, hb), w1)"
    by (metis prod.collapse)
  note c1 = sys_read_clean [OF rd assms(2,3)]
  let ?bs = "rest_of w fd"
  let ?us = "hd_usize (head_of_bytes hb)" and ?ps = "hd_psize (head_of_bytes hb)"
  obtain r2 p w2 where rd2: "sys_read fd ?ps w1 = ((r2, p), w2)" by (metis prod.collapse)
  note c2 = sys_read_clean [OF rd2 c1(3,5)]
  have "r \<noteq> -1 \<and> clean w' \<and> can_read w' fd"
  proof (cases "?bs = []")
    case True
    then have "r1 = 0" using c1(1,2) by simp
    then have "r = 0" "w' = w1" using assms(1) rd by (auto simp: lzoreadblock_def)
    then show ?thesis using c1(3,5) by simp
  next
    case False
    then have l16: "16 \<le> length ?bs"
      using assms(4) by (subst (asm) lzo_decode.simps) (auto split: if_splits)
    then have hb: "hb = take 16 ?bs" "r1 = 16" using c1(1,2) by simp_all
    have us: "le_val (take 8 ?bs) = ?us" and ps: "le_val (drop 8 (take 16 ?bs)) = ?ps"
      using hb by (simp_all add: head_of_bytes_def)
    have d: "?ps \<le> length (drop 16 ?bs) \<and> \<not> (?us = 0 \<and> usize blk \<noteq> 0) \<and>
        (\<exists>out. (if ?us = ?ps then Some (take ?ps (drop 16 ?bs))
               else lzo1x_decompress_safe lib (take ?ps (drop 16 ?bs)) ?us) = Some out \<and> length out = ?us)"
      using assms(4) False l16
      by (subst (asm) lzo_decode.simps)
        (simp add: Let_def us ps not_less split: if_splits option.splits)
    have p: "p = take ?ps (drop 16 ?bs)" "r2 = int ?ps"
      using c2(1,2) c1(4) d by simp_all
    have run: "lzoreadblock lib fd blk w = read_block lib fd (head_of_bytes hb) blk w1"
      using hb(2) rd by (simp add: lzoreadblock_def)
    show ?thesis
      using assms(1) run rd2 d p c1 c2
      by (auto simp: read_block_def Let_def split: if_splits option.splits)
  qed
  then show "r \<noteq> -1" "clean w'" "can_read w' fd" by blast+
qed

lemma lzoread_loop_clean:
  assumes "lzoread_loop fuel lib f n w = Some ((res, f'), w')" and "reader_ok f"
    and "clean w" and "can_read w (lfd f)" and "remaining lib f w \<noteq> None"
  shows "res \<noteq> None \<and> clean w' \<and> can_read w' (lfd f)"
  using assms
proof (induction fuel lib f n w arbitrary: res f' w' rule: lzoread_loop.induct)
  case (1 lib f n w)
  then show ?case by simp
next
  case (2 fuel lib f n w)
  obtain f1 where f1: "copy_out f n = Some (take n (pending f), f1)" "reader_ok f1" "lfd f1 = lfd f"
    "block f1 = block f" "pending f1 = drop n (pending f)"
    using copy_out_spec [OF "2.prems"(2), of n] by auto
  let ?bs = "take n (pending f)"
  show ?case
  proof (cases "n = 0 \<or> length ?bs = n")
    case True
    then show ?thesis using "2.prems" f1 by (auto split: if_splits)
  next
    case False
    obtain r blk w1 where rb: "lzoreadblock lib (lfd f1) (block f1) w = ((r, blk), w1)"
      by (metis prod.collapse)
    let ?f2 = "f1\<lparr>blockoff := 0, block := blk\<rparr>"
    have ok2: "reader_ok ?f2" by (rule lzoreadblock_reader_ok [OF rb f1(2)])
    have dec: "lzo_decode lib (usize (block f1)) (rest_of w (lfd f1)) \<noteq> None"
      using "2.prems"(5) f1 by (simp add: remaining_def)
    have nul: "usize (block f1) = 0 \<longleftrightarrow> bbuf (block f1) = None"
      using f1(2) by (auto simp: reader_ok_def split: option.splits)
    note cl = lzoreadblock_clean [OF rb "2.prems"(3) _ dec]
    have cr: "can_read w (lfd f1)" using "2.prems"(4) f1(3) by simp
    note r = cl(1) [OF cr] and c1 = cl(2) [OF cr] and cr1 = cl(3) [OF cr]
    show ?thesis
    proof (cases "bbuf blk")
      case None
      then show ?thesis using "2.prems" False f1 rb r c1 cr1 by auto
    next
      case (Some out)
      have "lzo_decode lib (usize (block f1)) (rest_of w (lfd f1)) =
          map_option ((@) out) (lzo_decode lib (usize blk) (rest_of w1 (lfd f1)))"
        using lzoreadblock_spec(2) [OF rb nul] r Some by auto
      then have rem2: "remaining lib ?f2 w1 \<noteq> None"
        using dec by (simp add: remaining_def)
      obtain res3 w3 where l3: "lzoread_loop fuel lib ?f2 (n - length ?bs) w1 = Some ((res3, f'), w3)"
        and ret: "res = map_option ((@) ?bs) res3" "w' = w3"
        using "2.prems" False f1 rb r Some by (auto simp: bind_eq_Some_conv)
      have "can_read w1 (lfd ?f2)" using cr1 by simp
      then have "res3 \<noteq> None \<and> clean w3 \<and> can_read w3 (lfd ?f2)"
        using False r Some rem2 c1
        by (intro "2.IH" [OF _ f1(1) refl _ rb [symmetric] refl refl refl _ _ l3 ok2]) auto
      then show ?thesis using ret f1(3) by simp
    qed
  qed
qed

lemma lzoread_clean:
  assumes "lzoread lib f n w = Some ((r, bs, f'), w')" and "reader_ok f"
    and "clean w" and "can_read w (lfd f)" and "remaining lib f w \<noteq> None"
  shows "r \<noteq> -1 \<and> clean w' \<and> can_read w' (lfd f)"
proof -
  obtain res where l: "lzoread_loop (n + 2) lib f n w = Some ((res, f'), w')"
    and r: "(r, bs) = (case res of None \<Rightarrow> (-1, []) | Some bs \<Rightarrow> (int (length bs), bs))"
    using assms(1) by (auto simp: lzoread_def bind_eq_Some_conv split: option.splits simp del: lzoread_loop.simps)
  from lzoread_loop_clean [OF l assms(2-)] r show ?thesis by auto
qed

section \<open>The decoder undoes the encoder\<close>

lemma length_block_bytes: "lzo_lib_ok lib \<Longrightarrow> 16 \<le> length (block_bytes lib xs)"
proof -
  assume "lzo_lib_ok lib"
  then obtain c where "lzo1x_1_compress lib xs = Some c" unfolding lzo_lib_ok_def by blast
  then show ?thesis by (simp add: block_bytes_def)
qed

lemma lzo_decode_step:
  assumes "us < 2 ^ 64" and "length p < 2 ^ 64"
  shows "lzo_decode lib prev (head_bytes us (length p) @ p @ ys) =
    (if us = 0 \<and> prev \<noteq> 0 then None
     else
       (case (if us = length p then Some p else lzo1x_decompress_safe lib p us) of
          None \<Rightarrow> None
        | Some out \<Rightarrow>
            if length out \<noteq> us then None
            else if us = 0 then Some []
            else map_option ((@) out) (lzo_decode lib us ys)))"
proof -
  have v: "le_val (le_bytes 8 us) = us" "le_val (le_bytes 8 (length p)) = length p"
    using assms by (simp_all add: le_val_bytes)
  define bs where "bs = head_bytes us (length p) @ p @ ys"
  have f: "le_val (take 8 bs) = us" "le_val (drop 8 (take 16 bs)) = length p" "drop 16 bs = p @ ys"
    using v by (simp_all add: bs_def head_bytes_def)
  have "16 \<le> length bs"
    by (simp add: bs_def)
  then have l: "bs \<noteq> []" "\<not> length bs < 16"
    by auto
  have q: "take (length p) (p @ ys) = p" "drop (length p) (p @ ys) = ys" "\<not> length (p @ ys) < length p"
    by simp_all
  show ?thesis
    unfolding bs_def [symmetric]
    by (subst lzo_decode.simps) (simp only: Let_def f l q if_False)
qed

lemma lzo_decode_block:
  assumes "lzo_lib_ok lib" and "length xs < 2 ^ 64" and "xs \<noteq> [] \<or> prev = 0"
  shows "lzo_decode lib prev (block_bytes lib xs @ ys) =
    (if xs = [] then Some [] else map_option ((@) xs) (lzo_decode lib (length xs) ys))"
proof -
  obtain c where c: "lzo1x_1_compress lib xs = Some c" "lzo1x_decompress_safe lib c (length xs) = Some xs"
    using assms(1) unfolding lzo_lib_ok_def by blast
  show ?thesis
  proof (cases "length xs \<le> length c")
    case True
    then have "block_bytes lib xs = head_bytes (length xs) (length xs) @ xs"
      using c by (simp add: block_bytes_def)
    then show ?thesis
      using lzo_decode_step [of "length xs" xs lib prev ys] assms by simp
  next
    case False
    then have "block_bytes lib xs = head_bytes (length xs) (length c) @ c" "xs \<noteq> []"
      using c by (auto simp: block_bytes_def)
    then show ?thesis
      using lzo_decode_step [of "length xs" c lib prev ys] assms c False by simp
  qed
qed

text \<open>
  The blocks the writer leaves: full ones, then the one \<open>lzoclose\<close> writes, which is empty
  only if it is the only one.
\<close>

lemma lzo_decode_stream:
  assumes "lzo_lib_ok lib" and "\<forall>c \<in> set chunks. length c < 2 ^ 64 \<and> c \<noteq> []"
    and "length lst < 2 ^ 64" and "lst = [] \<longrightarrow> chunks = [] \<and> prev = 0"
  shows "lzo_decode lib prev (stream lib (chunks @ [lst])) = Some (concat chunks @ lst)"
  using assms(2-)
proof (induction chunks arbitrary: prev)
  case Nil
  have e: "lzo_decode lib (length lst) [] = Some []" by (simp add: lzo_decode.simps)
  have "lzo_decode lib prev (block_bytes lib lst @ []) =
      (if lst = [] then Some [] else map_option ((@) lst) (lzo_decode lib (length lst) []))"
    using Nil by (intro lzo_decode_block [OF assms(1)]) auto
  then show ?case by (simp add: stream_def e split: if_splits)
next
  case (Cons c cs)
  have "lzo_decode lib (length c) (stream lib (cs @ [lst])) = Some (concat cs @ lst)"
    by (rule Cons.IH) (use Cons.prems in auto)
  moreover have "lzo_decode lib prev (block_bytes lib c @ stream lib (cs @ [lst])) =
      (if c = [] then Some [] else map_option ((@) c) (lzo_decode lib (length c) (stream lib (cs @ [lst]))))"
    using Cons.prems(1) by (intro lzo_decode_block [OF assms(1)]) auto
  moreover have "stream lib ((c # cs) @ [lst]) = block_bytes lib c @ stream lib (cs @ [lst])"
    by (simp add: stream_def)
  ultimately show ?case using Cons.prems(1) by simp
qed

text \<open>So what any sequence of writes and a close appended decodes to what was written.\<close>

lemma lzo_written_decodes:
  assumes "clean w" and "at_end w fd" and "lzo_lib_ok lib" and "CHR ''r'' \<notin> set mode"
  shows "\<exists>f' w' stored. lzowrite_all lib (lzodopen fd mode) bufs w = Some (f', w') \<and>
    lzoclose lib f' w' = Some (sys_close fd (emit lib fd stored w)) \<and>
    lzo_decode lib 0 (stream lib stored) = Some (concat bufs)"
proof -
  note op = lzodopen_writer_ok [OF assms(4), of fd]
  obtain f' chunks where 1: "lzowrite_all lib (lzodopen fd mode) bufs w = Some (f', emit lib fd chunks w)"
    "writer_ok f'" "lfd f' = fd" "concat chunks @ waiting f' = concat bufs"
    "\<forall>c \<in> set chunks. length c = WRITE_BUFFER_SIZE" "concat bufs \<noteq> [] \<longrightarrow> waiting f' \<noteq> []"
    using lzowrite_all_clean [OF assms(1), of "lzodopen fd mode" lib bufs] op assms(2,3) by auto
  have cl: "lzoclose lib f' (emit lib fd chunks w) = Some (sys_close fd (emit lib fd (chunks @ [waiting f']) w))"
    using lzoclose_clean [of "emit lib fd chunks w" f' lib] 1 assms by (simp add: emit_append)
  have full: "\<forall>c \<in> set chunks. length c < 2 ^ 64 \<and> c \<noteq> []" using 1(5) by auto
  have "length (waiting f') < 2 ^ 64"
    using length_waiting [OF 1(2)] 1(2) by (simp add: writer_ok_def)
  moreover have "waiting f' = [] \<longrightarrow> chunks = []"
  proof (cases chunks)
    case (Cons a list)
    then have "concat bufs \<noteq> []" using 1(4) full by (metis append_is_Nil_conv concat.simps(2) list.set_intros(1))
    then show ?thesis using 1(6) by blast
  qed simp
  ultimately have "lzo_decode lib 0 (stream lib (chunks @ [waiting f'])) = Some (concat bufs)"
    using lzo_decode_stream [OF assms(3) full, of "waiting f'" 0] 1(4) by simp
  then show ?thesis using 1(1) cl by blast
qed

end
