(* ===== verification/Copying.thy ===== *)
theory Copying
  imports LzoStream
begin

text \<open>
  Copying between two descriptors, the loop every decompression routine runs: read a piece
  from a source stream, write it to the destination, until the source has no more.

  \<open>io_only\<close> says what such a loop may change. The locale \<open>source_stream\<close> is the contract
  of what is read from, a plain descriptor or one of the libraries' streams; the
  behaviour of the loop is proved once from it, for every fault script.
\<close>

section \<open>Only one file's data changes\<close>

definition io_only :: "nat set \<Rightarrow> world \<Rightarrow> world \<Rightarrow> bool" where
  "io_only D w w' \<longleftrightarrow>
     names w' = names w \<and> fdtab w' = fdtab w \<and> next_ino w' = next_ino w \<and>
     next_ofile w' = next_ofile w \<and> next_fd w \<le> next_fd w' \<and>
     decomp_cache_size w' = decomp_cache_size w \<and> now w' = now w \<and>
     (\<forall>k. map_option (\<lambda>d. d\<lparr>o_pos := 0\<rparr>) (ofiles w' k) = map_option (\<lambda>d. d\<lparr>o_pos := 0\<rparr>) (ofiles w k)) \<and>
     (\<forall>n. n \<notin> D \<longrightarrow> inodes w' n = inodes w n) \<and>
     (\<forall>n. map_option (\<lambda>i. i\<lparr>idata := [], imtim := (0, 0)\<rparr>) (inodes w' n) =
          map_option (\<lambda>i. i\<lparr>idata := [], imtim := (0, 0)\<rparr>) (inodes w n))"

lemma io_only_refl [simp]: "io_only D w w"
  by (simp add: io_only_def)

lemma io_only_trans [trans]: "io_only D w1 w2 \<Longrightarrow> io_only D w2 w3 \<Longrightarrow> io_only D w1 w3"
  by (auto simp: io_only_def)

lemma io_only_mono: "io_only D w w' \<Longrightarrow> D \<subseteq> E \<Longrightarrow> io_only E w w'"
  by (auto simp: io_only_def)

lemma io_only_agree: "agree w' w \<Longrightarrow> io_only D w w'"
  by (simp add: agree_iff io_only_def)

lemma io_onlyD:
  assumes "io_only D w w'"
  shows "names w' = names w" "fdtab w' = fdtab w" "next_ino w' = next_ino w"
    "next_ofile w' = next_ofile w" "next_fd w \<le> next_fd w'" "now w' = now w"
    "decomp_cache_size w' = decomp_cache_size w"
    "n \<notin> D \<Longrightarrow> inodes w' n = inodes w n"
  using assms by (auto simp: io_only_def)

lemma io_only_repositioned: "repositioned fd w w' \<Longrightarrow> io_only D w w'"
proof -
  assume r: "repositioned fd w w'"
  have "map_option (\<lambda>d. d\<lparr>o_pos := 0\<rparr>) (ofiles w' k) = map_option (\<lambda>d. d\<lparr>o_pos := 0\<rparr>) (ofiles w k)" for k
    using r by (cases "ofiles w k") (auto simp: repositioned_def dest!: spec [of _ k])
  then show ?thesis
    using repositioned_same [OF r] by (simp add: io_only_def)
qed

lemma io_only_ofile:
  assumes "io_only D w w'" and "ofiles w k = Some d"
  shows "\<exists>p. ofiles w' k = Some (d\<lparr>o_pos := p\<rparr>)"
proof -
  have "map_option (\<lambda>d. d\<lparr>o_pos := 0\<rparr>) (ofiles w' k) = Some (d\<lparr>o_pos := 0\<rparr>)"
    using assms by (simp add: io_only_def)
  then obtain d' where "ofiles w' k = Some d'" "d'\<lparr>o_pos := 0\<rparr> = d\<lparr>o_pos := 0\<rparr>" by auto
  then have "d' = d\<lparr>o_pos := o_pos d'\<rparr>" by (cases d; cases d') auto
  with \<open>ofiles w' k = Some d'\<close> show ?thesis by metis
qed

lemma io_only_inode:
  assumes "io_only D w w'" and "inodes w n = Some i"
  shows "\<exists>x t. inodes w' n = Some (i\<lparr>idata := x, imtim := t\<rparr>)"
proof -
  have "map_option (\<lambda>i. i\<lparr>idata := [], imtim := (0, 0)\<rparr>) (inodes w' n) = Some (i\<lparr>idata := [], imtim := (0, 0)\<rparr>)"
    using assms by (simp add: io_only_def)
  then obtain j where j: "inodes w' n = Some j" "j\<lparr>idata := [], imtim := (0, 0)\<rparr> = i\<lparr>idata := [], imtim := (0, 0)\<rparr>"
    by auto
  then have "j = i\<lparr>idata := idata j, imtim := imtim j\<rparr>" by (cases i; cases j) auto
  with j(1) show ?thesis by metis
qed

lemma io_only_None:
  assumes "io_only D w w'"
  shows "inodes w' n = None \<longleftrightarrow> inodes w n = None" and "ofiles w' k = None \<longleftrightarrow> ofiles w k = None"
  using assms unfolding io_only_def by (metis option.map_disc_iff)+

lemma io_only_world_ok: "io_only D w w' \<Longrightarrow> world_ok w \<Longrightarrow> world_ok w'"
proof -
  assume io: "io_only D w w'" and w: "world_ok w"
  note N = io_only_None [OF io]
  have o: "\<exists>d0. ofiles w k = Some d0 \<and> o_ino d = o_ino d0" if od: "ofiles w' k = Some d" for k d
  proof -
    obtain d0 where d0: "ofiles w k = Some d0" using od N(2) [of k] by (cases "ofiles w k") auto
    from io_only_ofile [OF io this] od d0 show ?thesis by auto
  qed
  show "world_ok w'"
    unfolding world_ok_def
  proof (intro conjI allI impI)
    fix p n assume "names w' p = Some n"
    then show "inodes w' n \<noteq> None" using w N io_onlyD [OF io] by (simp add: world_ok_def)
  next
    fix n assume "inodes w' n \<noteq> None"
    then show "n < next_ino w'" using w N io_onlyD [OF io] by (simp add: world_ok_def)
  next
    fix fd k assume a: "fdtab w' fd = Some k"
    then have b: "fdtab w fd = Some k" using io_onlyD [OF io] by simp
    from world_ok_fd [OF w b] show "0 \<le> fd" by simp
    from world_ok_fd [OF w b] show "fd < int (next_fd w')" using io_onlyD(5) [OF io] by simp
    from world_ok_fd [OF w b] show "ofiles w' k \<noteq> None" using N by auto
  next
    fix k d assume "ofiles w' k = Some d"
    then obtain d0 where d0: "ofiles w k = Some d0" "o_ino d = o_ino d0" using o by blast
    from world_ok_ofile [OF w d0(1)] d0(2) N io_onlyD [OF io]
    show "k < next_ofile w'" "inodes w' (o_ino d) \<noteq> None" by auto
  qed
qed

text \<open>A file outside \<open>D\<close> keeps its contents under every name.\<close>

lemma io_only_contents:
  assumes "io_only D w w'" and "\<And>n. names w p = Some n \<Longrightarrow> n \<notin> D"
  shows "contents w' p = contents w p" and "file_of w' p = file_of w p"
  using assms io_onlyD(1) [OF assms(1)] io_onlyD(8) [OF assms(1)]
  by (cases "names w p"; simp add: contents_def file_of_def)+

section \<open>Two descriptors of different files\<close>

definition ino_of :: "world \<Rightarrow> int \<Rightarrow> nat option" where
  "ino_of w fd = map_option o_ino (fd_ofile w fd)"

definition separate :: "world \<Rightarrow> int \<Rightarrow> int \<Rightarrow> bool" where
  "separate w src dst \<longleftrightarrow>
     ino_of w src \<noteq> None \<and> ino_of w dst \<noteq> None \<and> ino_of w src \<noteq> ino_of w dst"

lemma io_only_ino_of: "io_only D w w' \<Longrightarrow> ino_of w' fd = ino_of w fd"
proof -
  assume io: "io_only D w w'"
  show ?thesis
  proof (cases "fdtab w fd")
    case None
    then show ?thesis using io_onlyD(2) [OF io] by (simp add: ino_of_def fd_ofile_def)
  next
    case (Some k)
    show ?thesis
    proof (cases "ofiles w k")
      case None
      then show ?thesis using Some io_onlyD(2) [OF io] io_only_None(2) [OF io, of k]
        by (simp add: ino_of_def fd_ofile_def)
    next
      case d: (Some d)
      from io_only_ofile [OF io this] obtain p where "ofiles w' k = Some (d\<lparr>o_pos := p\<rparr>)" by blast
      then show ?thesis using d Some io_onlyD(2) [OF io] by (simp add: ino_of_def fd_ofile_def)
    qed
  qed
qed

lemma io_only_separate: "io_only D w w' \<Longrightarrow> separate w' src dst = separate w src dst"
  by (simp add: separate_def io_only_ino_of)

lemma at_end_ino: "at_end w fd \<Longrightarrow> \<exists>n i. ino_of w fd = Some n \<and> inodes w n = Some i"
  by (auto simp: at_end_def ino_of_def split: option.splits)

lemma separate_fdtab: "separate w src dst \<Longrightarrow> fdtab w src = Some k \<Longrightarrow> fdtab w dst \<noteq> Some k"
  by (auto simp: separate_def ino_of_def fd_ofile_def)

lemma contents_fd: "names w p = ino_of w fd \<Longrightarrow> at_end w fd \<Longrightarrow> contents w p = Some (data_of w fd)"
  by (auto simp: contents_def file_of_def ino_of_def at_end_def data_of_def fd_inode_def split: option.splits)

text \<open>Reading from the one does not move the other.\<close>

lemma repositioned_at_end:
  assumes "repositioned src w w'" and "separate w src dst" and "at_end w dst"
  shows "at_end w' dst" and "data_of w' dst = data_of w dst"
proof -
  have "fd_ofile w' dst = fd_ofile w dst"
  proof (cases "fdtab w dst")
    case None
    then show ?thesis using repositioned_same [OF assms(1)] by (simp add: fd_ofile_def)
  next
    case (Some k)
    then have "fdtab w src \<noteq> Some k" using separate_fdtab [OF assms(2)] by blast
    then have "ofiles w' k = ofiles w k" by (rule repositioned_other [OF assms(1)])
    then show ?thesis using Some repositioned_same [OF assms(1)] by (simp add: fd_ofile_def)
  qed
  then show "at_end w' dst" "data_of w' dst = data_of w dst"
    using assms(3) repositioned_same [OF assms(1)]
    by (simp_all add: at_end_def data_of_def fd_inode_def cong: option.case_cong)
qed

text \<open>One write, whatever the environment does: some prefix is appended.\<close>

lemma sys_write_at_end:
  assumes "sys_write dst bs w = (r, w')" and "at_end w dst" and "separate w src dst"
    and "ino_of w dst = Some n"
  shows "io_only {n} w w'" and "at_end w' dst" and "rest_of w' src = rest_of w src"
    and "r = FAIL \<and> data_of w' dst = data_of w dst \<or>
      (\<exists>pre. prefix pre bs \<and> r = int (length pre) \<and> data_of w' dst = data_of w dst @ pre)"
proof -
  have "io_only {n} w w' \<and> at_end w' dst \<and> rest_of w' src = rest_of w src \<and>
    (r = FAIL \<and> data_of w' dst = data_of w dst \<or>
      (\<exists>pre. prefix pre bs \<and> r = int (length pre) \<and> data_of w' dst = data_of w dst @ pre))"
  proof (cases "r = FAIL \<and> agree w' w")
    case True
    then have a: "agree w' w" by simp
    have "at_end w' dst" "rest_of w' src = rest_of w src" "data_of w' dst = data_of w dst"
      using assms(2) agreeD [OF a]
      by (simp_all add: at_end_def fd_ofile_def rest_of_def fd_inode_def data_of_def cong: option.case_cong)
    then show ?thesis using True io_only_agree [OF a] by simp
  next
    case False
    then obtain k d i pre where k: "fdtab w dst = Some k" "ofiles w k = Some d" "inodes w (o_ino d) = Some i"
      "prefix pre bs" "r = int (length pre)"
      and w': "agree w' (set_ofile k (d\<lparr>o_pos := o_pos d + length pre\<rparr>)
        (set_inode (o_ino d) (i\<lparr>idata := splice_at (o_pos d) pre (idata i), imtim := now w\<rparr>) w))"
      using sys_write_spec [OF assms(1)] by blast
    have pos: "o_pos d = length (idata i)" and n: "o_ino d = n" and wr: "writable d"
      using assms(2,4) k by (auto simp: at_end_def ino_of_def fd_ofile_def)
    have "writable (d\<lparr>o_pos := p\<rparr>) = writable d" for p by (simp add: writable_def)
    note f = agreeD [OF w']
    have io: "io_only {n} w w'"
      using f k n by (auto simp: io_only_def set_ofile_def set_inode_def)
    moreover have "at_end w' dst"
      using f k n pos wr by (simp add: at_end_def fd_ofile_def set_ofile_def set_inode_def writable_def)
    moreover have "data_of w' dst = data_of w dst @ pre"
      using f k n pos by (simp add: data_of_def fd_inode_def fd_ofile_def set_ofile_def set_inode_def)
    moreover have "rest_of w' src = rest_of w src"
    proof (cases "fd_ofile w src")
      case None
      then have "fd_ofile w' src = None"
        using f k by (auto simp: fd_ofile_def set_ofile_def set_inode_def bind_eq_None_conv split: if_splits)
      then show ?thesis using None by (simp add: rest_of_def)
    next
      case (Some e)
      then have "o_ino e \<noteq> n" using assms(3,4) by (auto simp: separate_def ino_of_def)
      moreover have "fd_ofile w' src = Some e"
        using Some f k n calculation by (auto simp: fd_ofile_def set_ofile_def set_inode_def bind_eq_Some_conv)
      ultimately show ?thesis
        using Some f n by (simp add: rest_of_def fd_inode_def set_ofile_def set_inode_def)
    qed
    ultimately show ?thesis using k by blast
  qed
  then show "io_only {n} w w'" "at_end w' dst" "rest_of w' src = rest_of w src"
    "r = FAIL \<and> data_of w' dst = data_of w dst \<or>
      (\<exists>pre. prefix pre bs \<and> r = int (length pre) \<and> data_of w' dst = data_of w dst @ pre)"
    by blast+
qed

lemma io_only_can_read: "io_only D w w' \<Longrightarrow> can_read w x \<Longrightarrow> can_read w' x"
proof -
  assume io: "io_only D w w'" and "can_read w x"
  then obtain k d i where k: "fdtab w x = Some k" "ofiles w k = Some d" "inodes w (o_ino d) = Some i" "readable d"
    by (auto simp: can_read_def)
  from io_only_ofile [OF io k(2)] obtain p where "ofiles w' k = Some (d\<lparr>o_pos := p\<rparr>)" by blast
  moreover from io_only_inode [OF io k(3)] obtain x t where "inodes w' (o_ino d) = Some (i\<lparr>idata := x, imtim := t\<rparr>)"
    by blast
  ultimately show ?thesis using k io_onlyD [OF io] by (simp add: can_read_def readable_def)
qed

section \<open>The copying loop\<close>

text \<open>
  \<open>while ((rd = read(source, buf, BUF_SIZE)) > 0)\<close>, the loop of \<open>nullDecompress\<close>,
  \<open>gzDecompress\<close>, \<open>bz2Decompress\<close> and \<open>lzoDecompress\<close>: each piece is written, and the bytes
  the write accepted are counted. Result -1: a write failed, or the last read did. The
  loop need not end (a source that grows as it is read), so it is a partial function.
\<close>

partial_function (option) copy_loop ::
  "('s \<Rightarrow> world \<Rightarrow> ((int \<times> byte list \<times> 's) \<times> world) option) \<Rightarrow> 's \<Rightarrow> int \<Rightarrow> off \<Rightarrow> world \<Rightarrow>
   ((off \<times> 's) \<times> world) option" where
  [code]: "copy_loop rd s dst sz w = do {
     ((r, bs, s'), w1) \<leftarrow> rd s w;
     if r > 0 then
       (let (wr, w2) = sys_write dst bs w1
        in if wr = -1 then Some ((-1, s'), w2)
           else copy_loop rd s' dst (sz + wr) w2)
     else if r = -1 then Some ((-1, s'), w1)
     else Some ((sz, s'), w1)
   }"

text \<open>
  A source of bytes behind a descriptor \<open>sfd\<close>: \<open>left\<close> is what it will still deliver, as a
  function of what is left in the file (\<open>None\<close> if that is not a well-formed stream), and
  \<open>buffered\<close> bounds what it can deliver without reading the file.
\<close>

locale source_stream =
  fixes rd :: "'s \<Rightarrow> world \<Rightarrow> ((int \<times> byte list \<times> 's) \<times> world) option"
    and ok :: "'s \<Rightarrow> bool"
    and sfd :: "'s \<Rightarrow> int"
    and left :: "'s \<Rightarrow> byte list \<Rightarrow> byte list option"
    and buffered :: "'s \<Rightarrow> nat"
  assumes rd_total: "ok s \<Longrightarrow> \<exists>res. rd s w = Some res"
    and rd_frame: "ok s \<Longrightarrow> rd s w = Some ((r, bs, s'), w') \<Longrightarrow>
      ok s' \<and> sfd s' = sfd s \<and> repositioned (sfd s) w w'"
    and rd_bytes: "ok s \<Longrightarrow> rd s w = Some ((r, bs, s'), w') \<Longrightarrow>
      r = -1 \<or> r = int (length bs)"
    and rd_end: "ok s \<Longrightarrow> rd s w = Some ((0, bs, s'), w') \<Longrightarrow> left s (rest_of w (sfd s)) = Some []"
    and rd_more: "ok s \<Longrightarrow> rd s w = Some ((r, bs, s'), w') \<Longrightarrow> 0 < r \<Longrightarrow>
      left s (rest_of w (sfd s)) = map_option ((@) bs) (left s' (rest_of w' (sfd s)))"
    and rd_progress: "ok s \<Longrightarrow> rd s w = Some ((r, bs, s'), w') \<Longrightarrow> 0 < r \<Longrightarrow>
      length (rest_of w' (sfd s)) < length (rest_of w (sfd s)) \<or>
      length (rest_of w' (sfd s)) = length (rest_of w (sfd s)) \<and> buffered s' < buffered s"
    and rd_clean: "ok s \<Longrightarrow> rd s w = Some ((r, bs, s'), w') \<Longrightarrow> clean w \<Longrightarrow> can_read w (sfd s) \<Longrightarrow>
      left s (rest_of w (sfd s)) \<noteq> None \<Longrightarrow> r \<noteq> -1 \<and> clean w' \<and> can_read w' (sfd s)"
begin

text \<open>
  The loop ends, whatever faults there are. Unless it reports an error, what it counts is at
  most the length of what the source had, and if it is all of it, then all of it was
  appended to the destination.
\<close>

lemma copy_loop_spec:
  assumes "ok s" and "at_end w dst" and "separate w (sfd s) dst" and "ino_of w dst = Some n"
  shows "\<exists>r s' w'. copy_loop rd s dst sz w = Some ((r, s'), w') \<and>
    ok s' \<and> sfd s' = sfd s \<and> io_only {n} w w' \<and> at_end w' dst \<and>
    (r = -1 \<or>
     (\<exists>out. left s (rest_of w (sfd s)) = Some out \<and> sz \<le> r \<and> r - sz \<le> int (length out) \<and>
        (r - sz = int (length out) \<longrightarrow> data_of w' dst = data_of w dst @ out)))"
  using assms
proof (induction "(length (rest_of w (sfd s)), buffered s)" arbitrary: s w sz
    rule: wf_induct_rule [OF wf_lex_prod [OF wf_less_than wf_less_than]])
  case (1 s w sz)
  obtain r bs s1 w1 where rd1: "rd s w = Some ((r, bs, s1), w1)"
    using rd_total [OF 1(2), of w] by (metis prod.collapse)
  note fr = rd_frame [OF 1(2) rd1]
  note by1 = rd_bytes [OF 1(2) rd1]
  have rep: "repositioned (sfd s) w w1" using fr by simp
  note ae = repositioned_at_end [OF rep 1(4) 1(3)]
  have io1: "io_only {n} w w1" by (rule io_only_repositioned [OF rep])
  show ?case
  proof (cases "r > 0")
    case False
    show ?thesis
    proof (cases "r = -1")
      case True
      then show ?thesis
        using rd1 fr io1 ae by (subst copy_loop.simps) simp
    next
      case no: False
      then have r0: "r = 0" using False by1 by auto
      have "left s (rest_of w (sfd s)) = Some []" by (rule rd_end [OF 1(2)]) (use rd1 r0 in simp)
      then show ?thesis
        using rd1 fr io1 ae r0 by (subst copy_loop.simps) simp
    qed
  next
    case True
    obtain wr w2 where wr: "sys_write dst bs w1 = (wr, w2)" by (cases "sys_write dst bs w1") auto
    have sep1: "separate w1 (sfd s) dst" using io_only_separate [OF io1] 1(4) by simp
    have n1: "ino_of w1 dst = Some n" using io_only_ino_of [OF io1] 1(5) by simp
    note sw = sys_write_at_end [OF wr ae(1) sep1 n1]
    have io2: "io_only {n} w w2" by (rule io_only_trans [OF io1 sw(1)])
    show ?thesis
    proof (cases "wr = -1")
      case True
      then show ?thesis
        using rd1 wr fr io2 sw(2) \<open>r > 0\<close> by (subst copy_loop.simps) simp
    next
      case False
      then obtain pre where pre: "prefix pre bs" "wr = int (length pre)"
        "data_of w2 dst = data_of w1 dst @ pre" using sw(4) by auto
      have dec: "((length (rest_of w2 (sfd s1)), buffered s1), (length (rest_of w (sfd s)), buffered s))
          \<in> less_than <*lex*> less_than"
        using rd_progress [OF 1(2) rd1 True] sw(3) fr by auto
      obtain r' s' w' where l: "copy_loop rd s1 dst (sz + wr) w2 = Some ((r', s'), w')"
        "ok s'" "sfd s' = sfd s1" "io_only {n} w2 w'" "at_end w' dst"
        and res: "r' = -1 \<or> (\<exists>out. left s1 (rest_of w2 (sfd s1)) = Some out \<and> sz + wr \<le> r' \<and>
          r' - (sz + wr) \<le> int (length out) \<and>
          (r' - (sz + wr) = int (length out) \<longrightarrow> data_of w' dst = data_of w2 dst @ out))"
        using 1(1) [OF dec, of "sz + wr"] fr sw(2)
          io_only_separate [OF io2] io_only_ino_of [OF io2] 1(4,5) by auto
      have run: "copy_loop rd s dst sz w = Some ((r', s'), w')"
        using rd1 wr False True l(1) by (subst copy_loop.simps) simp
      have left: "left s (rest_of w (sfd s)) = map_option ((@) bs) (left s1 (rest_of w2 (sfd s1)))"
        using rd_more [OF 1(2) rd1 True] sw(3) fr by simp
      have len: "length pre \<le> length bs" using pre(1) by (rule prefix_length_le)
      have "r' = -1 \<or> (\<exists>out. left s (rest_of w (sfd s)) = Some out \<and> sz \<le> r' \<and>
          r' - sz \<le> int (length out) \<and>
          (r' - sz = int (length out) \<longrightarrow> data_of w' dst = data_of w dst @ out))"
        using res
      proof (elim disjE exE conjE)
        fix out assume o: "left s1 (rest_of w2 (sfd s1)) = Some out" "sz + wr \<le> r'"
          "r' - (sz + wr) \<le> int (length out)"
          "r' - (sz + wr) = int (length out) \<longrightarrow> data_of w' dst = data_of w2 dst @ out"
        have "data_of w' dst = data_of w dst @ bs @ out" if "r' - sz = int (length (bs @ out))"
        proof -
          from that have "length pre = length bs" using o(3) pre(2) len by auto
          then have "pre = bs" using pre(1) by (metis not_equal_is_parallel parallelD1)
          then show ?thesis using o(4) that pre(2,3) ae(2) by simp
        qed
        then show ?thesis using o left pre(2) len by auto
      qed simp
      then show ?thesis
        using run l fr io_only_trans [OF io2 l(4)] by auto
    qed
  qed
qed

text \<open>Without faults, a well-formed source is copied to its end.\<close>

lemma copy_loop_clean:
  assumes "ok s" and "at_end w dst" and "separate w (sfd s) dst" and "clean w" and "can_read w (sfd s)"
    and "left s (rest_of w (sfd s)) = Some out"
  shows "\<exists>s' w'. copy_loop rd s dst sz w = Some ((sz + int (length out), s'), w') \<and> clean w'"
  using assms
proof (induction "(length (rest_of w (sfd s)), buffered s)" arbitrary: s w sz out
    rule: wf_induct_rule [OF wf_lex_prod [OF wf_less_than wf_less_than]])
  case (1 s w sz out)
  obtain r bs s1 w1 where rd1: "rd s w = Some ((r, bs, s1), w1)"
    using rd_total [OF 1(2), of w] by (metis prod.collapse)
  note fr = rd_frame [OF 1(2) rd1]
  have rep: "repositioned (sfd s) w w1" using fr by simp
  have cl: "r \<noteq> -1 \<and> clean w1 \<and> can_read w1 (sfd s)"
    by (rule rd_clean [OF 1(2) rd1 1(5,6)]) (use 1(7) in simp)
  have by1: "r = int (length bs)" using rd_bytes [OF 1(2) rd1] cl by simp
  note ae = repositioned_at_end [OF rep 1(4) 1(3)]
  have io1: "io_only {} w w1" by (rule io_only_repositioned [OF rep])
  show ?case
  proof (cases "r > 0")
    case False
    then have "r = 0" using by1 by simp
    moreover from this have "out = []" using rd_end [OF 1(2), of w bs s1 w1] rd1 1(7) by simp
    ultimately show ?thesis using rd1 cl by (subst copy_loop.simps) simp
  next
    case True
    let ?w2 = "append_fd dst bs w1"
    have wr: "sys_write dst bs w1 = (int (length bs), ?w2)"
      by (rule sys_write_appends) (use cl ae in auto)
    have sep1: "separate w1 (sfd s) dst" using io_only_separate [OF io1] 1(4) by simp
    obtain n where n: "ino_of w1 dst = Some n" using at_end_ino [OF ae(1)] by blast
    note sw = sys_write_at_end [OF wr ae(1) sep1 n]
    obtain out1 where o1: "left s1 (rest_of ?w2 (sfd s)) = Some out1" "out = bs @ out1"
      using rd_more [OF 1(2) rd1 True] sw(3) 1(7)
      by (cases "left s1 (rest_of w1 (sfd s))") auto
    have "((length (rest_of ?w2 (sfd s1)), buffered s1), (length (rest_of w (sfd s)), buffered s))
        \<in> less_than <*lex*> less_than"
      using rd_progress [OF 1(2) rd1 True] sw(3) fr by auto
    from 1(1) [OF this] obtain s' w' where
      "copy_loop rd s1 dst (sz + int (length bs)) ?w2 = Some ((sz + int (length bs) + int (length out1), s'), w')"
      "clean w'"
      using fr cl sw(2) io_only_separate [OF sw(1)] sep1 io_only_can_read [OF sw(1)] o1(1) by fastforce
    then show ?thesis
      using rd1 wr True o1(2) by (subst copy_loop.simps) (simp add: add.assoc)
  qed
qed

end

section \<open>The two sources of the repository\<close>

text \<open>A plain descriptor.\<close>

definition fd_read :: "int \<Rightarrow> world \<Rightarrow> ((int \<times> byte list \<times> int) \<times> world) option" where
  "fd_read fd w = (let ((r, bs), w') = sys_read fd 4096 w in Some ((r, bs, fd), w'))"

interpretation plain: source_stream fd_read "\<lambda>_. True" "\<lambda>fd. fd" "\<lambda>_. Some" "\<lambda>_. 0"
proof
  fix fd :: int and w :: world
  show "\<exists>res. fd_read fd w = Some res" by (simp add: fd_read_def split: prod.split)
next
  fix fd s' :: int and w w' :: world and r bs
  assume "fd_read fd w = Some ((r, bs, s'), w')"
  then have rd: "sys_read fd 4096 w = ((r, bs), w')" and s': "s' = fd"
    by (auto simp: fd_read_def split: prod.splits)
  note sp = sys_read_rest [OF rd]
  show "True \<and> s' = fd \<and> repositioned fd w w'" using s' sp(1) by simp
  show "r = -1 \<or> r = int (length bs)" using sp(2) by auto
  show "Some (rest_of w fd) = map_option ((@) bs) (Some (rest_of w' fd))" if "0 < r"
    using sp(2) that by (auto simp: min_def)
  show "length (rest_of w' fd) < length (rest_of w fd) \<or>
      length (rest_of w' fd) = length (rest_of w fd) \<and> (0::nat) < 0" if "0 < r"
    using sp(2) that by auto
  show "r \<noteq> -1 \<and> clean w' \<and> can_read w' fd" if "clean w" "can_read w fd"
    using sys_read_clean [OF rd that] by simp
next
  fix fd s' :: int and w w' :: world and bs
  assume "fd_read fd w = Some ((0, bs, s'), w')"
  then have rd: "sys_read fd 4096 w = ((0, bs), w')"
    by (auto simp: fd_read_def split: prod.splits)
  from sys_read_rest(2) [OF rd] show "Some (rest_of w fd) = Some []" by auto
qed

text \<open>The block stream.\<close>

definition lzo_read :: "lzo_lib \<Rightarrow> lzoFile \<Rightarrow> world \<Rightarrow> ((int \<times> byte list \<times> lzoFile) \<times> world) option" where
  "lzo_read lib f w = lzoread lib f 4096 w"

definition lzo_left :: "lzo_lib \<Rightarrow> lzoFile \<Rightarrow> byte list \<Rightarrow> byte list option" where
  "lzo_left lib f rest = map_option ((@) (pending f)) (lzo_decode lib (usize (block f)) rest)"

lemma lzo_left_remaining: "lzo_left lib f (rest_of w (lfd f)) = remaining lib f w"
  by (simp add: lzo_left_def remaining_def)

interpretation lzo: source_stream "lzo_read lib" "\<lambda>f. reader_ok f \<and> lmode f = LZO_READ" lfd "lzo_left lib" "\<lambda>f. length (pending f)"
  for lib
proof
  fix f :: lzoFile and w :: world
  assume "reader_ok f \<and> lmode f = LZO_READ"
  then have "reader_ok f" by simp
  then show "\<exists>res. lzo_read lib f w = Some res" unfolding lzo_read_def by (rule lzoread_terminates)
next
  fix f f' :: lzoFile and w w' :: world and r bs
  assume ok2: "reader_ok f \<and> lmode f = LZO_READ" and "lzo_read lib f w = Some ((r, bs, f'), w')"
  then have rd: "lzoread lib f 4096 w = Some ((r, bs, f'), w')" by (simp add: lzo_read_def)
  have ok: "reader_ok f" using ok2 by simp
  note sp = lzoread_spec [OF rd ok]
  show "(reader_ok f' \<and> lmode f' = LZO_READ) \<and> lfd f' = lfd f \<and> repositioned (lfd f) w w'" using sp ok2 by simp
  show "r = -1 \<or> r = int (length bs)" using sp by blast
  show "lzo_left lib f (rest_of w (lfd f)) = map_option ((@) bs) (lzo_left lib f' (rest_of w' (lfd f)))"
    if "0 < r"
  proof -
    have "lfd f' = lfd f" using sp by simp
    then have "lzo_left lib f' (rest_of w' (lfd f)) = remaining lib f' w'"
      by (metis lzo_left_remaining)
    then show ?thesis using sp that by (auto simp: lzo_left_remaining)
  qed
  show "length (rest_of w' (lfd f)) < length (rest_of w (lfd f)) \<or>
      length (rest_of w' (lfd f)) = length (rest_of w (lfd f)) \<and> length (pending f') < length (pending f)"
    if "0 < r" by (rule lzoread_progress [OF rd ok that])
  show "r \<noteq> -1 \<and> clean w' \<and> can_read w' (lfd f)"
    if "clean w" "can_read w (lfd f)" "lzo_left lib f (rest_of w (lfd f)) \<noteq> None"
    by (rule lzoread_clean [OF rd ok that(1,2)]) (use that(3) in \<open>simp add: lzo_left_remaining\<close>)
next
  fix f f' :: lzoFile and w w' :: world and bs
  assume ok: "reader_ok f \<and> lmode f = LZO_READ" and "lzo_read lib f w = Some ((0, bs, f'), w')"
  then have "lzoread lib f 4096 w = Some ((0, bs, f'), w')" by (simp add: lzo_read_def)
  from lzoread_spec [OF this] ok show "lzo_left lib f (rest_of w (lfd f)) = Some []"
    by (auto simp: lzo_left_remaining)
qed

end
