(* ===== verification/Sink.thy ===== *)
theory Sink
  imports Copying
begin

text \<open>
  The loop every compression routine runs: read a piece of the plain file, give it to the
  compressor's stream, and stop when the file ends or another thread asks for it. The
  locale \<open>sink_stream\<close> is the contract of what is written to; it is interpreted on a plain
  descriptor and on the block stream of \<^verbatim>\<open>minilzo/lzo.c\<close>.
\<close>

section \<open>Asking for cancellation\<close>

text \<open>
  \<open>compress_testcancel\<close> of \<^verbatim>\<open>compress.c\<close>. The file's lock is free while it is compressed,
  so another thread may have set CANCEL since the last test: \<open>cancels\<close> of the world says
  when one does. A file that carries CANCEL keeps it.
\<close>

definition compress_testcancel :: "file_t \<Rightarrow> world \<Rightarrow> (bool \<times> file_t) \<times> world" where
  "compress_testcancel file w =
     (let (c, w1) = next_cancel w;
          file1 = (if c then file\<lparr>status := insert CANCEL (status file)\<rparr> else file)
      in ((CANCEL \<in> status file1, file1), w1))"

text \<open>What the unlocked time does to the file: at most CANCEL is added.\<close>

definition may_cancel :: "file_t \<Rightarrow> file_t \<Rightarrow> bool" where
  "may_cancel file file' \<longleftrightarrow> file' = file \<or> file' = file\<lparr>status := insert CANCEL (status file)\<rparr>"

lemma may_cancel_refl [simp]: "may_cancel f f"
  by (simp add: may_cancel_def)

lemma may_cancel_trans [trans]: "may_cancel a b \<Longrightarrow> may_cancel b c \<Longrightarrow> may_cancel a c"
  by (auto simp: may_cancel_def)

lemma compress_testcancel_spec:
  "compress_testcancel file w = ((c, file'), w') \<Longrightarrow>
   agree w' w \<and> script w' = script w \<and> may_cancel file file' \<and> (c \<longleftrightarrow> CANCEL \<in> status file')"
  using next_cancel_agree [of w]
  by (auto simp: compress_testcancel_def Let_def may_cancel_def split: prod.splits if_splits)

section \<open>What a writer may do\<close>

text \<open>Only the destination's file changes, at its end, and the source is left alone.\<close>

definition appends :: "int \<Rightarrow> int \<Rightarrow> world \<Rightarrow> world \<Rightarrow> bool" where
  "appends src dst w w' \<longleftrightarrow>
     (at_end w dst \<and> separate w src dst \<longrightarrow>
      io_only (set_option (ino_of w dst)) w w' \<and> at_end w' dst \<and> rest_of w' src = rest_of w src)"

lemma appends_refl [simp]: "appends src dst w w"
  by (simp add: appends_def)

lemma appends_trans [trans]:
  assumes "appends src dst w1 w2" and "appends src dst w2 w3"
  shows "appends src dst w1 w3"
  unfolding appends_def
proof (intro impI)
  assume a: "at_end w1 dst \<and> separate w1 src dst"
  then have 2: "io_only (set_option (ino_of w1 dst)) w1 w2" "at_end w2 dst" "rest_of w2 src = rest_of w1 src"
    using assms(1) by (simp_all add: appends_def)
  then have "separate w2 src dst" "ino_of w2 dst = ino_of w1 dst"
    using a io_only_separate [OF 2(1)] io_only_ino_of [OF 2(1)] by simp_all
  then show "io_only (set_option (ino_of w1 dst)) w1 w3 \<and> at_end w3 dst \<and> rest_of w3 src = rest_of w1 src"
    using assms(2) 2 io_only_trans [OF 2(1)] by (simp add: appends_def)
qed

lemma appends_sys_write: "sys_write dst bs w = (r, w') \<Longrightarrow> appends src dst w w'"
proof -
  assume wr: "sys_write dst bs w = (r, w')"
  show ?thesis
    unfolding appends_def
  proof (intro impI)
    assume a: "at_end w dst \<and> separate w src dst"
    then obtain n where "ino_of w dst = Some n" using at_end_ino by blast
    with sys_write_at_end [OF wr, of src n] a
    show "io_only (set_option (ino_of w dst)) w w' \<and> at_end w' dst \<and> rest_of w' src = rest_of w src"
      by simp
  qed
qed

lemma agree_views:
  assumes "agree w' w"
  shows "at_end w' fd = at_end w fd" "rest_of w' fd = rest_of w fd" "ino_of w' fd = ino_of w fd"
    "data_of w' fd = data_of w fd" "can_read w' fd = can_read w fd" "separate w' fd fd2 = separate w fd fd2"
  using agreeD [OF assms]
  by (simp_all add: at_end_def rest_of_def ino_of_def data_of_def can_read_def separate_def
      fd_ofile_def fd_inode_def cong: option.case_cong)

lemma appends_agree: "agree w' w \<Longrightarrow> appends src dst w w'"
  using agree_views [of w' w] by (simp add: appends_def io_only_agree)

section \<open>The loop\<close>

text \<open>
  \<open>wr\<close> is the compressor's write function and \<open>bad\<close> the test the routine makes of its
  result. \<open>size += rd\<close> comes before the write in the source.
\<close>

partial_function (option) compress_loop ::
  "('s \<Rightarrow> byte list \<Rightarrow> world \<Rightarrow> ((int \<times> 's) \<times> world) option) \<Rightarrow> (int \<Rightarrow> bool) \<Rightarrow> 's \<Rightarrow> file_t \<Rightarrow> int \<Rightarrow> off \<Rightarrow>
   world \<Rightarrow> ((off \<times> 's \<times> file_t) \<times> world) option" where
  [code]: "compress_loop wr bad s file src sz w =
     (let ((rd, bs), w1) = sys_read src 4096 w
      in if rd > 0 then do {
           ((r, s'), w2) \<leftarrow> wr s bs w1;
           if bad r then Some ((-1, s', file), w2)
           else (let ((c, file'), w3) = compress_testcancel file w2
                 in if c then Some ((sz + rd, s', file'), w3)
                    else compress_loop wr bad s' file' src (sz + rd) w3)
         }
         else if rd < 0 then Some ((-1, s, file), w1)
         else Some ((sz, s, file), w1))"

text \<open>
  A stream to write to: \<open>dfd\<close> is its descriptor; \<open>stored s data bytes\<close> says that the
  stream has accepted \<open>data\<close> and, of that, put \<open>bytes\<close> into the file.
\<close>

locale sink_stream =
  fixes wr :: "'s \<Rightarrow> byte list \<Rightarrow> world \<Rightarrow> ((int \<times> 's) \<times> world) option"
    and ok :: "'s \<Rightarrow> bool"
    and dfd :: "'s \<Rightarrow> int"
    and stored :: "'s \<Rightarrow> byte list \<Rightarrow> byte list \<Rightarrow> bool"
  assumes wr_total: "ok s \<Longrightarrow> \<exists>r s' w'. wr s bs w = Some ((r, s'), w') \<and> ok s' \<and> dfd s' = dfd s"
    and wr_frame: "ok s \<Longrightarrow> wr s bs w = Some ((r, s'), w') \<Longrightarrow> appends src (dfd s) w w'"
    and wr_clean: "ok s \<Longrightarrow> wr s bs w = Some ((r, s'), w') \<Longrightarrow> clean w \<Longrightarrow> at_end w (dfd s) \<Longrightarrow>
      stored s data bytes \<Longrightarrow> bs \<noteq> [] \<Longrightarrow>
      r = int (length bs) \<and> clean w' \<and>
      (\<exists>new. data_of w' (dfd s) = data_of w (dfd s) @ new \<and> stored s' (data @ bs) (bytes @ new))"
begin

text \<open>The loop ends, and writes at the end of the destination only.\<close>

lemma compress_loop_total:
  assumes "ok s" and "at_end w (dfd s)" and "separate w src (dfd s)"
  shows "\<exists>r s' f' w'. compress_loop wr bad s f src sz w = Some ((r, s', f'), w') \<and>
    ok s' \<and> dfd s' = dfd s \<and> may_cancel f f' \<and>
    io_only (set_option (ino_of w (dfd s))) w w' \<and> at_end w' (dfd s)"
  using assms
proof (induction "length (rest_of w src)" arbitrary: s f sz w rule: less_induct)
  case less
  obtain rd bs w1 where rd: "sys_read src 4096 w = ((rd, bs), w1)" by (metis prod.collapse)
  note sr = sys_read_rest [OF rd]
  note ae = repositioned_at_end [OF sr(1) less(4) less(3)]
  let ?D = "set_option (ino_of w (dfd s))"
  have io1: "io_only ?D w w1" by (rule io_only_repositioned [OF sr(1)])
  show ?case
  proof (cases "rd > 0")
    case False
    then show ?thesis using rd less(2) io1 ae by (subst compress_loop.simps) auto
  next
    case True
    obtain r s1 w2 where wr1: "wr s bs w1 = Some ((r, s1), w2)" "ok s1" "dfd s1 = dfd s"
      using wr_total [OF less(2), of bs w1] by blast
    have sep1: "separate w1 src (dfd s)" using io_only_separate [OF io1] less(4) by simp
    have ap: "io_only ?D w1 w2" "at_end w2 (dfd s)" "rest_of w2 src = rest_of w1 src"
      using wr_frame [OF less(2) wr1(1), of src] ae sep1 io_only_ino_of [OF io1]
      by (auto simp: appends_def)
    have io2: "io_only ?D w w2" by (rule io_only_trans [OF io1 ap(1)])
    show ?thesis
    proof (cases "bad r")
      case True
      then show ?thesis using rd \<open>rd > 0\<close> wr1 io2 ap(2) by (subst compress_loop.simps) simp
    next
      case False
      obtain c f1 w3 where tc: "compress_testcancel f w2 = ((c, f1), w3)"
        by (metis prod.collapse)
      have t: "agree w3 w2" "may_cancel f f1" using compress_testcancel_spec [OF tc] by auto
      have io3: "io_only ?D w w3" by (rule io_only_trans [OF io2 io_only_agree [OF t(1)]])
      have ae3: "at_end w3 (dfd s)" using agree_views(1) [OF t(1)] ap(2) by simp
      show ?thesis
      proof (cases c)
        case True
        then show ?thesis
          using rd \<open>rd > 0\<close> wr1 False tc io3 ae3 t(2) by (subst compress_loop.simps) simp
      next
        case go: False
        have "length (rest_of w3 src) < length (rest_of w src)"
          using sr(2) True ap(3) agree_views(2) [OF t(1)] by auto
        then have "\<exists>r' s' f' w'. compress_loop wr bad s1 f1 src (sz + rd) w3 = Some ((r', s', f'), w') \<and>
          ok s' \<and> dfd s' = dfd s1 \<and> may_cancel f1 f' \<and>
          io_only (set_option (ino_of w3 (dfd s1))) w3 w' \<and> at_end w' (dfd s1)"
          by (rule less(1)) (use wr1 ae3 io_only_separate [OF io3] less(4) in simp_all)
        then obtain r' s' f' w' where
          l: "compress_loop wr bad s1 f1 src (sz + rd) w3 = Some ((r', s', f'), w')"
          "ok s'" "dfd s' = dfd s" "may_cancel f1 f'" "io_only ?D w3 w'" "at_end w' (dfd s)"
          using wr1(3) io_only_ino_of [OF io3] by auto
        have "compress_loop wr bad s f src sz w = Some ((r', s', f'), w')"
          using rd True wr1 False tc go l(1) by (subst compress_loop.simps) simp
        then show ?thesis
          using l io_only_trans [OF io3 l(5)] may_cancel_trans [OF t(2) l(4)] by blast
      qed
    qed
  qed
qed

text \<open>Without faults it consumes the whole file, unless it is told to stop.\<close>

lemma compress_loop_clean:
  assumes "ok s" and "at_end w (dfd s)" and "separate w src (dfd s)" and "clean w" and "can_read w src"
    and "stored s data bytes" and "\<And>r. 0 < r \<Longrightarrow> \<not> bad r"
  shows "\<exists>r s' f' w' new. compress_loop wr bad s f src sz w = Some ((r, s', f'), w') \<and> clean w' \<and>
    (CANCEL \<in> status f' \<or>
     r = sz + int (length (rest_of w src)) \<and>
     data_of w' (dfd s) = data_of w (dfd s) @ new \<and> stored s' (data @ rest_of w src) (bytes @ new))"
  using assms
proof (induction "length (rest_of w src)" arbitrary: s f sz w data bytes rule: less_induct)
  case less
  obtain rd bs w1 where rd: "sys_read src 4096 w = ((rd, bs), w1)" by (metis prod.collapse)
  note sr = sys_read_rest [OF rd]
  note cl = sys_read_clean [OF rd less(5,6)]
  note ae = repositioned_at_end [OF sr(1) less(4) less(3)]
  let ?D = "set_option (ino_of w (dfd s))"
  have io1: "io_only ?D w w1" by (rule io_only_repositioned [OF sr(1)])
  show ?case
  proof (cases "rd > 0")
    case False
    then have "rd = 0" "rest_of w src = []" using cl(1,2) by auto
    then show ?thesis using rd less(7) cl ae
      by (intro exI [of _ sz] exI [of _ s] exI [of _ f] exI [of _ w1] exI [of _ "[]"])
        (subst compress_loop.simps, simp)
  next
    case True
    then have bs: "bs \<noteq> []" using cl(2) by auto
    obtain r s1 w2 where wr1: "wr s bs w1 = Some ((r, s1), w2)" "ok s1" "dfd s1 = dfd s"
      using wr_total [OF less(2), of bs w1] by blast
    from wr_clean [OF less(2) wr1(1) cl(3) ae(1) less(7) bs]
    obtain new1 where w2: "r = int (length bs)" "clean w2"
      "data_of w2 (dfd s) = data_of w1 (dfd s) @ new1" "stored s1 (data @ bs) (bytes @ new1)" by blast
    have sep1: "separate w1 src (dfd s)" using io_only_separate [OF io1] less(4) by simp
    have ap: "io_only ?D w1 w2" "at_end w2 (dfd s)" "rest_of w2 src = rest_of w1 src"
      using wr_frame [OF less(2) wr1(1), of src] ae sep1 io_only_ino_of [OF io1]
      by (auto simp: appends_def)
    have good: "\<not> bad r" by (rule less(8)) (use w2(1) bs in simp)
    obtain c f1 w3 where tc: "compress_testcancel f w2 = ((c, f1), w3)"
      by (metis prod.collapse)
    have t: "agree w3 w2" "script w3 = script w2" "c \<longleftrightarrow> CANCEL \<in> status f1"
      using compress_testcancel_spec [OF tc] by auto
    have io3: "io_only ?D w w3"
      by (rule io_only_trans [OF io_only_trans [OF io1 ap(1)] io_only_agree [OF t(1)]])
    show ?thesis
    proof (cases c)
      case c: True
      then have "compress_loop wr bad s f src sz w = Some ((sz + rd, s1, f1), w3)"
        using rd True wr1 good tc by (subst compress_loop.simps) simp
      moreover have "CANCEL \<in> status f1" "clean w3" using c t w2(2) by auto
      ultimately show ?thesis by blast
    next
      case go: False
      have r3: "rest_of w3 src = drop (length bs) (rest_of w src)"
        using ap(3) agree_views(2) [OF t(1)] cl(1,4) by (auto simp: min_def)
      have split: "rest_of w src = bs @ rest_of w3 src"
        using cl(1) r3 by (auto simp: min_def)
      have d3: "data_of w3 (dfd s) = data_of w (dfd s) @ new1"
        using agree_views(4) [OF t(1)] w2(3) ae(2) by simp
      have "length (rest_of w3 src) < length (rest_of w src)"
        using split bs by (metis add_less_same_cancel2 length_append length_greater_0_conv less_add_same_cancel2)
      then have "\<exists>r' s' f' w' new. compress_loop wr bad s1 f1 src (sz + rd) w3 = Some ((r', s', f'), w') \<and>
          clean w' \<and>
          (CANCEL \<in> status f' \<or>
           r' = sz + rd + int (length (rest_of w3 src)) \<and>
           data_of w' (dfd s1) = data_of w3 (dfd s1) @ new \<and>
           stored s' ((data @ bs) @ rest_of w3 src) ((bytes @ new1) @ new))"
        by (rule less(1))
          (use wr1 w2 t ap(2) agree_views(1) [OF t(1)] io_only_separate [OF io3] less(4,6,8)
             io_only_can_read [OF io3] in simp_all)
      then obtain r' s' f' w' new where
        l: "compress_loop wr bad s1 f1 src (sz + rd) w3 = Some ((r', s', f'), w')" "clean w'"
        "CANCEL \<in> status f' \<or>
           r' = sz + rd + int (length (rest_of w3 src)) \<and>
           data_of w' (dfd s) = data_of w3 (dfd s) @ new \<and>
           stored s' ((data @ bs) @ rest_of w3 src) ((bytes @ new1) @ new)"
        unfolding wr1(3) by blast
      have run: "compress_loop wr bad s f src sz w = Some ((r', s', f'), w')"
        using rd True wr1 good tc go l(1) by (subst compress_loop.simps) simp
      have "int (length (rest_of w src)) = rd + int (length (rest_of w3 src))"
        using split cl(2) by (metis length_append of_nat_add)
      then have "CANCEL \<in> status f' \<or>
           r' = sz + int (length (rest_of w src)) \<and>
           data_of w' (dfd s) = data_of w (dfd s) @ (new1 @ new) \<and>
           stored s' (data @ rest_of w src) (bytes @ (new1 @ new))"
        using l(3) d3 split by (simp add: add.assoc)
      then show ?thesis using run l(2) by blast
    qed
  qed
qed

end

section \<open>The two streams of the repository\<close>

text \<open>A plain descriptor.\<close>

definition fd_write :: "int \<Rightarrow> byte list \<Rightarrow> world \<Rightarrow> ((int \<times> int) \<times> world) option" where
  "fd_write fd bs w = (let (r, w') = sys_write fd bs w in Some ((r, fd), w'))"

interpretation plain_sink: sink_stream fd_write "\<lambda>_. True" "\<lambda>fd. fd" "\<lambda>_ data bytes. bytes = data"
proof
  fix fd :: int and bs and w :: world
  show "\<exists>r s' w'. fd_write fd bs w = Some ((r, s'), w') \<and> True \<and> s' = fd"
    by (simp add: fd_write_def split: prod.split)
next
  fix fd s' :: int and bs and w w' :: world and r src
  assume "fd_write fd bs w = Some ((r, s'), w')"
  then have wr: "sys_write fd bs w = (r, w')" and s': "s' = fd"
    by (auto simp: fd_write_def split: prod.splits)
  show "appends src fd w w'" by (rule appends_sys_write [OF wr])
  show "r = int (length bs) \<and> clean w' \<and>
      (\<exists>new. data_of w' fd = data_of w fd @ new \<and> bytes @ new = data @ bs)"
    if "clean w" "at_end w fd" "bytes = data" for data bytes
    using wr sys_write_appends [OF that(1,2)] append_fd_data [OF that(2)] that by auto
qed

text \<open>
  The block stream. What a failing write leaves of the writer is still a well-formed
  writer, so the loop can go on, as the code does.
\<close>

lemma lzowriteblock_frame:
  assumes "writer_ok f" and "lzo_lib_ok lib"
  shows "\<exists>r w'. lzowriteblock lib (lfd f) (block f) w = Some (r, w') \<and> appends src (lfd f) w w'"
proof -
  have wb: "appends src fd w (snd (write_block fd us st w))" for fd us st
  proof -
    obtain r1 w1 where 1: "sys_write fd (head_bytes us (length st)) w = (r1, w1)" by fastforce
    obtain r2 w2 where 2: "sys_write fd st w1 = (r2, w2)" by fastforce
    have "appends src fd w w1" "appends src fd w1 w2"
      using appends_sys_write 1 2 by blast+
    then show ?thesis using 1 2 appends_trans by (auto simp: write_block_def)
  qed
  obtain b where "bbuf (block f) = Some b" using assms(1) by (auto simp: writer_ok_def)
  moreover obtain c where "lzo1x_1_compress lib (take (psize (block f)) b) = Some c"
    using assms(2) unfolding lzo_lib_ok_def by blast
  ultimately show ?thesis
    using wb by (auto simp: lzowriteblock_def Let_def) (metis prod.collapse)+
qed

lemma lzowrite_loop_frame:
  assumes "writer_ok f" and "lzo_lib_ok lib"
  shows "\<exists>b f' w'. lzowrite_loop lib f buf w = Some ((b, f'), w') \<and> writer_ok f' \<and> lfd f' = lfd f \<and>
    appends src (lfd f) w w'"
  using assms
proof (induction lib f buf w rule: lzowrite_loop.induct)
  case (1 lib f w)
  then show ?case by (intro exI [of _ True] exI [of _ f] exI [of _ w]) simp
next
  case (2 lib f c cs w)
  show ?case
  proof (cases "blockoff f < usize (block f)")
    case True
    then have s: "writer_ok (store_byte c f)" "lfd (store_byte c f) = lfd f"
      using store_byte_writer_ok [OF "2.prems"(1)] "2.prems"(1) by (auto simp: writer_ok_def)
    from "2.IH"(1) [OF True s(1) "2.prems"(2)] s(2) True show ?thesis by simp
  next
    case False
    obtain r w1 where wb: "lzowriteblock lib (lfd f) (block f) w = Some (r, w1)" "appends src (lfd f) w w1"
      using lzowriteblock_frame [OF "2.prems"] by blast
    show ?thesis
    proof (cases "r = -1")
      case True
      then show ?thesis using False wb "2.prems" by auto
    next
      case ok: False
      let ?f1 = "f\<lparr>blockoff := 0, block := (block f)\<lparr>psize := 0\<rparr>\<rparr>"
      have f1: "writer_ok ?f1" "blockoff ?f1 < WRITE_BUFFER_SIZE"
        using "2.prems"(1) by (auto simp: writer_ok_def)
      note s = store_byte_writer_ok [OF f1]
      have "\<exists>b f' w'. lzowrite_loop lib (store_byte c ?f1) cs w1 = Some ((b, f'), w') \<and> writer_ok f' \<and>
          lfd f' = lfd (store_byte c ?f1) \<and> appends src (lfd (store_byte c ?f1)) w1 w'"
        by (rule "2.IH"(2) [OF False wb(1) refl ok refl])
          (use s "2.prems" in \<open>auto simp: writer_ok_def\<close>)
      then show ?thesis
        using False wb ok s "2.prems"(1) appends_trans [OF wb(2)]
        by (auto simp: writer_ok_def Let_def)
    qed
  qed
qed

text \<open>
  What the writer holds: the blocks in the file and the waiting bytes together are the
  data; nothing waits only if nothing was written.
\<close>

definition lzo_stored :: "lzo_lib \<Rightarrow> lzoFile \<Rightarrow> byte list \<Rightarrow> byte list \<Rightarrow> bool" where
  "lzo_stored lib f data bytes \<longleftrightarrow>
     (\<exists>chunks. bytes = stream lib chunks \<and> data = concat chunks @ waiting f \<and>
        (\<forall>c \<in> set chunks. length c = WRITE_BUFFER_SIZE) \<and>
        (data \<noteq> [] \<longrightarrow> waiting f \<noteq> []))"

lemma stream_append: "stream lib (as @ bs) = stream lib as @ stream lib bs"
  by (simp add: stream_def)

definition lzo_write :: "lzo_lib \<Rightarrow> lzoFile \<Rightarrow> byte list \<Rightarrow> world \<Rightarrow> ((int \<times> lzoFile) \<times> world) option" where
  "lzo_write lib f buf w = lzowrite lib f buf w"

lemma lzo_write_clean:
  assumes "writer_ok f" and "lzo_lib_ok lib" and "lzowrite lib f bs w = Some ((r, f'), w')" and "clean w"
    and "at_end w (lfd f)" and "lzo_stored lib f data bytes" and "bs \<noteq> []"
  shows "r = int (length bs) \<and> clean w' \<and>
    (\<exists>new. data_of w' (lfd f) = data_of w (lfd f) @ new \<and> lzo_stored lib f' (data @ bs) (bytes @ new))"
proof -
  obtain g chunks where 1: "lzowrite_loop lib f bs w = Some ((True, g), emit lib (lfd f) chunks w)"
    "concat chunks @ waiting g = waiting f @ bs" "\<forall>c \<in> set chunks. length c = WRITE_BUFFER_SIZE"
    "waiting g \<noteq> []"
    using lzowrite_loop_clean [OF assms(4,5,1,2), of bs] assms(7) by blast
  have e: "r = int (length bs)" "f' = g" "w' = emit lib (lfd f) chunks w"
    using assms(3) 1(1) by (auto simp: lzowrite_def)
  obtain cs where cs: "bytes = stream lib cs" "data = concat cs @ waiting f"
    "\<forall>c \<in> set cs. length c = WRITE_BUFFER_SIZE"
    using assms(6) by (auto simp: lzo_stored_def)
  have "lzo_stored lib f' (data @ bs) (bytes @ stream lib chunks)"
    unfolding lzo_stored_def
    by (rule exI [of _ "cs @ chunks"]) (use cs 1 e in \<open>auto simp: stream_append\<close>)
  then show ?thesis using e emit_data [OF assms(5)] assms(4) by auto
qed

interpretation lzo_sink: sink_stream "lzo_write lib" "\<lambda>f. writer_ok f \<and> lzo_lib_ok lib" lfd "lzo_stored lib"
  for lib
proof
  fix f :: lzoFile and bs and w :: world
  assume "writer_ok f \<and> lzo_lib_ok lib"
  then show "\<exists>r f' w'. lzo_write lib f bs w = Some ((r, f'), w') \<and> (writer_ok f' \<and> lzo_lib_ok lib) \<and> lfd f' = lfd f"
    using lzowrite_loop_frame [of f lib bs w undefined] by (fastforce simp: lzo_write_def lzowrite_def)
next
  fix f f' :: lzoFile and bs and w w' :: world and r src
  assume ok: "writer_ok f \<and> lzo_lib_ok lib" and "lzo_write lib f bs w = Some ((r, f'), w')"
  then have wr: "lzowrite lib f bs w = Some ((r, f'), w')" by (simp add: lzo_write_def)
  then show "appends src (lfd f) w w'"
    using lzowrite_loop_frame [of f lib bs w src] ok by (auto simp: lzowrite_def)
  show "r = int (length bs) \<and> clean w' \<and>
      (\<exists>new. data_of w' (lfd f) = data_of w (lfd f) @ new \<and> lzo_stored lib f' (data @ bs) (bytes @ new))"
    if "clean w" "at_end w (lfd f)" "lzo_stored lib f data bytes" "bs \<noteq> []" for data bytes
    by (rule lzo_write_clean [OF _ _ wr that]) (use ok in auto)
qed

end
