(* ===== verification/FileFormat.thy ===== *)
theory FileFormat
  imports Structs
begin

text \<open>
  \<^verbatim>\<open>file.c\<close>: the header of a compressed file, the table of compressors, opening files
  and temporary files, and the lists of names that are not compressed; and
  \<open>choose_compressor\<close> of \<^verbatim>\<open>compress.c\<close>, which uses them.

  Out parameters of the C functions (\<open>compressor_t **compressor\<close>, \<open>off_t *size\<close>) are
  passed in and returned. A result \<open>None\<close> is a failed assertion or a read outside an
  object.
\<close>

section \<open>The compressor table\<close>

text \<open>
  The bounds check is \<open>fh->type > 5\<close>: type 5 passes it and reads the sixth element of a
  table of five, the outer \<open>None\<close>.
\<close>

definition find_compressor :: "config \<Rightarrow> header_t \<Rightarrow> nat option option" where
  "find_compressor cfg fh =
     (let t = unat (h_type fh); tbl = compressors cfg
      in if t > length tbl then Some None
         else if t < length tbl then Some (if tbl ! t = None then None else Some t)
         else None)"

fun find_name_from :: "string \<Rightarrow> nat \<Rightarrow> compressor_t option list \<Rightarrow> nat option" where
  "find_name_from name i [] = None"
| "find_name_from name i (None # tbl) = find_name_from name (i + 1) tbl"
| "find_name_from name i (Some c # tbl) =
     (if cname c = name then Some i else find_name_from name (i + 1) tbl)"

definition find_compressor_name :: "config \<Rightarrow> string \<Rightarrow> nat option" where
  "find_compressor_name cfg name = find_name_from name 0 (compressors cfg)"

section \<open>The header\<close>

text \<open>The magic bytes \<open>\037 \135 \211\<close>.\<close>

definition magic :: "byte list" where
  "magic = [31, 93, 137]"

definition header_bytes :: "header_t \<Rightarrow> byte list" where
  "header_bytes fh = h_id fh @ h_type fh # le_bytes 8 (unat (h_size fh))"

definition header_of_bytes :: "byte list \<Rightarrow> header_t" where
  "header_of_bytes bs =
     \<lparr>h_id = take 3 bs, h_type = bs ! 3, h_size = of_nat (le_val (take 8 (drop 4 bs)))\<rparr>"

definition file_compressor :: "config \<Rightarrow> header_t \<Rightarrow> nat option option" where
  "file_compressor cfg fh = (if h_id fh \<noteq> magic then Some None else find_compressor cfg fh)"

definition new_header :: "compressor_t \<Rightarrow> off \<Rightarrow> header_t" where
  "new_header c sz = \<lparr>h_id = magic, h_type = ctype c, h_size = u64_of_off sz\<rparr>"

definition file_write_header :: "int \<Rightarrow> compressor_t \<Rightarrow> off \<Rightarrow> world \<Rightarrow> (int \<times> world) option" where
  "file_write_header fd c sz w = do {
     assert (fd \<ge> 0);
     assert (sz \<noteq> -1);
     Some (sys_write fd (header_bytes (new_header c sz)) w)
   }"

definition file_read_header_fd ::
  "config \<Rightarrow> int \<Rightarrow> nat option \<Rightarrow> off \<Rightarrow> world \<Rightarrow> (int \<times> nat option \<times> off \<times> world) option" where
  "file_read_header_fd cfg fd compressor sz w = do {
     assert (fd \<ge> 0);
     let ((r, bs), w1) = sys_read fd sizeof_header w;
     if r = -1 then Some (r, compressor, sz, w1)
     else if r = int sizeof_header then do {
       c \<leftarrow> file_compressor cfg (header_of_bytes bs);
       Some (0, c, if c \<noteq> None then off_of_u64 (h_size (header_of_bytes bs)) else sz, w1)
     }
     else Some (0, compressor, sz, w1)
   }"

section \<open>Opening and closing files\<close>

text \<open>\<open>S_IRUSR | S_IWUSR | S_IRGRP | S_IWGRP | S_IROTH | S_IWOTH\<close>, octal 666.\<close>

definition or_allmodes :: "nat \<Rightarrow> nat" where
  "or_allmodes m = or m 438"

text \<open>
  Opens a file even without access: the permissions are widened for the second try and
  put back.
\<close>

definition file_open :: "path \<Rightarrow> oflag set \<Rightarrow> world \<Rightarrow> int \<times> world" where
  "file_open fn mode w =
     (let (fd, w1) = sys_open fn mode 0 w
      in if fd = FAIL \<and> (errno w1 = EACCES \<or> errno w1 = EPERM)
         then
           (let ((r, buf), w2) = sys_lstat fn no_stat w1
            in if r = FAIL then (FAIL, w2)
               else
                 (let (r, w3) = sys_chmod fn (or_allmodes (st_mode buf)) w2
                  in if r = FAIL then (FAIL, w3)
                     else
                       (let (fd, w4) = sys_open fn mode 0 w3
                        in if fd = FAIL then (FAIL, w4)
                           else
                             (let (r, w5) = sys_chmod fn (st_mode buf) w4
                              in if r = FAIL then (FAIL, w5) else (fd, w5)))))
         else (fd, w1))"

definition file_close :: "int \<Rightarrow> world \<Rightarrow> (int \<times> world) option" where
  "file_close fd w = do {
     assert (fd > FAIL);
     let (r, w1) = sys_close fd w;
     Some (-1, w1)
   }"

definition file_read_header_name ::
  "config \<Rightarrow> path \<Rightarrow> nat option \<Rightarrow> off \<Rightarrow> world \<Rightarrow> (int \<times> nat option \<times> off \<times> world) option" where
  "file_read_header_name cfg name compressor sz w = (
     let (fd, w1) = file_open name {} w
     in if fd = FAIL then Some (FAIL, compressor, sz, w1)
        else do {
          (r, c, s, w2) \<leftarrow> file_read_header_fd cfg fd compressor sz w1;
          let err = errno w2;
          let (x, w3) = sys_close fd w2;
          let err = (if x = FAIL then errno w3 else err);
          if r = FAIL \<or> x = FAIL then Some (FAIL, c, s, w3\<lparr>errno := err\<rparr>)
          else Some (0, c, s, w3)
        })"

text \<open>
  \<open>mkstemp\<close> until it succeeds; \<open>i\<close> counts the tries, and after the 52nd the function gives
  up, even if that try opened a file (a second's sleep between tries is not modelled).
\<close>

function file_create_temp_loop :: "nat \<Rightarrow> world \<Rightarrow> (path option \<times> int) \<times> world" where
  "file_create_temp_loop i w =
     (let ((fd, temp), w1) = sys_mkstemp TEMP w
      in if i > 50 then ((None, -1), w1)
         else if fd = -1 then file_create_temp_loop (i + 1) w1
         else ((Some temp, fd), w1))"
  by pat_completeness auto
termination
  by (relation "measure (\<lambda>(i, w). 51 - i)") auto

declare file_create_temp_loop.simps [simp del]

definition file_create_temp :: "world \<Rightarrow> (path option \<times> int) \<times> world" where
  "file_create_temp w = file_create_temp_loop 0 w"

section \<open>Names that are not compressed\<close>

definition is_compressible :: "config \<Rightarrow> path \<Rightarrow> bool" where
  "is_compressible cfg fn \<longleftrightarrow>
     \<not> (\<exists>ext \<in> set incompressible. strcasestr fn ext \<noteq> None) \<and>
     \<not> (\<exists>ext \<in> set (user_incompressible cfg). strcasestr fn ext \<noteq> None)"

definition is_excluded :: "config \<Rightarrow> path \<Rightarrow> bool" where
  "is_excluded cfg fn \<longleftrightarrow> (\<exists>dir \<in> set (user_exclude_paths cfg). strncmp_prefix fn dir)"

definition choose_compressor :: "config \<Rightarrow> path \<Rightarrow> nat option" where
  "choose_compressor cfg fn =
     (if \<not> is_compressible cfg fn then None
      else if strstr fn TEMP \<noteq> None then None
      else if strstr fn FUSE \<noteq> None then None
      else if is_excluded cfg fn then None
      else if root_fs cfg \<and> (\<exists>dir \<in> set mmapped_dirs. strncmp_prefix fn dir) then None
      else if root_fs cfg \<and>
        (case rindex fn CHR ''.'' of
           None \<Rightarrow> False
         | Some r \<Rightarrow> r = ''.so'' \<or> strstr fn ''.so.'' \<noteq> None) then None
      else compressor_default cfg)"

section \<open>Facts\<close>

lemma length_magic [simp]: "length magic = 3"
  by (simp add: magic_def)

lemma length_header_bytes: "length (h_id fh) = 3 \<Longrightarrow> length (header_bytes fh) = 12"
  by (simp add: header_bytes_def)

lemma header_of_bytes_bytes [codec]:
  assumes "length (h_id fh) = 3"
  shows "header_of_bytes (header_bytes fh) = fh"
proof -
  have v: "le_val (le_bytes 8 (unat (h_size fh))) = unat (h_size fh)"
    using unat_u64_less by (simp add: le_val_bytes)
  have "drop 4 (header_bytes fh) = le_bytes 8 (unat (h_size fh))"
    using assms by (simp add: header_bytes_def)
  then show ?thesis
    using assms v by (cases fh) (simp add: header_of_bytes_def header_bytes_def nth_append)
qed

lemma header_bytes_of_bytes [codec]:
  assumes "length bs = 12"
  shows "header_bytes (header_of_bytes bs) = bs"
proof -
  let ?v = "le_val (take 8 (drop 4 bs))"
  have "?v < 256 ^ 8" using le_val_bound [of "take 8 (drop 4 bs)"] assms by simp
  then have "unat (of_nat ?v :: u64) = ?v" by (simp add: unat_of_nat)
  moreover have "le_bytes 8 ?v = drop 4 bs"
    using le_bytes_val [of "take 8 (drop 4 bs)"] assms by simp
  moreover have "take 3 bs @ bs ! 3 # drop 4 bs = bs"
    using id_take_nth_drop [of 3 bs] assms by simp
  ultimately show ?thesis using assms by (simp add: header_bytes_def header_of_bytes_def)
qed

text \<open>Which types the table serves: all but 5 have an answer, and 5 has none.\<close>

lemma find_compressor_5:
  "length (compressors cfg) = 5 \<Longrightarrow> find_compressor cfg fh = None \<longleftrightarrow> h_type fh = 5"
  by (auto simp: find_compressor_def Let_def word_unat_eq_iff)

lemma find_compressor_Some:
  "find_compressor cfg fh = Some (Some c) \<Longrightarrow>
   c = unat (h_type fh) \<and> c < length (compressors cfg) \<and> compressors cfg ! c \<noteq> None"
  by (auto simp: find_compressor_def Let_def split: if_splits)

end
