(* ===== verification/StreamModule.thy ===== *)
theory StreamModule
  imports Sink FileFormat
begin

text \<open>
  A compression module over a stream library: duplicate the descriptor, open a stream on the
  duplicate, run the loop of \<open>Copying\<close> or \<open>Sink\<close>, close the stream. \<^verbatim>\<open>compress_lzo.c\<close>,
  \<^verbatim>\<open>compress_gz.c\<close> and \<^verbatim>\<open>compress_bz2.c\<close> are of this form.

  \<open>codec_module\<close> is the contract of a module that the rest of the program relies on. The locale
  \<open>stream_library\<close> is the contract of the library; from it follows that of the module.
\<close>

section \<open>The contract of a module\<close>

text \<open>
  \<open>decode\<close> is the format: what the bytes after the header stand for. \<open>ready\<close> is what the
  module needs of its library and its settings.
\<close>

locale decompress_module =
  fixes dec :: "int \<Rightarrow> int \<Rightarrow> world \<Rightarrow> (off \<times> world) option"
    and decode :: "byte list \<Rightarrow> byte list option"
  assumes dec_total: "world_ok w \<Longrightarrow> at_end w dst \<Longrightarrow> separate w src dst \<Longrightarrow>
      \<exists>r w'. dec src dst w = Some (r, w') \<and> io_only (set_option (ino_of w dst)) w w' \<and> at_end w' dst"
    and dec_result: "world_ok w \<Longrightarrow> at_end w dst \<Longrightarrow> separate w src dst \<Longrightarrow>
      dec src dst w = Some (r, w') \<Longrightarrow> r \<noteq> FAIL \<Longrightarrow>
      \<exists>out. decode (rest_of w src) = Some out \<and> 0 \<le> r \<and> r \<le> int (length out) \<and>
        (r = int (length out) \<longrightarrow> data_of w' dst = data_of w dst @ out)"
    and dec_clean: "world_ok w \<Longrightarrow> at_end w dst \<Longrightarrow> separate w src dst \<Longrightarrow>
      dec src dst w = Some (r, w') \<Longrightarrow> clean w \<Longrightarrow> can_read w src \<Longrightarrow>
      decode (rest_of w src) = Some out \<Longrightarrow> r = int (length out) \<and> clean w'"

locale compress_module =
  fixes comp :: "file_t \<Rightarrow> int \<Rightarrow> int \<Rightarrow> world \<Rightarrow> (off \<times> file_t \<times> world) option"
    and decode :: "byte list \<Rightarrow> byte list option"
    and ready :: bool
  assumes comp_total: "ready \<Longrightarrow> world_ok w \<Longrightarrow> at_end w dst \<Longrightarrow> separate w src dst \<Longrightarrow>
      \<exists>r f' w'. comp f src dst w = Some (r, f', w') \<and> may_cancel f f' \<and>
        io_only (set_option (ino_of w dst)) w w' \<and> at_end w' dst"
    and comp_clean: "ready \<Longrightarrow> world_ok w \<Longrightarrow> at_end w dst \<Longrightarrow> separate w src dst \<Longrightarrow>
      comp f src dst w = Some (r, f', w') \<Longrightarrow> clean w \<Longrightarrow> can_read w src \<Longrightarrow>
      clean w' \<and>
      (CANCEL \<in> status f' \<or>
       r = int (length (rest_of w src)) \<and>
       (\<exists>enc. data_of w' dst = data_of w dst @ enc \<and> decode enc = Some (rest_of w src)))"

locale codec_module = decompress_module dec decode + compress_module comp decode ready
  for dec decode comp ready

section \<open>Working on a duplicate\<close>

text \<open>
  A duplicate shares the position, so what is done through it is done to the original; the
  descriptor table is as before once it is closed.
\<close>

lemma same_slot:
  assumes "fdtab w' b = fdtab w a" and "ofiles w' = ofiles w" and "inodes w' = inodes w"
  shows "at_end w' b = at_end w a" and "rest_of w' b = rest_of w a" and "ino_of w' b = ino_of w a"
    and "data_of w' b = data_of w a" and "can_read w' b = can_read w a"
  using assms
  by (simp_all add: at_end_def rest_of_def ino_of_def data_of_def can_read_def fd_ofile_def fd_inode_def
      cong: option.case_cong)

lemma dup_views:
  assumes "sys_dup fd w = (d, w1)" and "d \<noteq> -1" and "world_ok w"
  shows "d = int (next_fd w)" and "fdtab w d = None" and "fdtab w fd \<noteq> None"
    and "fdtab w1 = (fdtab w)(d := fdtab w fd)"
    and "ofiles w1 = ofiles w" and "inodes w1 = inodes w" and "world_ok w1"
    and "names w1 = names w"
proof -
  obtain k where k: "fdtab w fd = Some k" "d = int (next_fd w)"
    "agree w1 (w\<lparr>fdtab := (fdtab w)(int (next_fd w) \<mapsto> k), next_fd := next_fd w + 1\<rparr>)"
    using sys_dup_spec [OF assms(1)] assms(2) by auto
  note f = agreeD [OF k(3)]
  show "d = int (next_fd w)" "fdtab w fd \<noteq> None" "fdtab w1 = (fdtab w)(d := fdtab w fd)"
    "ofiles w1 = ofiles w" "inodes w1 = inodes w" "names w1 = names w"
    using k f by simp_all
  show "fdtab w d = None"
    using world_ok_fd [OF assms(3), of d] k(2) by (cases "fdtab w d") auto
  have "world_ok (w\<lparr>fdtab := (fdtab w)(int (next_fd w) \<mapsto> k), next_fd := next_fd w + 1\<rparr>)"
    using assms(3) world_ok_fd [OF assms(3) k(1)] unfolding world_ok_def
    by (auto simp: less_Suc_eq) fastforce+
  then show "world_ok w1" using world_ok_agree [OF k(3)] by simp
qed

text \<open>\<open>w3\<close> is \<open>w2\<close> with the duplicate closed.\<close>

definition fd_closed :: "int \<Rightarrow> world \<Rightarrow> world \<Rightarrow> bool" where
  "fd_closed d w w' \<longleftrightarrow> agree w' (w\<lparr>fdtab := (fdtab w)(d := None)\<rparr>)"

lemma fd_closed_sys_close: "sys_close d w = (c, w') \<Longrightarrow> fd_closed d w w'"
  using sys_close_spec by (simp add: fd_closed_def)

lemma dup_closed:
  assumes "sys_dup fd w = (d, w1)" and "d \<noteq> -1" and "world_ok w"
    and "io_only D w1 w2" and "fd_closed d w2 w3"
  shows "io_only D w w3" and "fdtab w3 = (fdtab w2)(d := None)"
    and "ofiles w3 = ofiles w2" and "inodes w3 = inodes w2"
proof -
  note v = dup_views [OF assms(1-3)]
  note f = agreeD [OF assms(5) [unfolded fd_closed_def]]
  show "fdtab w3 = (fdtab w2)(d := None)" "ofiles w3 = ofiles w2" "inodes w3 = inodes w2"
    using f by simp_all
  obtain k where k: "agree w1 (w\<lparr>fdtab := (fdtab w)(int (next_fd w) \<mapsto> k), next_fd := next_fd w + 1\<rparr>)"
    using sys_dup_spec [OF assms(1)] assms(2) by auto
  note g = agreeD [OF k]
  have t: "(fdtab w)(d := None) = fdtab w" using v(2) by (simp add: fun_upd_idem)
  have "fdtab w3 = fdtab w"
    using f(4) io_onlyD(2) [OF assms(4)] v(4) t by simp
  then show "io_only D w w3"
    using assms(4) f g unfolding io_only_def by simp
qed

lemma sys_dup_clean:
  "clean w \<Longrightarrow> fdtab w fd = Some k \<Longrightarrow> sys_dup fd w = (d, w1) \<Longrightarrow> d \<noteq> -1 \<and> clean w1"
  by (auto simp: sys_dup_def syscall_clean)

lemma sys_close_clean: "clean w \<Longrightarrow> sys_close fd w = (r, w') \<Longrightarrow> clean w'"
  by (auto simp: sys_close_def next_outcome_clean fail_def split: if_splits)

lemma separate_fds: "separate w src dst \<Longrightarrow> fdtab w src \<noteq> None \<and> fdtab w dst \<noteq> None"
  by (auto simp: separate_def ino_of_def fd_ofile_def bind_eq_Some_conv)

text \<open>What is seen through a duplicate of the destination, or of the source, and after closing it.\<close>

lemma dup_dest:
  assumes "sys_dup dst w = (d, w1)" and "d \<noteq> -1" and "world_ok w" and "at_end w dst" and "separate w src dst"
  shows "at_end w1 d" and "separate w1 src d" and "rest_of w1 src = rest_of w src"
    and "data_of w1 d = data_of w dst" and "ino_of w1 d = ino_of w dst" and "can_read w1 src = can_read w src"
    and "io_only D w1 w2 \<Longrightarrow> at_end w2 d \<Longrightarrow> fd_closed d w2 w3 \<Longrightarrow>
      io_only D w w3 \<and> at_end w3 dst \<and> data_of w3 dst = data_of w2 d"
proof -
  note v = dup_views [OF assms(1-3)]
  have dd: "d \<noteq> dst" "d \<noteq> src" using v(2) separate_fds [OF assms(5)] by auto
  note vs = same_slot [of w1 src w src] and vd = same_slot [of w1 d w dst]
  show "at_end w1 d" "separate w1 src d" "rest_of w1 src = rest_of w src" "data_of w1 d = data_of w dst"
    "ino_of w1 d = ino_of w dst" "can_read w1 src = can_read w src"
    using assms(4,5) vs vd v dd by (simp_all add: separate_def)
  show "io_only D w w3 \<and> at_end w3 dst \<and> data_of w3 dst = data_of w2 d"
    if io: "io_only D w1 w2" and a: "at_end w2 d" and c: "fd_closed d w2 w3"
  proof -
    note dc = dup_closed [OF assms(1-3) io c]
    have "fdtab w3 dst = fdtab w2 d" using dc(2) dd io_onlyD(2) [OF io] v(4) by simp
    then show ?thesis using same_slot [OF _ dc(3,4)] dc(1) a by simp
  qed
qed

lemma dup_source:
  assumes "sys_dup src w = (d, w1)" and "d \<noteq> -1" and "world_ok w" and "at_end w dst" and "separate w src dst"
  shows "at_end w1 dst" and "separate w1 d dst" and "rest_of w1 d = rest_of w src"
    and "data_of w1 dst = data_of w dst" and "ino_of w1 dst = ino_of w dst" and "can_read w1 d = can_read w src"
    and "io_only D w1 w2 \<Longrightarrow> at_end w2 dst \<Longrightarrow> fd_closed d w2 w3 \<Longrightarrow>
      io_only D w w3 \<and> at_end w3 dst \<and> data_of w3 dst = data_of w2 dst"
proof -
  note v = dup_views [OF assms(1-3)]
  have dd: "d \<noteq> dst" "d \<noteq> src" using v(2) separate_fds [OF assms(5)] by auto
  note vs = same_slot [of w1 d w src] and vd = same_slot [of w1 dst w dst]
  show "at_end w1 dst" "separate w1 d dst" "rest_of w1 d = rest_of w src" "data_of w1 dst = data_of w dst"
    "ino_of w1 dst = ino_of w dst" "can_read w1 d = can_read w src"
    using assms(4,5) vs vd v dd by (simp_all add: separate_def)
  show "io_only D w w3 \<and> at_end w3 dst \<and> data_of w3 dst = data_of w2 dst"
    if io: "io_only D w1 w2" and a: "at_end w2 dst" and c: "fd_closed d w2 w3"
  proof -
    note dc = dup_closed [OF assms(1-3) io c]
    have "fdtab w3 dst = fdtab w2 dst" using dc(2) dd by simp
    then show ?thesis using same_slot [OF _ dc(3,4)] dc(1) a by simp
  qed
qed

section \<open>A module over a library\<close>

text \<open>\<open>op\<close>, \<open>rd\<close>, \<open>wr\<close> and \<open>cl\<close> are the library's; \<open>bad\<close> is the test made of what \<open>wr\<close> returns.\<close>

definition stream_compress ::
  "(int \<Rightarrow> string \<Rightarrow> world \<Rightarrow> ('s option \<times> world) option) \<Rightarrow>
   ('s \<Rightarrow> byte list \<Rightarrow> world \<Rightarrow> ((int \<times> 's) \<times> world) option) \<Rightarrow> (int \<Rightarrow> bool) \<Rightarrow>
   ('s \<Rightarrow> world \<Rightarrow> (int \<times> world) option) \<Rightarrow> string \<Rightarrow> file_t \<Rightarrow> int \<Rightarrow> int \<Rightarrow> world \<Rightarrow>
   (off \<times> file_t \<times> world) option" where
  "stream_compress op wr bad cl level cookie fd_source fd_dest w =
     (let (dup_fd, w1) = sys_dup fd_dest w
      in if dup_fd = -1 then Some (FAIL, cookie, w1)
         else do {
           (h, w2) \<leftarrow> op dup_fd level w1;
           case h of
             None \<Rightarrow> do { (_, w3) \<leftarrow> file_close dup_fd w2; Some (FAIL, cookie, w3) }
           | Some s \<Rightarrow> do {
               ((size, s', cookie'), w3) \<leftarrow> compress_loop wr bad s cookie fd_source 0 w2;
               (_, w4) \<leftarrow> cl s' w3;
               Some (size, cookie', w4)
             }
         })"

definition stream_decompress ::
  "(int \<Rightarrow> string \<Rightarrow> world \<Rightarrow> ('s option \<times> world) option) \<Rightarrow>
   ('s \<Rightarrow> world \<Rightarrow> ((int \<times> byte list \<times> 's) \<times> world) option) \<Rightarrow>
   ('s \<Rightarrow> world \<Rightarrow> (int \<times> world) option) \<Rightarrow> int \<Rightarrow> int \<Rightarrow> world \<Rightarrow> (off \<times> world) option" where
  "stream_decompress op rd cl fd_source fd_dest w =
     (let (dup_fd, w1) = sys_dup fd_source w
      in if dup_fd = -1 then Some (FAIL, w1)
         else do {
           (h, w2) \<leftarrow> op dup_fd ''rb'' w1;
           case h of
             None \<Rightarrow> do { (_, w3) \<leftarrow> file_close dup_fd w2; Some (FAIL, w3) }
           | Some s \<Rightarrow> do {
               ((size, s'), w3) \<leftarrow> copy_loop rd s fd_dest 0 w2;
               (_, w4) \<leftarrow> cl s' w3;
               Some (size, w4)
             }
         })"

text \<open>
  The library. A stream is opened on the descriptor \<open>fd\<close>; opening does not touch the file. In mode
  \<^verbatim>\<open>rb\<close> it is a source whose bytes are decoded with \<open>decode\<close>, in a mode that is \<open>ready\<close> a sink.
  Closing a sink writes what is still in its buffers, and then the file decodes to what was written.
\<close>

locale stream_library = source_stream rd rok fd left buffered + sink_stream wr wok fd stored
  for rd wr rok wok fd left buffered stored +
  fixes op :: "int \<Rightarrow> string \<Rightarrow> world \<Rightarrow> ('a option \<times> world) option"
    and cl :: "'a \<Rightarrow> world \<Rightarrow> (int \<times> world) option"
    and decode :: "byte list \<Rightarrow> byte list option"
    and ready :: "string \<Rightarrow> bool"
  assumes open_total: "m = ''rb'' \<or> ready m \<Longrightarrow> \<exists>h w'. op d m w = Some (h, w') \<and> agree w' w \<and> (clean w \<and> 0 \<le> d \<longrightarrow> h \<noteq> None \<and> clean w')"
    and open_read: "op d ''rb'' w = Some (Some s, w') \<Longrightarrow> rok s \<and> fd s = d \<and> left s = decode"
    and open_write: "ready m \<Longrightarrow> op d m w = Some (Some s, w') \<Longrightarrow> wok s \<and> fd s = d \<and> stored s [] []"
    and close_read: "rok s \<Longrightarrow> \<exists>r w'. cl s w = Some (r, w') \<and> fd_closed (fd s) w w' \<and> (clean w \<longrightarrow> clean w')"
    and close_write: "wok s \<Longrightarrow> \<exists>r w1 w'. cl s w = Some (r, w') \<and> appends src (fd s) w w1 \<and> fd_closed (fd s) w1 w' \<and>
      (clean w \<and> at_end w (fd s) \<longrightarrow> clean w' \<and>
        (\<forall>data bytes. stored s data bytes \<longrightarrow>
          (\<exists>new. data_of w1 (fd s) = data_of w (fd s) @ new \<and> decode (bytes @ new) = Some data)))"
begin

lemma decompress_spec:
  assumes "world_ok w" and "at_end w dst" and "separate w src dst"
  shows "\<exists>r w'. stream_decompress op rd cl src dst w = Some (r, w') \<and>
    io_only (set_option (ino_of w dst)) w w' \<and> at_end w' dst \<and>
    (r \<noteq> FAIL \<longrightarrow> (\<exists>out. decode (rest_of w src) = Some out \<and> 0 \<le> r \<and> r \<le> int (length out) \<and>
        (r = int (length out) \<longrightarrow> data_of w' dst = data_of w dst @ out))) \<and>
    (clean w \<and> can_read w src \<longrightarrow> (\<forall>out. decode (rest_of w src) = Some out \<longrightarrow>
        r = int (length out) \<and> clean w'))"
proof -
  obtain d w1 where du: "sys_dup src w = (d, w1)" by fastforce
  obtain n where n: "ino_of w dst = Some n" using at_end_ino [OF assms(2)] by blast
  show ?thesis
  proof (cases "d = -1")
    case True
    then have a: "agree w1 w" using sys_dup_spec [OF du] by auto
    have "\<not> (clean w \<and> can_read w src)"
      using sys_dup_clean [OF _ _ du] True by (auto simp: can_read_def)
    then show ?thesis
      using du True io_only_agree [OF a] agree_views(1) [OF a] assms(2) by (auto simp: stream_decompress_def)
  next
    case False
    note v = dup_views [OF du False assms(1)]
    note fds = separate_fds [OF assms(3)]
    have dd: "d \<noteq> dst" "d \<noteq> src" "d \<noteq> FAIL" "FAIL < d" using v(1,2) fds by auto
    obtain h w2 where op: "op d ''rb'' w1 = Some (h, w2)" "agree w2 w1" "clean w1 \<longrightarrow> h \<noteq> None \<and> clean w2"
      using open_total [of "''rb''" d w1] v(1) by auto
    note g = agreeD [OF op(2)]
    have t2: "fdtab w2 = (fdtab w)(d := fdtab w src)" "ofiles w2 = ofiles w" "inodes w2 = inodes w"
      using v g by simp_all
    note vs = same_slot [of w2 d w src] and vd = same_slot [of w2 dst w dst]
    have io12: "io_only D w1 w2" for D by (rule io_only_agree [OF op(2)])
    have c1: "clean w1" if "clean w"
      using fds sys_dup_clean [OF that _ du] by auto
    show ?thesis
    proof (cases h)
      case None
      obtain c w3 where cl: "sys_close d w2 = (c, w3)" by fastforce
      note dc = dup_closed [OF du False assms(1) io12 fd_closed_sys_close [OF cl]]
      have "fdtab w3 dst = fdtab w dst" "ofiles w3 = ofiles w" "inodes w3 = inodes w" using dc(2-4) t2 dd by simp_all
      note v3 = same_slot [OF this]
      have "stream_decompress op rd cl src dst w = Some (FAIL, w3)"
        using du False op(1) None cl dd by (simp add: stream_decompress_def file_close_def)
      moreover have "\<not> clean w" using op(3) None c1 by auto
      ultimately show ?thesis using dc(1) v3 assms(2) by auto
    next
      case (Some s)
      have s: "rok s" "fd s = d" "left s = decode" using open_read [of d w1 s w2] op(1) Some by auto
      have s2: "separate w2 (fd s) dst"
        using assms(3) vs(3) vd(3) t2 dd s(2) by (simp add: separate_def)
      have a2: "at_end w2 dst" and n2: "ino_of w2 dst = Some n" and data2: "data_of w2 dst = data_of w dst"
        using vd t2 dd assms(2) n by simp_all
      have r2: "rest_of w2 (fd s) = rest_of w src" using vs t2 s(2) by simp
      obtain r s' w3 where l: "copy_loop rd s dst 0 w2 = Some ((r, s'), w3)"
        "rok s'" "fd s' = d" "io_only {n} w2 w3" "at_end w3 dst"
        "r = -1 \<or> (\<exists>out. decode (rest_of w src) = Some out \<and> 0 \<le> r \<and> r \<le> int (length out) \<and>
          (r = int (length out) \<longrightarrow> data_of w3 dst = data_of w dst @ out))"
        using copy_loop_spec [OF s(1) a2 s2 n2, of 0] s(2,3) r2 data2 by auto
      obtain c w4 where cl: "cl s' w3 = Some (c, w4)" "fd_closed d w3 w4" "clean w3 \<longrightarrow> clean w4"
        using close_read [OF l(2), of w3] l(3) by auto
      note dc = dup_closed [OF du False assms(1) io_only_trans [OF io12 l(4)] cl(2)]
      have run: "stream_decompress op rd cl src dst w = Some (r, w4)"
        using du False op(1) Some l(1) cl(1) by (simp add: stream_decompress_def)
      have "fdtab w4 dst = fdtab w3 dst" using dc(2) dd by simp
      note v3 = same_slot [OF this dc(3,4)]
      have "r = int (length out) \<and> clean w4"
        if c: "clean w" "can_read w src" "decode (rest_of w src) = Some out" for out
      proof -
        have "clean w2" using op(3) c1 c(1) by blast
        moreover have "can_read w2 (fd s)" using vs(5) t2 c(2) s(2) by simp
        ultimately show ?thesis
          using copy_loop_clean [OF s(1) a2 s2, of out 0] r2 s(3) c(3) l(1) cl(3) by auto
      qed
      then show ?thesis using run dc(1) n v3 l(5,6) by auto
    qed
  qed
qed

lemma compress_spec:
  assumes "ready level" and "\<And>r. 0 < r \<Longrightarrow> \<not> bad r"
    and "world_ok w" and "at_end w dst" and "separate w src dst"
  shows "\<exists>r g' w'. stream_compress op wr bad cl level g src dst w = Some (r, g', w') \<and> may_cancel g g' \<and>
    io_only (set_option (ino_of w dst)) w w' \<and> at_end w' dst \<and>
    (clean w \<and> can_read w src \<longrightarrow> clean w' \<and>
      (CANCEL \<in> status g' \<or>
       r = int (length (rest_of w src)) \<and>
       (\<exists>enc. data_of w' dst = data_of w dst @ enc \<and> decode enc = Some (rest_of w src))))"
proof -
  obtain d w1 where du: "sys_dup dst w = (d, w1)" by fastforce
  let ?D = "set_option (ino_of w dst)"
  note fds = separate_fds [OF assms(5)]
  have c1: "d \<noteq> -1 \<and> clean w1" if "clean w"
    using fds sys_dup_clean [OF that _ du] by auto
  show ?thesis
  proof (cases "d = -1")
    case True
    then have a: "agree w1 w" using sys_dup_spec [OF du] by auto
    show ?thesis
      using du True io_only_agree [OF a] agree_views(1) [OF a] assms(4) c1 by (auto simp: stream_compress_def)
  next
    case False
    note v = dup_views [OF du False assms(3)]
    have dd: "d \<noteq> dst" "d \<noteq> src" "FAIL < d" using v(1,2) fds by auto
    obtain h w2 where op: "op d level w1 = Some (h, w2)" "agree w2 w1" "clean w1 \<longrightarrow> h \<noteq> None \<and> clean w2"
      using open_total [of level d w1] assms(1) v(1) by auto
    note g = agreeD [OF op(2)]
    have t2: "fdtab w2 = (fdtab w)(d := fdtab w dst)" "ofiles w2 = ofiles w" "inodes w2 = inodes w"
      using v g by simp_all
    note vs = same_slot [of w2 src w src] and vd = same_slot [of w2 d w dst]
    have io12: "io_only D w1 w2" for D by (rule io_only_agree [OF op(2)])
    show ?thesis
    proof (cases h)
      case None
      obtain c w3 where cl: "sys_close d w2 = (c, w3)" by fastforce
      note dc = dup_closed [OF du False assms(3) io12 fd_closed_sys_close [OF cl]]
      have "fdtab w3 dst = fdtab w dst" "ofiles w3 = ofiles w" "inodes w3 = inodes w" using dc(2-4) t2 dd by simp_all
      note v3 = same_slot [OF this]
      have "stream_compress op wr bad cl level g src dst w = Some (FAIL, g, w3)"
        using du False op(1) None cl dd by (simp add: stream_compress_def file_close_def)
      moreover have "\<not> clean w" using op(3) None c1 by auto
      ultimately show ?thesis using dc(1) v3 assms(4) by auto
    next
      case (Some s)
      have s: "wok s" "fd s = d" "stored s [] []" using open_write [OF assms(1), of d w1 s w2] op(1) Some by auto
      have s2: "separate w2 src (fd s)" and a2: "at_end w2 (fd s)" and n2: "ino_of w2 d = ino_of w dst"
        and r2: "rest_of w2 src = rest_of w src"
        using assms(4,5) vs vd t2 dd s(2) by (simp_all add: separate_def)
      obtain r s' g' w3 where l: "compress_loop wr bad s g src 0 w2 = Some ((r, s', g'), w3)"
        "wok s'" "fd s' = d" "may_cancel g g'" "io_only ?D w2 w3" "at_end w3 d"
        using compress_loop_total [OF s(1) a2 s2, of bad g 0] s(2) n2 by auto
      obtain x w3' w4 where cl: "cl s' w3 = Some (x, w4)" "appends src d w3 w3'" "fd_closed d w3' w4"
        "clean w3 \<and> at_end w3 d \<longrightarrow> clean w4 \<and> (\<forall>data bytes. stored s' data bytes \<longrightarrow>
          (\<exists>new. data_of w3' d = data_of w3 d @ new \<and> decode (bytes @ new) = Some data))"
        using close_write [OF l(2), of w3 src] l(3) by auto
      have io23: "separate w3 src d" "ino_of w3 d = ino_of w dst"
        using io_only_separate [OF l(5)] s2 io_only_ino_of [OF l(5)] n2 s(2) by simp_all
      have a3: "io_only ?D w3 w3'" "at_end w3' d"
        using cl(2) l(6) io23 by (simp_all add: appends_def)
      have io: "io_only ?D w1 w3'" by (rule io_only_trans [OF io12 io_only_trans [OF l(5) a3(1)]])
      note dc = dup_closed [OF du False assms(3) io cl(3)]
      have run: "stream_compress op wr bad cl level g src dst w = Some (r, g', w4)"
        using du False op(1) Some l(1) cl(1) by (simp add: stream_compress_def)
      have "fdtab w3' d = fdtab w3' dst"
        using io_onlyD(2) [OF io] v(4) dd by simp
      moreover have "fdtab w4 dst = fdtab w3' dst" using dc(2) dd by simp
      ultimately have "fdtab w4 dst = fdtab w3' d" by simp
      note v4 = same_slot [OF this dc(3,4)]
      have "clean w4 \<and> (CANCEL \<in> status g' \<or>
         r = int (length (rest_of w src)) \<and>
         (\<exists>enc. data_of w4 dst = data_of w dst @ enc \<and> decode enc = Some (rest_of w src)))"
        if c: "clean w" "can_read w src"
      proof -
        have c2: "clean w2" using op(3) c1 [OF c(1)] by blast
        have cr2: "can_read w2 src" using vs(5) t2 dd c(2) by simp
        have "\<exists>r s' f' w' new. compress_loop wr bad s g src 0 w2 = Some ((r, s', f'), w') \<and> clean w' \<and>
          (CANCEL \<in> status f' \<or> r = 0 + int (length (rest_of w2 src)) \<and>
           data_of w' (fd s) = data_of w2 (fd s) @ new \<and> stored s' ([] @ rest_of w2 src) ([] @ new))"
          by (rule compress_loop_clean [OF s(1) a2 s2 c2 cr2 s(3) assms(2)])
        then obtain new where l0: "clean w3" "CANCEL \<in> status g' \<or> r = int (length (rest_of w src)) \<and>
           data_of w3 d = data_of w dst @ new \<and> stored s' (rest_of w src) new"
          using l(1) r2 s(2) vd(4) t2 by auto
        with cl(4) l(6) v4(4) show ?thesis by fastforce
      qed
      then show ?thesis using run dc(1) v4(1) a3(2) l(4) by auto
    qed
  qed
qed

lemma codec:
  assumes "\<And>r. 0 < r \<Longrightarrow> \<not> bad r"
  shows "codec_module (stream_decompress op rd cl) decode (stream_compress op wr bad cl level) (ready level)"
proof
  fix w w' :: world and src dst r
  assume a: "world_ok w" "at_end w dst" "separate w src dst"
  note sp = decompress_spec [OF a]
  show "\<exists>r w'. stream_decompress op rd cl src dst w = Some (r, w') \<and> io_only (set_option (ino_of w dst)) w w' \<and> at_end w' dst"
    using sp by blast
  assume d: "stream_decompress op rd cl src dst w = Some (r, w')"
  show "\<exists>out. decode (rest_of w src) = Some out \<and> 0 \<le> r \<and> r \<le> int (length out) \<and>
      (r = int (length out) \<longrightarrow> data_of w' dst = data_of w dst @ out)" if "r \<noteq> FAIL"
    using sp d that by auto
  show "r = int (length out) \<and> clean w'"
    if "clean w" "can_read w src" "decode (rest_of w src) = Some out" for out
    using sp d that by auto
next
  fix w w' :: world and src dst r f f'
  assume ok: "ready level" and a: "world_ok w" "at_end w dst" "separate w src dst"
  note sp = compress_spec [where bad = bad and g = f, OF ok assms a]
  show "\<exists>r f' w'. stream_compress op wr bad cl level f src dst w = Some (r, f', w') \<and> may_cancel f f' \<and>
      io_only (set_option (ino_of w dst)) w w' \<and> at_end w' dst"
    using sp by blast
  assume "stream_compress op wr bad cl level f src dst w = Some (r, f', w')" "clean w" "can_read w src"
  then show "clean w' \<and> (CANCEL \<in> status f' \<or> r = int (length (rest_of w src)) \<and>
      (\<exists>enc. data_of w' dst = data_of w dst @ enc \<and> decode enc = Some (rest_of w src)))"
    using sp by auto
qed

end

end
