(* ===== verification/Modules.thy ===== *)
theory Modules
  imports StreamModule
begin

text \<open>
  The compression modules \<^verbatim>\<open>compress_null.c\<close> and \<^verbatim>\<open>compress_lzo.c\<close>, as entries of the table
  of compressors, and the proof that both keep the contract \<open>codec_module\<close>:
  compression and decompression return for every fault script and change the
  destination's data only, decompression's result can be trusted, and without
  faults compression produces what decompression undoes.

  The buffers of 4096 bytes are those of \<open>fd_read\<close> and \<open>lzo_read\<close>. \<open>level\<close> is the string
  \<open>compresslevel\<close> that \<open>COMPRESSLEVEL_BACKGROUND\<close> stands for.
\<close>

section \<open>compress_null.c\<close>

text \<open>The handle is the descriptor cast to a pointer: descriptor 0 is NULL.\<close>

definition nullOpen :: "int \<Rightarrow> string \<Rightarrow> world \<Rightarrow> (handle option \<times> world) option" where
  "nullOpen fd mode w = Some (if fd = 0 then None else Some (HFd fd), w)"

text \<open>\<open>wr\<close> is unsigned and compared with 0 only, so the -1 of a failed write passes.\<close>

definition nullCompress :: "file_t \<Rightarrow> int \<Rightarrow> int \<Rightarrow> world \<Rightarrow> (off \<times> file_t \<times> world) option" where
  "nullCompress cookie fd_source fd_dest w = do {
     ((size, _, cookie'), w') \<leftarrow> compress_loop fd_write (\<lambda>wr. wr = 0) fd_dest cookie fd_source 0 w;
     Some (size, cookie', w')
   }"

definition nullDecompress :: "int \<Rightarrow> int \<Rightarrow> world \<Rightarrow> (off \<times> world) option" where
  "nullDecompress fd_source fd_dest w = do {
     ((size, _), w') \<leftarrow> copy_loop fd_read fd_source fd_dest 0 w;
     Some (size, w')
   }"

definition module_null :: compressor_t where
  "module_null =
     \<lparr>ctype = 0, cname = ''null'', compress = nullCompress, decompress = nullDecompress,
      copen = nullOpen,
      cclose = (\<lambda>h w. case h of HFd fd \<Rightarrow> Some (sys_close fd w) | _ \<Rightarrow> None),
      cread = (\<lambda>h n w. case h of
         HFd fd \<Rightarrow> (let ((r, bs), w') = sys_read fd n w in Some ((r, bs, h), w'))
       | _ \<Rightarrow> None),
      cwrite = (\<lambda>h bs w. case h of
         HFd fd \<Rightarrow> (let (r, w') = sys_write fd bs w in Some ((r, h), w'))
       | _ \<Rightarrow> None)\<rparr>"

section \<open>compress_lzo.c\<close>

definition lzoClose :: "lzo_lib \<Rightarrow> lzoFile \<Rightarrow> world \<Rightarrow> (int \<times> world) option" where
  "lzoClose lib f w = lzoclose lib f w"

definition lzoCompress :: "lzo_lib \<Rightarrow> string \<Rightarrow> file_t \<Rightarrow> int \<Rightarrow> int \<Rightarrow> world \<Rightarrow> (off \<times> file_t \<times> world) option" where
  "lzoCompress lib level cookie fd_source fd_dest w =
     (let (dup_fd, w1) = sys_dup fd_dest w
      in if dup_fd = -1 then Some (FAIL, cookie, w1)
         else do {
           ((size, fd_lzo, cookie'), w2) \<leftarrow>
             compress_loop (lzo_write lib) (\<lambda>wr. wr = 0) (lzodopen dup_fd level) cookie fd_source 0 w1;
           (_, w3) \<leftarrow> lzoClose lib fd_lzo w2;
           Some (size, cookie', w3)
         })"

definition lzoDecompress :: "lzo_lib \<Rightarrow> int \<Rightarrow> int \<Rightarrow> world \<Rightarrow> (off \<times> world) option" where
  "lzoDecompress lib fd_source fd_dest w =
     (let (dup_fd, w1) = sys_dup fd_source w
      in if dup_fd = -1 then Some (FAIL, w1)
         else do {
           ((size, fd_lzo), w2) \<leftarrow> copy_loop (lzo_read lib) (lzodopen dup_fd ''rb'') fd_dest 0 w1;
           (_, w3) \<leftarrow> lzoClose lib fd_lzo w2;
           Some (size, w3)
         })"

definition module_lzo :: "lzo_lib \<Rightarrow> string \<Rightarrow> compressor_t" where
  "module_lzo lib level =
     \<lparr>ctype = 3, cname = ''lzo'', compress = lzoCompress lib level, decompress = lzoDecompress lib,
      copen = (\<lambda>fd mode w. Some (Some (HLzo (lzodopen fd mode)), w)),
      cclose = (\<lambda>h w. case h of HLzo f \<Rightarrow> lzoClose lib f w | _ \<Rightarrow> None),
      cread = (\<lambda>h n w. case h of
         HLzo f \<Rightarrow> do { ((r, bs, f'), w') \<leftarrow> lzoread lib f n w; Some ((r, bs, HLzo f'), w') }
       | _ \<Rightarrow> None),
      cwrite = (\<lambda>h bs w. case h of
         HLzo f \<Rightarrow> do { ((r, f'), w') \<leftarrow> lzowrite lib f bs w; Some ((r, HLzo f'), w') }
       | _ \<Rightarrow> None)\<rparr>"

section \<open>The null module keeps it\<close>

interpretation null_codec: codec_module nullDecompress Some nullCompress True
proof
  fix w :: world and src dst
  assume a: "at_end w dst" and s: "separate w src dst"
  obtain n where n: "ino_of w dst = Some n" using at_end_ino [OF a] by blast
  obtain r s' w' where l: "copy_loop fd_read src dst 0 w = Some ((r, s'), w')" "io_only {n} w w'" "at_end w' dst"
    "r = -1 \<or> (0 \<le> r \<and> r \<le> int (length (rest_of w src)) \<and>
       (r = int (length (rest_of w src)) \<longrightarrow> data_of w' dst = data_of w dst @ rest_of w src))"
    using plain.copy_loop_spec [OF TrueI a s n, of 0] by auto
  show "\<exists>r w'. nullDecompress src dst w = Some (r, w') \<and> io_only (set_option (ino_of w dst)) w w' \<and> at_end w' dst"
    using l n by (auto simp: nullDecompress_def)
  show "\<exists>out. Some (rest_of w src) = Some out \<and> 0 \<le> r \<and> r \<le> int (length out) \<and>
        (r = int (length out) \<longrightarrow> data_of w' dst = data_of w dst @ out)"
    if "nullDecompress src dst w = Some (r, w')" "r \<noteq> FAIL" for r w'
    using l that by (auto simp: nullDecompress_def)
  show "r = int (length out) \<and> clean w'"
    if "nullDecompress src dst w = Some (r, w')" "clean w" "can_read w src" "Some (rest_of w src) = Some out"
    for r w' out
    using plain.copy_loop_clean [OF TrueI a s that(2,3,4), of 0] that(1) by (auto simp: nullDecompress_def)
  show "\<exists>r f' w'. nullCompress f src dst w = Some (r, f', w') \<and> may_cancel f f' \<and>
        io_only (set_option (ino_of w dst)) w w' \<and> at_end w' dst" for f
    using plain_sink.compress_loop_total [OF TrueI a s, of "\<lambda>wr. wr = 0" f 0] by (auto simp: nullCompress_def)
  show "clean w' \<and>
      (CANCEL \<in> status f' \<or>
       r = int (length (rest_of w src)) \<and>
       (\<exists>enc. data_of w' dst = data_of w dst @ enc \<and> Some enc = Some (rest_of w src)))"
    if "nullCompress f src dst w = Some (r, f', w')" "clean w" "can_read w src" for f r f' w'
  proof -
    have "\<exists>r s' f' w' new. compress_loop fd_write (\<lambda>wr. wr = 0) dst f src 0 w = Some ((r, s', f'), w') \<and> clean w' \<and>
      (CANCEL \<in> status f' \<or>
       r = 0 + int (length (rest_of w src)) \<and>
       data_of w' dst = data_of w dst @ new \<and> [] @ new = [] @ rest_of w src)"
      by (rule plain_sink.compress_loop_clean [OF TrueI a s that(2,3)]) auto
    then show ?thesis using that(1) by (auto simp: nullCompress_def)
  qed
qed

section \<open>The lzo module keeps it\<close>

text \<open>The block stream of \<^verbatim>\<open>minilzo/lzo.c\<close> as a stream library.\<close>

lemma lzoClose_reader:
  "lmode f = LZO_READ \<Longrightarrow> lzoClose lib f w = Some (sys_close (lfd f) w)"
  by (simp add: lzoClose_def lzoclose_def)

lemma lzo_stored_decode:
  assumes "lzo_stored lib f data bytes" and "writer_ok f" and "lzo_lib_ok lib"
  shows "lzo_decode lib 0 (bytes @ stream lib [waiting f]) = Some data"
proof -
  obtain chunks where ch: "bytes = stream lib chunks" "data = concat chunks @ waiting f"
    "\<forall>c \<in> set chunks. length c = WRITE_BUFFER_SIZE" "data \<noteq> [] \<longrightarrow> waiting f \<noteq> []"
    using assms(1) unfolding lzo_stored_def by blast
  have full: "\<forall>c \<in> set chunks. length c < 2 ^ 64 \<and> c \<noteq> []" using ch(3) by auto
  have "lzo_decode lib 0 (stream lib (chunks @ [waiting f])) = Some (concat chunks @ waiting f)"
  proof (rule lzo_decode_stream [OF assms(3) full])
    show "length (waiting f) < 2 ^ 64"
      using length_waiting [OF assms(2)] assms(2) by (simp add: writer_ok_def)
    show "waiting f = [] \<longrightarrow> chunks = [] \<and> 0 = (0::nat)"
    proof (cases chunks)
      case (Cons a list)
      then have "data \<noteq> []" using ch(2) full by auto
      then show ?thesis using ch(4) by blast
    qed simp
  qed
  then show ?thesis using ch(1,2) by (simp add: stream_append)
qed

lemma lzoClose_writer:
  assumes "writer_ok f" and "lzo_lib_ok lib"
  shows "\<exists>r w1 w'. lzoClose lib f w = Some (r, w') \<and> appends src (lfd f) w w1 \<and> fd_closed (lfd f) w1 w' \<and>
    (clean w \<and> at_end w (lfd f) \<longrightarrow> clean w' \<and>
      (\<forall>data bytes. lzo_stored lib f data bytes \<longrightarrow>
        (\<exists>new. data_of w1 (lfd f) = data_of w (lfd f) @ new \<and> lzo_decode lib 0 (bytes @ new) = Some data)))"
proof -
  obtain x w1 where wb: "lzowriteblock lib (lfd f) (block f) w = Some (x, w1)" "appends src (lfd f) w w1"
    using lzowriteblock_frame [OF assms, of w src] by auto
  obtain c w' where cl: "sys_close (lfd f) w1 = (c, w')" by fastforce
  have close: "lzoClose lib f w = Some (c, w')"
    using assms(1) wb(1) cl by (simp add: lzoClose_def lzoclose_def writer_ok_def)
  have "clean w' \<and> (\<forall>data bytes. lzo_stored lib f data bytes \<longrightarrow>
      (\<exists>new. data_of w1 (lfd f) = data_of w (lfd f) @ new \<and> lzo_decode lib 0 (bytes @ new) = Some data))"
    if c: "clean w" "at_end w (lfd f)"
  proof -
    have w1: "w1 = emit lib (lfd f) [waiting f] w"
      using flush_clean [of w f lib] c assms wb(1) by simp
    have "clean w'" by (rule sys_close_clean [OF _ cl]) (use c(1) w1 in simp)
    moreover have "data_of w1 (lfd f) = data_of w (lfd f) @ stream lib [waiting f]"
      using w1 emit_data [OF c(2)] by blast
    ultimately show ?thesis using lzo_stored_decode [OF _ assms] by blast
  qed
  then show ?thesis using close wb(2) fd_closed_sys_close [OF cl] by auto
qed

interpretation lzo_library: stream_library "lzo_read lib" "lzo_write lib"
  "\<lambda>f. reader_ok f \<and> lmode f = LZO_READ" "\<lambda>f. writer_ok f \<and> lzo_lib_ok lib" lfd "lzo_left lib"
  "\<lambda>f. length (pending f)" "lzo_stored lib" "\<lambda>fd mode w. Some (Some (lzodopen fd mode), w)" "lzoClose lib"
  "lzo_decode lib 0" "\<lambda>level. lzo_lib_ok lib \<and> CHR ''r'' \<notin> set level"
  for lib
proof unfold_locales
  fix d and w w' :: world and s
  assume "Some (Some (lzodopen d ''rb''), w) = Some (Some s, w')"
  then show "(reader_ok s \<and> lmode s = LZO_READ) \<and> lfd s = d \<and> lzo_left lib s = lzo_decode lib 0"
    using reader_ok_open [of "''rb''" d] by (auto simp: lzodopen_def lzo_left_def pending_def)
next
  fix d m and w w' :: world and s
  assume r: "lzo_lib_ok lib \<and> CHR ''r'' \<notin> set m" and "Some (Some (lzodopen d m), w) = Some (Some s, w')"
  then have s: "s = lzodopen d m" by simp
  have "lzo_stored lib s [] []"
    unfolding lzo_stored_def s
    by (rule exI [of _ "[]"]) (use lzodopen_writer_ok [of m d] r in \<open>simp add: stream_def\<close>)
  then show "(writer_ok s \<and> lzo_lib_ok lib) \<and> lfd s = d \<and> lzo_stored lib s [] []"
    using lzodopen_writer_ok [of m d] r s by simp
next
  fix s :: lzoFile and w :: world
  assume "reader_ok s \<and> lmode s = LZO_READ"
  then show "\<exists>r w'. lzoClose lib s w = Some (r, w') \<and> fd_closed (lfd s) w w' \<and> (clean w \<longrightarrow> clean w')"
    using fd_closed_sys_close sys_close_clean lzoClose_reader by (metis prod.exhaust)
next
  fix s :: lzoFile and w :: world and src
  assume "writer_ok s \<and> lzo_lib_ok lib"
  then show "\<exists>r w1 w'. lzoClose lib s w = Some (r, w') \<and> appends src (lfd s) w w1 \<and> fd_closed (lfd s) w1 w' \<and>
    (clean w \<and> at_end w (lfd s) \<longrightarrow> clean w' \<and>
      (\<forall>data bytes. lzo_stored lib s data bytes \<longrightarrow>
        (\<exists>new. data_of w1 (lfd s) = data_of w (lfd s) @ new \<and> lzo_decode lib 0 (bytes @ new) = Some data)))"
    using lzoClose_writer by blast
qed auto

lemma lzoCompress_stream:
  "lzoCompress lib level =
    stream_compress (\<lambda>fd mode w. Some (Some (lzodopen fd mode), w)) (lzo_write lib) (\<lambda>wr. wr = 0) (lzoClose lib) level"
  by (simp add: fun_eq_iff lzoCompress_def stream_compress_def split: prod.split)

lemma lzoDecompress_stream:
  "lzoDecompress lib = stream_decompress (\<lambda>fd mode w. Some (Some (lzodopen fd mode), w)) (lzo_read lib) (lzoClose lib)"
  by (simp add: fun_eq_iff lzoDecompress_def stream_decompress_def split: prod.split)

interpretation lzo_codec: codec_module "lzoDecompress lib" "lzo_decode lib 0" "lzoCompress lib level"
  "lzo_lib_ok lib \<and> CHR ''r'' \<notin> set level"
  for lib level
  unfolding lzoCompress_stream lzoDecompress_stream by (rule lzo_library.codec) simp

end
