(* ===== verification/DedupDb.thy ===== *)
theory DedupDb
  imports FileFormat "HOL-Library.Multiset"
begin

text \<open>
  The deduplication database of \<^verbatim>\<open>dedup.c\<close>: entries (file name, MD5 sum) that sit in two
  hash tables at once, one by the hash of the name and one by the MD5 sum.

  An entry is known by an index into \<open>dps\<close>, which stands for its address; the two tables
  hold lists of indices, as the buckets of the C tables are lists threaded through the
  entries. \<open>dedup_ok\<close> is the invariant that ties the two together, and \<open>pairs\<close> the
  abstract value: the multiset of (name, sum) pairs.

  A result \<open>None\<close> is a read outside an object (the hash of an empty name).
\<close>

record dedup_t =
  dp_filename :: string
  dp_filename_hash :: u32
  dp_md5 :: "byte list"

record dedup_db =
  dps :: "nat \<Rightarrow> dedup_t option"
  head_filename :: "u16 \<Rightarrow> nat list"
  head_md5 :: "u16 \<Rightarrow> nat list"
  entries :: int
  next_dp :: nat

definition dedup_init_db :: dedup_db where
  "dedup_init_db = \<lparr>dps = (\<lambda>_. None), head_filename = (\<lambda>_. []), head_md5 = (\<lambda>_. []),
     entries = 0, next_dp = 0\<rparr>"

section \<open>Operations\<close>

text \<open>\<open>*(uint16_t *)md5\<close> on a little-endian machine.\<close>

definition md5_to_hash :: "byte list \<Rightarrow> u16" where
  "md5_to_hash md5 = of_nat (le_val (take 2 md5))"

text \<open>\<open>hash & DATABASE_HASH_MASK\<close>\<close>

definition name_bucket :: "u32 \<Rightarrow> u16" where
  "name_bucket h = ucast h"

text \<open>The two \<open>list_add_tail\<close> of an entry, and the two \<open>list_del\<close>.\<close>

definition link_dp :: "nat \<Rightarrow> dedup_t \<Rightarrow> dedup_db \<Rightarrow> dedup_db" where
  "link_dp i dp db =
     (let b = name_bucket (dp_filename_hash dp); m = md5_to_hash (dp_md5 dp)
      in db\<lparr>dps := (dps db)(i \<mapsto> dp),
            head_filename := (head_filename db)(b := head_filename db b @ [i]),
            head_md5 := (head_md5 db)(m := head_md5 db m @ [i])\<rparr>)"

definition unlink_dp :: "nat \<Rightarrow> dedup_t \<Rightarrow> dedup_db \<Rightarrow> dedup_db" where
  "unlink_dp i dp db =
     (let b = name_bucket (dp_filename_hash dp); m = md5_to_hash (dp_md5 dp)
      in db\<lparr>dps := (dps db)(i := None),
            head_filename := (head_filename db)(b := remove1 i (head_filename db b)),
            head_md5 := (head_md5 db)(m := remove1 i (head_md5 db m))\<rparr>)"

definition new_dp :: "dedup_t \<Rightarrow> dedup_db \<Rightarrow> dedup_db" where
  "new_dp dp db =
     (let db1 = link_dp (next_dp db) dp db
      in db1\<lparr>entries := entries db1 + 1, next_dp := next_dp db1 + 1\<rparr>)"

definition dedup_add :: "byte list \<Rightarrow> string \<Rightarrow> dedup_db \<Rightarrow> dedup_db option" where
  "dedup_add md5 fn db = do {
     (h, _) \<leftarrow> gethash fn;
     Some (new_dp \<lparr>dp_filename = fn, dp_filename_hash = h, dp_md5 = md5\<rparr> db)
   }"

text \<open>The first entry of a bucket with a property: the \<open>list_for_each_entry\<close> searches.\<close>

definition find_dp :: "(dedup_t \<Rightarrow> bool) \<Rightarrow> nat list \<Rightarrow> dedup_db \<Rightarrow> (nat \<times> dedup_t) option" where
  "find_dp P bucket db =
     (case find (\<lambda>i. case dps db i of None \<Rightarrow> False | Some dp \<Rightarrow> P dp) bucket of
        None \<Rightarrow> None
      | Some i \<Rightarrow> map_option (Pair i) (dps db i))"

definition dedup_db_has_md5 :: "byte list \<Rightarrow> dedup_db \<Rightarrow> bool" where
  "dedup_db_has_md5 md5 db \<longleftrightarrow> find_dp (\<lambda>dp. dp_md5 dp = md5) (head_md5 db (md5_to_hash md5)) db \<noteq> None"

definition dedup_db_has_filehash :: "u32 \<Rightarrow> dedup_db \<Rightarrow> bool" where
  "dedup_db_has_filehash h db \<longleftrightarrow>
     find_dp (\<lambda>dp. dp_filename_hash dp = h) (head_filename db (name_bucket h)) db \<noteq> None"

text \<open>The search by name, of \<open>dedup_discard\<close> and \<open>dedup_rename\<close>.\<close>

definition find_name :: "u32 \<Rightarrow> string \<Rightarrow> dedup_db \<Rightarrow> (nat \<times> dedup_t) option" where
  "find_name h fn db =
     find_dp (\<lambda>dp. dp_filename_hash dp = h \<and> dp_filename dp = fn) (head_filename db (name_bucket h)) db"

definition dedup_discard :: "file_t \<Rightarrow> dedup_db \<Rightarrow> (file_t \<times> dedup_db) option" where
  "dedup_discard f db =
     (if \<not> deduped f then Some (f, db)
      else do {
        (h, _) \<leftarrow> gethash (filename f);
        Some (f\<lparr>deduped := False\<rparr>,
              (case find_name h (filename f) db of
                 None \<Rightarrow> db
               | Some (i, dp) \<Rightarrow>
                   (let db1 = unlink_dp i dp db in db1\<lparr>entries := entries db1 - 1\<rparr>)))
      })"

definition dedup_rename :: "file_t \<Rightarrow> file_t \<Rightarrow> dedup_db \<Rightarrow> (file_t \<times> dedup_db) option" where
  "dedup_rename from to db = do {
     (to1, db1) \<leftarrow> dedup_discard to db;
     let to2 = to1\<lparr>deduped := deduped from\<rparr>;
     Some (to2,
           (case find_name (filename_hash from) (filename from) db1 of
              None \<Rightarrow> db1
            | Some (i, dp) \<Rightarrow>
                link_dp i (dp\<lparr>dp_filename := filename to2, dp_filename_hash := filename_hash to2\<rparr>)
                  (unlink_dp i dp db1)))
   }"

section \<open>The invariant\<close>

definition name_ok :: "string \<Rightarrow> bool" where
  "name_ok fn \<longleftrightarrow> fn \<noteq> [] \<and> NUL \<notin> set fn"

definition dp_ok :: "dedup_t \<Rightarrow> bool" where
  "dp_ok dp \<longleftrightarrow> name_ok (dp_filename dp) \<and> dp_filename_hash dp = hash_of (dp_filename dp)"

definition dedup_ok :: "dedup_db \<Rightarrow> bool" where
  "dedup_ok db \<longleftrightarrow>
     (\<forall>b. distinct (head_filename db b)) \<and> (\<forall>m. distinct (head_md5 db m)) \<and>
     (\<forall>b i. i \<in> set (head_filename db b) \<longleftrightarrow>
        (\<exists>dp. dps db i = Some dp \<and> name_bucket (dp_filename_hash dp) = b)) \<and>
     (\<forall>m i. i \<in> set (head_md5 db m) \<longleftrightarrow>
        (\<exists>dp. dps db i = Some dp \<and> md5_to_hash (dp_md5 dp) = m)) \<and>
     (\<forall>i dp. dps db i = Some dp \<longrightarrow> i < next_dp db \<and> dp_ok dp) \<and>
     entries db = int (card (dom (dps db)))"

definition pair_of :: "dedup_t \<Rightarrow> string \<times> byte list" where
  "pair_of dp = (dp_filename dp, dp_md5 dp)"

definition pairs :: "dedup_db \<Rightarrow> (string \<times> byte list) multiset" where
  "pairs db = image_mset (\<lambda>i. pair_of (the (dps db i))) (mset_set (dom (dps db)))"

lemma dedup_ok_finite: "dedup_ok db \<Longrightarrow> finite (dom (dps db))"
  by (rule finite_subset [of _ "{..<next_dp db}"]) (auto simp: dedup_ok_def)

lemma dedup_okD:
  assumes "dedup_ok db"
  shows "distinct (head_filename db b)" and "distinct (head_md5 db m)"
    and "i \<in> set (head_filename db b) \<longleftrightarrow> (\<exists>dp. dps db i = Some dp \<and> name_bucket (dp_filename_hash dp) = b)"
    and "i \<in> set (head_md5 db m) \<longleftrightarrow> (\<exists>dp. dps db i = Some dp \<and> md5_to_hash (dp_md5 dp) = m)"
    and "dps db i = Some dp \<Longrightarrow> i < next_dp db \<and> dp_ok dp"
    and "entries db = int (card (dom (dps db)))"
  using assms by (simp_all add: dedup_ok_def)

lemma dedup_ok_init: "dedup_ok dedup_init_db \<and> pairs dedup_init_db = {#}"
  by (simp add: dedup_ok_def dedup_init_db_def pairs_def)

lemma pairs_link:
  assumes "finite (dom (dps db))" and "dps db i = None"
  shows "pairs (link_dp i dp db) = add_mset (pair_of dp) (pairs db)"
proof -
  have "i \<notin> dom (dps db)" using assms(2) by auto
  moreover have "image_mset (\<lambda>j. pair_of (the (((dps db)(i \<mapsto> dp)) j))) (mset_set (dom (dps db))) =
      image_mset (\<lambda>j. pair_of (the (dps db j))) (mset_set (dom (dps db)))"
    by (rule image_mset_cong) (use assms calculation in auto)
  ultimately show ?thesis
    using assms(1) by (simp add: pairs_def link_dp_def Let_def)
qed

lemma pairs_unlink:
  assumes "finite (dom (dps db))" and "dps db i = Some dp"
  shows "pairs db = add_mset (pair_of dp) (pairs (unlink_dp i dp db))"
proof -
  have "i \<in> dom (dps db)" using assms(2) by auto
  then have d: "mset_set (dom (dps db)) = add_mset i (mset_set (dom (dps db) - {i}))"
    by (rule mset_set.remove [OF assms(1)])
  have "image_mset (\<lambda>j. pair_of (the (dps db j))) (mset_set (dom (dps db) - {i})) =
      image_mset (\<lambda>j. pair_of (the (((dps db)(i := None)) j))) (mset_set (dom (dps db) - {i}))"
    by (rule image_mset_cong) (use assms(1) in auto)
  moreover have "dom ((dps db)(i := None)) = dom (dps db) - {i}" by auto
  ultimately show ?thesis
    using assms(2) by (simp add: pairs_def d unlink_dp_def Let_def)
qed

text \<open>An entry more, an entry less.\<close>

lemma dedup_ok_new:
  assumes "dedup_ok db" and "dp_ok dp"
  shows "dedup_ok (new_dp dp db)" and "pairs (new_dp dp db) = add_mset (pair_of dp) (pairs db)"
proof -
  have fresh: "dps db (next_dp db) = None"
    using dedup_okD(5) [OF assms(1), of "next_dp db"] by (cases "dps db (next_dp db)") auto
  then have nd: "next_dp db \<notin> dom (dps db)" by auto
  have nf: "next_dp db \<notin> set (head_filename db b)" "next_dp db \<notin> set (head_md5 db m)" for b m
    using fresh dedup_okD(3,4) [OF assms(1)] by auto
  have sa: "pairs (new_dp dp db) = pairs (link_dp (next_dp db) dp db)"
    by (simp add: pairs_def new_dp_def Let_def)
  show "pairs (new_dp dp db) = add_mset (pair_of dp) (pairs db)"
    using sa pairs_link [OF dedup_ok_finite [OF assms(1)] fresh] by simp
  show "dedup_ok (new_dp dp db)"
    using assms fresh nd nf dedup_ok_finite [OF assms(1)]
    unfolding dedup_ok_def new_dp_def link_dp_def Let_def
    by (auto simp: less_Suc_eq)
qed

lemma dedup_ok_remove:
  assumes "dedup_ok db" and "dps db i = Some dp"
  shows "dedup_ok ((unlink_dp i dp db)\<lparr>entries := entries (unlink_dp i dp db) - 1\<rparr>)"
    and "pairs db = add_mset (pair_of dp) (pairs ((unlink_dp i dp db)\<lparr>entries := x\<rparr>))"
proof -
  have "pairs ((unlink_dp i dp db)\<lparr>entries := x\<rparr>) = pairs (unlink_dp i dp db)"
    by (simp add: pairs_def)
  then show "pairs db = add_mset (pair_of dp) (pairs ((unlink_dp i dp db)\<lparr>entries := x\<rparr>))"
    using pairs_unlink [OF dedup_ok_finite [OF assms(1)] assms(2)] by simp
  have "i \<in> dom (dps db)" using assms(2) by auto
  then have c: "int (card (dom (dps db) - {i})) = int (card (dom (dps db))) - 1"
    using dedup_ok_finite [OF assms(1)]
    by (metis One_nat_def card_Diff_singleton card_gt_0_iff empty_iff int_ops(2) Suc_leI of_nat_diff)
  show "dedup_ok ((unlink_dp i dp db)\<lparr>entries := entries (unlink_dp i dp db) - 1\<rparr>)"
    using assms c dedup_okD(1,2) [OF assms(1)]
    unfolding dedup_ok_def unlink_dp_def Let_def
    by (auto simp: set_remove1_eq)
qed

section \<open>What the operations do\<close>

lemma find_dp_Some:
  "find_dp P bucket db = Some (i, dp) \<Longrightarrow> i \<in> set bucket \<and> dps db i = Some dp \<and> P dp"
  unfolding find_dp_def
  by (auto split: option.splits dest!: find_Some_iff [THEN iffD1])

lemma find_dp_None:
  "find_dp P bucket db = None \<longleftrightarrow> (\<forall>i \<in> set bucket. \<forall>dp. dps db i = Some dp \<longrightarrow> \<not> P dp)"
proof
  assume n: "find_dp P bucket db = None"
  show "\<forall>i \<in> set bucket. \<forall>dp. dps db i = Some dp \<longrightarrow> \<not> P dp"
  proof (cases "find (\<lambda>i. case dps db i of None \<Rightarrow> False | Some dp \<Rightarrow> P dp) bucket")
    case None
    then show ?thesis by (fastforce simp: find_None_iff)
  next
    case (Some i)
    then have "case dps db i of None \<Rightarrow> False | Some dp \<Rightarrow> P dp" by (auto simp: find_Some_iff)
    then show ?thesis using n Some by (auto simp: find_dp_def split: option.splits)
  qed
next
  assume "\<forall>i \<in> set bucket. \<forall>dp. dps db i = Some dp \<longrightarrow> \<not> P dp"
  then have "find (\<lambda>i. case dps db i of None \<Rightarrow> False | Some dp \<Rightarrow> P dp) bucket = None"
    by (auto simp: find_None_iff split: option.splits)
  then show "find_dp P bucket db = None" by (simp add: find_dp_def)
qed

lemma mem_pairs: "finite (dom (dps db)) \<Longrightarrow> p \<in># pairs db \<longleftrightarrow> (\<exists>i dp. dps db i = Some dp \<and> p = pair_of dp)"
  by (force simp: pairs_def)

lemma has_md5_iff:
  assumes "dedup_ok db"
  shows "dedup_db_has_md5 md5 db \<longleftrightarrow> (\<exists>fn. (fn, md5) \<in># pairs db)"
  unfolding dedup_db_has_md5_def find_dp_None mem_pairs [OF dedup_ok_finite [OF assms]]
  using dedup_okD(4) [OF assms] by (fastforce simp: pair_of_def)

lemma has_filehash_iff:
  assumes "dedup_ok db"
  shows "dedup_db_has_filehash h db \<longleftrightarrow> (\<exists>fn md5. (fn, md5) \<in># pairs db \<and> hash_of fn = h)"
  unfolding dedup_db_has_filehash_def find_dp_None mem_pairs [OF dedup_ok_finite [OF assms]]
  using dedup_okD(3,5) [OF assms] by (fastforce simp: pair_of_def dp_ok_def)

lemma find_name_Some:
  assumes "dedup_ok db" and "find_name h fn db = Some (i, dp)"
  shows "dps db i = Some dp" and "dp_filename dp = fn"
  using find_dp_Some assms(2) unfolding find_name_def by blast+

lemma find_name_None:
  assumes "dedup_ok db"
  shows "find_name (hash_of fn) fn db = None \<longleftrightarrow> (\<forall>md5. (fn, md5) \<notin># pairs db)"
  unfolding find_name_def find_dp_None mem_pairs [OF dedup_ok_finite [OF assms]]
  using dedup_okD(3,5) [OF assms] by (fastforce simp: pair_of_def dp_ok_def)

lemma dedup_add_spec:
  assumes "dedup_ok db" and "name_ok fn"
  shows "\<exists>db'. dedup_add md5 fn db = Some db' \<and> dedup_ok db' \<and> pairs db' = add_mset (fn, md5) (pairs db)"
proof -
  let ?dp = "\<lparr>dp_filename = fn, dp_filename_hash = hash_of fn, dp_md5 = md5\<rparr>"
  have "gethash fn = Some (hash_of fn, length fn + 1)"
    using gethash_eq assms(2) by (simp add: name_ok_def)
  moreover have "dp_ok ?dp" using assms(2) by (simp add: dp_ok_def)
  ultimately show ?thesis
    using dedup_ok_new [OF assms(1), of ?dp] by (simp add: dedup_add_def pair_of_def)
qed

text \<open>Discarding takes one entry of that name out, if the file may have one.\<close>

lemma dedup_discard_spec:
  assumes "dedup_ok db" and "name_ok (filename f)"
  shows "\<exists>db'. dedup_discard f db = Some (f\<lparr>deduped := False\<rparr>, db') \<and> dedup_ok db' \<and>
    (if deduped f \<and> (\<exists>md5. (filename f, md5) \<in># pairs db)
     then \<exists>md5. pairs db = add_mset (filename f, md5) (pairs db')
     else db' = db)"
proof (cases "deduped f")
  case False
  then have "f\<lparr>deduped := False\<rparr> = f" by simp
  then show ?thesis using False assms by (simp add: dedup_discard_def)
next
  case True
  have h: "gethash (filename f) = Some (hash_of (filename f), length (filename f) + 1)"
    using gethash_eq assms(2) by (simp add: name_ok_def)
  show ?thesis
  proof (cases "find_name (hash_of (filename f)) (filename f) db")
    case None
    then show ?thesis
      using True h assms(1) find_name_None [OF assms(1), of "filename f"] by (simp add: dedup_discard_def)
  next
    case (Some x)
    obtain i dp where x: "x = (i, dp)" by (cases x)
    note fs = find_name_Some [OF assms(1) Some [unfolded x]]
    note rm = dedup_ok_remove [OF assms(1) fs(1)]
    have "\<exists>md5. (filename f, md5) \<in># pairs db"
      using find_name_None [OF assms(1), of "filename f"] Some by auto
    then show ?thesis
      using True h Some x rm(1) rm(2) fs(2) by (auto simp: dedup_discard_def Let_def pair_of_def)
  qed
qed

lemma dedup_rename_spec:
  assumes "dedup_ok db" and "name_ok (filename to)" and "name_ok (filename from)"
    and "filename_hash to = hash_of (filename to)" and "filename_hash from = hash_of (filename from)"
  shows "\<exists>db1 db'. dedup_discard to db = Some (to\<lparr>deduped := False\<rparr>, db1) \<and>
    dedup_rename from to db = Some (to\<lparr>deduped := deduped from\<rparr>, db') \<and> dedup_ok db' \<and>
    (if \<exists>md5. (filename from, md5) \<in># pairs db1
     then \<exists>md5 rest. pairs db1 = add_mset (filename from, md5) rest \<and>
            pairs db' = add_mset (filename to, md5) rest
     else db' = db1)"
proof -
  obtain db1 where d: "dedup_discard to db = Some (to\<lparr>deduped := False\<rparr>, db1)" "dedup_ok db1"
    using dedup_discard_spec [OF assms(1,2)] by blast
  show ?thesis
  proof (cases "find_name (hash_of (filename from)) (filename from) db1")
    case None
    then show ?thesis
      using d assms(5) find_name_None [OF d(2), of "filename from"] by (simp add: dedup_rename_def)
  next
    case (Some x)
    obtain i dp where x: "x = (i, dp)" by (cases x)
    note fs = find_name_Some [OF d(2) Some [unfolded x]]
    let ?u = "unlink_dp i dp db1"
    let ?dp = "dp\<lparr>dp_filename := filename to, dp_filename_hash := filename_hash to\<rparr>"
    note rm = dedup_ok_remove [OF d(2) fs(1)]
    have p1: "pairs db1 = add_mset (pair_of dp) (pairs ?u)"
      by (rule pairs_unlink [OF dedup_ok_finite [OF d(2)] fs(1)])
    have un: "dps ?u i = None" and fu: "finite (dom (dps ?u))"
      using dedup_ok_finite [OF d(2)] by (simp_all add: unlink_dp_def Let_def)
    have p2: "pairs (link_dp i ?dp ?u) = add_mset (pair_of ?dp) (pairs ?u)"
      by (rule pairs_link [OF fu un])
    have ok: "dedup_ok (link_dp i ?dp ?u)"
    proof -
      let ?v = "?u\<lparr>entries := entries ?u - 1\<rparr>"
      have v: "dedup_ok ?v" by (rule rm(1))
      have nv: "dps ?v i = None" using un by simp
      have nf: "i \<notin> set (head_filename ?v b)" "i \<notin> set (head_md5 ?v m)" for b m
        using nv dedup_okD(3,4) [OF v] by auto
      have nd: "i \<notin> dom (dps ?v)" using nv by auto
      have lt: "i < next_dp ?v" using dedup_okD(5) [OF d(2) fs(1)] by (simp add: unlink_dp_def Let_def)
      have dpo: "dp_ok ?dp" using assms(2,4) by (simp add: dp_ok_def)
      show ?thesis
        using v nv nf nd lt dpo dedup_ok_finite [OF v]
        unfolding dedup_ok_def link_dp_def Let_def by auto
    qed
    have mem: "\<exists>md5. (filename from, md5) \<in># pairs db1"
      using find_name_None [OF d(2), of "filename from"] Some by auto
    have "pair_of dp = (filename from, dp_md5 dp)" "pair_of ?dp = (filename to, dp_md5 dp)"
      using fs(2) by (simp_all add: pair_of_def)
    then show ?thesis
      using d Some x ok mem p1 p2 assms(5) by (auto simp: dedup_rename_def)
  qed
qed

end
