(* ===== verification/Compress.thy ===== *)
theory Compress
  imports Modules DedupDb
begin

text \<open>
  \<^verbatim>\<open>compress.c\<close>: replacing a file by its decompressed form (\<open>do_decompress\<close>) and by its
  compressed form (\<open>do_compress\<close>), with what they need of \<^verbatim>\<open>direct_compress.c\<close>. Both work
  on a temporary file that is renamed over the original at the end.

  The functions take the file's \<open>file_t\<close> and give it back changed. \<open>None\<close>: a failed
  assertion, a NULL function pointer, or a read outside the table of compressors.
\<close>

section \<open>From direct_compress.c\<close>

definition cached_pages :: "file_t \<Rightarrow> nat" where
  "cached_pages f = (case cache f of None \<Rightarrow> 0 | Some ps \<Rightarrow> length (filter (\<lambda>p. p \<noteq> None) ps))"

definition flush_file_cache :: "file_t \<Rightarrow> world \<Rightarrow> file_t \<times> world" where
  "flush_file_cache f w =
     (f\<lparr>cache := None\<rparr>,
      w\<lparr>decomp_cache_size := decomp_cache_size w - int (DC_PAGE_SIZE * cached_pages f)\<rparr>)"

definition direct_delete :: "file_t \<Rightarrow> file_t" where
  "direct_delete f = f\<lparr>deleted := True, fsize := -1\<rparr>"

definition module_of :: "config \<Rightarrow> nat \<Rightarrow> compressor_t option" where
  "module_of cfg c = (if c < length (compressors cfg) then compressors cfg ! c else None)"

definition direct_close ::
  "config \<Rightarrow> file_t \<Rightarrow> descriptor_t \<Rightarrow> world \<Rightarrow> (int \<times> file_t \<times> descriptor_t \<times> world) option" where
  "direct_close cfg f d w = do {
     let ((stret, stbuf), w1) = sys_fstat (d_fd d) no_stat w;
     (ret, d', w2) \<leftarrow>
       (case d_handle d of
          None \<Rightarrow> Some (0, d, w1)
        | Some h \<Rightarrow> do {
            c \<leftarrow> fcompressor f;
            m \<leftarrow> module_of cfg c;
            (ret, w2) \<leftarrow> cclose m h w1;
            Some (ret, d\<lparr>d_offset := 0, d_handle := None\<rparr>, w2)
          });
     let w3 = (if ftype f = WRITE \<and> stret = 0
               then snd (sys_utime (filename f) (fst (st_atim stbuf)) (fst (st_mtim stbuf)) w2) else w2);
     let f' = (if accesses f = 1 then f\<lparr>ftype := TYPE_NONE, dontcompress := False\<rparr> else f);
     Some (ret, f', d', w3)
   }"

section \<open>do_decompress\<close>

text \<open>The space test, in the unsigned 64-bit arithmetic of C.\<close>

definition no_space :: "off \<Rightarrow> world \<Rightarrow> bool" where
  "no_space sz w \<longleftrightarrow>
     f_bsize w * f_bavail w < u64_of_off sz \<and>
     \<not> (euid w = 0 \<and> u64_of_off sz \<le> f_bsize w * f_bfree w)"

text \<open>\<open>direct_close\<close> and \<open>file_close\<close> on every descriptor.\<close>

fun close_all :: "config \<Rightarrow> file_t \<Rightarrow> descriptor_t list \<Rightarrow> world \<Rightarrow> (file_t \<times> descriptor_t list \<times> world) option" where
  "close_all cfg f [] w = Some (f, [], w)"
| "close_all cfg f (d # ds) w = do {
     (_, f1, d1, w1) \<leftarrow> direct_close cfg f d w;
     (fd, w2) \<leftarrow> file_close (d_fd d1) w1;
     (f3, ds', w3) \<leftarrow> close_all cfg f1 ds w2;
     Some (f3, d1\<lparr>d_fd := fd\<rparr> # ds', w3)
   }"

fun reopen_all :: "path \<Rightarrow> descriptor_t list \<Rightarrow> world \<Rightarrow> descriptor_t list \<times> world" where
  "reopen_all temp [] w = ([], w)"
| "reopen_all temp (d # ds) w =
     (let (fd, w1) = sys_open temp {O_RDWR} 0 w;
          (ds', w2) = reopen_all temp ds w1
      in (d\<lparr>d_fd := fd\<rparr> # ds', w2))"

text \<open>From the decompressed temporary file on.\<close>

definition replace_decompressed ::
  "file_t \<Rightarrow> int \<Rightarrow> int \<Rightarrow> path \<Rightarrow> stat \<Rightarrow> off \<Rightarrow> world \<Rightarrow> (bool \<times> file_t \<times> world) option" where
  "replace_decompressed f fd_source fd_temp temp stbuf sz w = do {
     let (ds, w1) = reopen_all temp (head f) w;
     let f1 = f\<lparr>head := ds\<rparr>;
     let w2 = snd (sys_fchown fd_temp (st_uid stbuf) (st_gid stbuf) w1);
     let w3 = snd (sys_fchmod fd_temp (st_mode stbuf) w2);
     let (res, w4) = sys_rename temp (filename f) w3;
     if res = -1 then Some (False, f1, w4)
     else do {
       (_, w5) \<leftarrow> file_close fd_source w4;
       (_, w6) \<leftarrow> file_close fd_temp w5;
       let (res, w7) = sys_utime (filename f) (fst (st_atim stbuf)) (fst (st_mtim stbuf)) w6;
       if res = -1 then Some (False, f1, w7)
       else Some (True, f1\<lparr>fcompressor := None, fsize := sz\<rparr>, w7)
     }
   }"

text \<open>
  From the opened source on, \<open>c\<close> being the compressor of its header. The file's lock is
  kept, so nobody can ask for cancellation meanwhile.
\<close>

definition decompress_source ::
  "config \<Rightarrow> file_t \<Rightarrow> int \<Rightarrow> nat \<Rightarrow> off \<Rightarrow> world \<Rightarrow> (bool \<times> file_t \<times> world) option" where
  "decompress_source cfg f fd_source c header_size w = do {
     let f = (if fcompressor f = None then f\<lparr>fcompressor := Some c\<rparr> else f);
     assert (fcompressor f = Some c);
     (f, ds, w) \<leftarrow> close_all cfg f (head f) w;
     let f = f\<lparr>head := ds\<rparr>;
     let ((res, stbuf), w) = sys_fstat fd_source no_stat w;
     if res = -1 then do { (_, w) \<leftarrow> file_close fd_source w; Some (False, f, w) }
     else (
       case file_create_temp w of
         ((None, _), w) \<Rightarrow> Some (False, f, w)
       | ((Some temp, fd_temp), w) \<Rightarrow> do {
           let f = f\<lparr>status := insert DECOMPRESSING (status f)\<rparr>;
           m \<leftarrow> module_of cfg c;
           (sz, w) \<leftarrow> decompress m fd_source fd_temp w;
           let f = f\<lparr>status := status f - {DECOMPRESSING, CANCEL}\<rparr>;
           if sz = FAIL \<or> sz \<noteq> header_size then do {
             (_, w) \<leftarrow> file_close fd_temp w;
             Some (False, f, snd (sys_unlink temp w))
           }
           else replace_decompressed f fd_source fd_temp temp stbuf sz w
         })
   }"

definition do_decompress :: "config \<Rightarrow> file_t \<Rightarrow> world \<Rightarrow> (bool \<times> file_t \<times> world) option" where
  "do_decompress cfg f w = do {
     let (r, w) = sys_statvfs (filename f) w;
     if r < 0 then Some (False, f, w)
     else if no_space (fsize f) w then Some (False, f, w\<lparr>errno := ENOSPC\<rparr>)
     else do {
       let (f, w) = flush_file_cache f w;
       let (fd_source, w) = file_open (filename f) {O_RDWR} w;
       if fd_source = FAIL then Some (False, f, w)
       else do {
         (res, c, header_size, w) \<leftarrow> file_read_header_fd cfg fd_source None 0 w;
         if res < 0 then Some (False, f, w)
         else (case c of
             None \<Rightarrow> do {
               (_, w) \<leftarrow> file_close fd_source w;
               Some (True, f\<lparr>fcompressor := None, fsize := -1\<rparr>, w)
             }
           | Some c \<Rightarrow> decompress_source cfg f fd_source c header_size w)
       }
     }
   }"

section \<open>do_compress\<close>

text \<open>The code at the label \<open>out\<close>.\<close>

definition compress_out :: "int \<Rightarrow> int \<Rightarrow> path option \<Rightarrow> world \<Rightarrow> world" where
  "compress_out fd fd_temp temp w =
     (let (r, w1) = (if fd \<noteq> FAIL then sys_close fd w else (0, w))
      in if r = FAIL then w1
         else
           (let (r, w2) = (if fd_temp \<noteq> FAIL then sys_close fd_temp w1 else (0, w1))
            in if r = FAIL then w2
               else (case temp of None \<Rightarrow> w2 | Some t \<Rightarrow> snd (sys_unlink t w2))))"

text \<open>From the compressed temporary file on.\<close>

definition replace_compressed ::
  "config \<Rightarrow> file_t \<Rightarrow> dedup_db \<Rightarrow> int \<Rightarrow> int \<Rightarrow> path \<Rightarrow> stat \<Rightarrow> nat \<Rightarrow> off \<Rightarrow> world \<Rightarrow>
   (file_t \<times> dedup_db \<times> world) option" where
  "replace_compressed cfg f db fd fd_temp temp statbuf c sz w = do {
     let w = snd (sys_fchown fd_temp (st_uid statbuf) (st_gid statbuf) w);
     let w = snd (sys_fchmod fd_temp (st_mode statbuf) w);
     let (res, w) = sys_close fd_temp w;
     if res = FAIL then Some (f, db, w)
     else do {
       let (res, w) = sys_close fd w;
       if res = FAIL then Some (f, db, w)
       else do {
         let (res, w) = sys_rename temp (filename f) w;
         if res = FAIL then Some (f, db, compress_out FAIL FAIL (Some temp) w)
         else do {
           let f = f\<lparr>fcompressor := Some c, fsize := sz\<rparr>;
           (f, db) \<leftarrow> (if dedup_enabled cfg then dedup_discard f db else Some (f, db));
           let (res, w) = sys_utime (filename f) (fst (st_atim statbuf)) (fst (st_mtim statbuf)) w;
           Some (f, db, compress_out FAIL FAIL None w)
         }
       }
     }
   }"

text \<open>
  What \<open>do_compress\<close> has at hand when it gives up the lock to compress: the two descriptors, the
  name of the temporary file, the attributes of the file, and the compressor.
\<close>

record compress_job =
  j_fd :: int
  j_fd_temp :: int
  j_temp :: path
  j_stat :: stat
  j_comp :: nat

text \<open>From the choice of the compressor to that point; no job when the function returns before.\<close>

definition compress_start ::
  "config \<Rightarrow> file_t \<Rightarrow> int \<Rightarrow> stat \<Rightarrow> nat \<Rightarrow> world \<Rightarrow> (compress_job option \<times> file_t \<times> world) option" where
  "compress_start cfg f fd statbuf c w = (
     case file_create_temp w of
       ((None, _), w) \<Rightarrow> Some (None, f, w)
     | ((Some temp, fd_temp), w) \<Rightarrow> do {
         m \<leftarrow> module_of cfg c;
         (res, w) \<leftarrow> file_write_header fd_temp m (st_size statbuf) w;
         if res = FAIL then Some (None, f, compress_out fd fd_temp (Some temp) w)
         else Some (Some \<lparr>j_fd = fd, j_fd_temp = fd_temp, j_temp = temp, j_stat = statbuf, j_comp = c\<rparr>,
                    f\<lparr>status := insert COMPRESSING (status f)\<rparr>, w)
       })"

definition do_compress_begin ::
  "config \<Rightarrow> file_t \<Rightarrow> world \<Rightarrow> (compress_job option \<times> file_t \<times> world) option" where
  "do_compress_begin cfg f w = do {
     let (fd, w) = file_open (filename f) {O_RDWR} w;
     if fd = FAIL then Some (None, direct_delete f, compress_out FAIL FAIL None w)
     else do {
       let ((res, statbuf), w) = sys_fstat fd no_stat w;
       if res = FAIL then Some (None, direct_delete f, compress_out fd FAIL None w)
       else if st_size statbuf < min_filesize_background cfg then Some (None, f, compress_out fd FAIL None w)
       else do {
         (stop, f, w) \<leftarrow>
           (if st_size statbuf \<ge> int sizeof_header then do {
              (res, c, s, w) \<leftarrow> file_read_header_fd cfg fd (fcompressor f) (fsize f) w;
              let f = f\<lparr>fcompressor := c, fsize := s\<rparr>;
              if res = 0 \<and> c \<noteq> None then Some (True, f, w)
              else Some (False, f, snd (sys_lseek fd 0 SEEK_SET w))
            }
            else Some (False, f, w));
         if stop then Some (None, f, compress_out fd FAIL None w)
         else (case choose_compressor cfg (filename f) of
             None \<Rightarrow> Some (None, f, compress_out fd FAIL None w)
           | Some c \<Rightarrow> compress_start cfg f fd statbuf c w)
       }
     }
   }"

text \<open>
  The rest. The lock is free during \<open>compress\<close>, and taken again before the CANCEL flag is
  looked at: \<open>next_cancel\<close> says whether it was set after the module's last test.
\<close>

definition do_compress_end ::
  "config \<Rightarrow> file_t \<Rightarrow> dedup_db \<Rightarrow> compress_job \<Rightarrow> world \<Rightarrow> (file_t \<times> dedup_db \<times> world) option" where
  "do_compress_end cfg f db j w = do {
     m \<leftarrow> module_of cfg (j_comp j);
     (filesize, f, w) \<leftarrow> compress m f (j_fd j) (j_fd_temp j) w;
     let ((_, f), w) = compress_testcancel f w;
     let f = f\<lparr>status := status f - {COMPRESSING}\<rparr>;
     if filesize = FAIL \<or> filesize \<noteq> st_size (j_stat j) \<or> CANCEL \<in> status f
     then Some (f\<lparr>status := status f - {CANCEL}\<rparr>, db, compress_out (j_fd j) (j_fd_temp j) (Some (j_temp j)) w)
     else replace_compressed cfg f db (j_fd j) (j_fd_temp j) (j_temp j) (j_stat j) (j_comp j) filesize w
   }"

definition do_compress :: "config \<Rightarrow> file_t \<Rightarrow> dedup_db \<Rightarrow> world \<Rightarrow> (file_t \<times> dedup_db \<times> world) option" where
  "do_compress cfg f db w = do {
     (job, f, w) \<leftarrow> do_compress_begin cfg f w;
     case job of None \<Rightarrow> Some (f, db, w) | Some j \<Rightarrow> do_compress_end cfg f db j w
   }"

end
