(* ===== verification/Quiet.thy ===== *)
theory Quiet
  imports Modules FileFormat
begin

text \<open>
  What every system call between two data transfers leaves alone. \<open>quiet C w w'\<close>: no file's
  bytes change, no name goes away or is redirected, and no open description moves; names
  and files may be created, attributes may change, and the descriptors in \<open>C\<close> may be
  closed. Each system call of the program but \<open>read\<close>, \<open>write\<close>, \<open>rename\<close>, \<open>unlink\<close>,
  \<open>lseek\<close> and \<open>ftruncate\<close> is quiet whatever the environment does, so the proofs about
  \<open>do_decompress\<close> and \<open>do_compress\<close> only have to look at the few that are not.
\<close>

definition quiet :: "int set \<Rightarrow> world \<Rightarrow> world \<Rightarrow> bool" where
  "quiet C w w' \<longleftrightarrow>
     world_ok w' \<and> next_fd w \<le> next_fd w' \<and> next_ino w \<le> next_ino w' \<and> next_ofile w \<le> next_ofile w' \<and>
     (\<forall>p n. names w p = Some n \<longrightarrow> names w' p = Some n) \<and>
     (\<forall>p n. names w' p = Some n \<longrightarrow> names w p = Some n \<or> next_ino w \<le> n) \<and>
     (\<forall>fd. fd < int (next_fd w) \<and> fd \<notin> C \<longrightarrow> fdtab w' fd = fdtab w fd) \<and>
     (\<forall>k < next_ofile w. ofiles w' k = ofiles w k) \<and>
     (\<forall>n < next_ino w. map_option idata (inodes w' n) = map_option idata (inodes w n))"

lemma quietD:
  assumes "quiet C w w'"
  shows "world_ok w'" "next_fd w \<le> next_fd w'" "next_ino w \<le> next_ino w'" "next_ofile w \<le> next_ofile w'"
    "names w p = Some n \<Longrightarrow> names w' p = Some n"
    "names w' p = Some n \<Longrightarrow> names w p = Some n \<or> next_ino w \<le> n"
    "fd < int (next_fd w) \<Longrightarrow> fd \<notin> C \<Longrightarrow> fdtab w' fd = fdtab w fd"
    "k < next_ofile w \<Longrightarrow> ofiles w' k = ofiles w k"
    "n < next_ino w \<Longrightarrow> map_option idata (inodes w' n) = map_option idata (inodes w n)"
  using assms unfolding quiet_def by blast+

lemma quiet_refl [simp]: "world_ok w \<Longrightarrow> quiet C w w"
  by (simp add: quiet_def)

lemma quiet_trans [trans]:
  assumes "quiet C w1 w2" and "quiet C w2 w3"
  shows "quiet C w1 w3"
proof -
  note a = quietD [OF assms(1)] and b = quietD [OF assms(2)]
  show ?thesis
    unfolding quiet_def
  proof (intro conjI allI impI)
    show "world_ok w3" by (rule b(1))
    show "next_fd w1 \<le> next_fd w3" "next_ino w1 \<le> next_ino w3" "next_ofile w1 \<le> next_ofile w3"
      using a(2-4) b(2-4) by linarith+
    fix p n
    show "names w1 p = Some n \<Longrightarrow> names w3 p = Some n" using a(5) b(5) by blast
    show "names w3 p = Some n \<Longrightarrow> names w1 p = Some n \<or> next_ino w1 \<le> n"
      using a(3,6) b(6) by (meson le_trans)
  next
    fix fd assume "fd < int (next_fd w1) \<and> fd \<notin> C"
    then show "fdtab w3 fd = fdtab w1 fd" using a(2,7) b(7) by simp
  next
    fix k assume "k < next_ofile w1"
    then show "ofiles w3 k = ofiles w1 k" using a(4,8) b(8) by simp
  next
    fix n assume "n < next_ino w1"
    then show "map_option idata (inodes w3 n) = map_option idata (inodes w1 n)"
      using a(3,9) b(9) by simp
  qed
qed

lemma quiet_mono: "quiet C w w' \<Longrightarrow> C \<subseteq> D \<Longrightarrow> quiet D w w'"
  unfolding quiet_def by blast

lemma quiet_agree: "agree w' w \<Longrightarrow> world_ok w \<Longrightarrow> quiet C w w'"
  using world_ok_agree [of w' w] by (auto simp: quiet_def agree_iff)

lemma quiet_then_agree: "quiet C w w1 \<Longrightarrow> agree w2 w1 \<Longrightarrow> quiet C w w2"
  using quiet_trans quiet_agree quietD(1) by blast

section \<open>What it keeps\<close>

lemma quiet_contents:
  assumes "quiet C w w'" and "world_ok w" and "contents w p = Some bs"
  shows "contents w' p = Some bs"
proof -
  obtain n i where n: "names w p = Some n" "inodes w n = Some i" "idata i = bs"
    using assms(3) by (auto simp: contents_def file_of_def bind_eq_Some_conv)
  then have "map_option idata (inodes w' n) = Some bs"
    using quietD(9) [OF assms(1)] world_ok_inodes [OF assms(2) n(2)] by simp
  then show ?thesis using quietD(5) [OF assms(1) n(1)] by (auto simp: contents_def file_of_def)
qed

lemma quiet_fd:
  assumes "quiet C w w'" and "world_ok w" and "fdtab w fd = Some k" and "fd \<notin> C"
  shows "fdtab w' fd = Some k" and "ofiles w' k = ofiles w k" and "fd_ofile w' fd = fd_ofile w fd"
    and "ino_of w' fd = ino_of w fd" and "rest_of w' fd = rest_of w fd" and "data_of w' fd = data_of w fd"
    and "at_end w' fd = at_end w fd" and "can_read w' fd = can_read w fd"
proof -
  obtain d where d: "0 \<le> fd" "fd < int (next_fd w)" "ofiles w k = Some d"
    using world_ok_fd [OF assms(2,3)] by blast
  obtain i where i: "inodes w (o_ino d) = Some i" "k < next_ofile w" "o_ino d < next_ino w"
    using world_ok_ofile [OF assms(2) d(3)] world_ok_inodes [OF assms(2)] by blast
  have f: "fdtab w' fd = Some k" using quietD(7) [OF assms(1) d(2) assms(4)] assms(3) by simp
  moreover have o: "ofiles w' k = Some d" using quietD(8) [OF assms(1) i(2)] d(3) by simp
  moreover have "map_option idata (inodes w' (o_ino d)) = Some (idata i)"
    using quietD(9) [OF assms(1) i(3)] i(1) by simp
  then obtain j where j: "inodes w' (o_ino d) = Some j" "idata j = idata i" by auto
  ultimately show "fdtab w' fd = Some k" "ofiles w' k = ofiles w k" "fd_ofile w' fd = fd_ofile w fd"
    "ino_of w' fd = ino_of w fd" "rest_of w' fd = rest_of w fd" "data_of w' fd = data_of w fd"
    "at_end w' fd = at_end w fd" "can_read w' fd = can_read w fd"
    using assms(3) d(3) i(1)
    by (simp_all add: fd_ofile_def ino_of_def rest_of_def fd_inode_def data_of_def at_end_def can_read_def)
qed

section \<open>The quiet calls\<close>

lemma quiet_set_inode:
  "world_ok w \<Longrightarrow> inodes w n = Some i \<Longrightarrow> idata j = idata i \<Longrightarrow> quiet C w (set_inode n j w)"
  using world_ok_set_inode [of w n j] by (simp add: quiet_def set_inode_def)

lemma quiet_on_path:
  assumes "on_path p f w = (r, w')" and "world_ok w" and "\<And>i. idata (f i) = idata i"
  shows "quiet C w w'"
  using on_path_spec [OF assms(1)]
proof (elim disjE conjE exE)
  assume "agree w' w"
  then show ?thesis using quiet_agree assms(2) by blast
next
  fix n i assume "inodes w n = Some i" "agree w' (set_inode n (f i) w)"
  then show ?thesis using quiet_then_agree quiet_set_inode assms(2,3) by blast
qed

lemma quiet_on_fd:
  assumes "on_fd fd f w = (r, w')" and "world_ok w" and "\<And>i. idata (f i) = idata i"
  shows "quiet C w w'"
  using on_fd_spec [OF assms(1)]
proof (elim disjE conjE exE)
  assume "agree w' w"
  then show ?thesis using quiet_agree assms(2) by blast
next
  fix d i assume "inodes w (o_ino d) = Some i" "agree w' (set_inode (o_ino d) (f i) w)"
  then show ?thesis using quiet_then_agree quiet_set_inode assms(2,3) by blast
qed

lemma quiet_chmod: "sys_chmod p m w = (r, w') \<Longrightarrow> world_ok w \<Longrightarrow> quiet C w w'"
  unfolding sys_chmod_def by (erule quiet_on_path) simp_all

lemma quiet_utime: "sys_utime p a m w = (r, w') \<Longrightarrow> world_ok w \<Longrightarrow> quiet C w w'"
  unfolding sys_utime_def by (erule quiet_on_path) simp_all

lemma quiet_fchmod: "sys_fchmod fd m w = (r, w') \<Longrightarrow> world_ok w \<Longrightarrow> quiet C w w'"
  unfolding sys_fchmod_def by (erule quiet_on_fd) simp_all

lemma quiet_fchown: "sys_fchown fd u g w = (r, w') \<Longrightarrow> world_ok w \<Longrightarrow> quiet C w w'"
  unfolding sys_fchown_def by (erule quiet_on_fd) simp_all

lemma quiet_statvfs: "sys_statvfs p w = (r, w') \<Longrightarrow> world_ok w \<Longrightarrow> quiet C w w'"
  using sys_statvfs_spec quiet_agree by blast

lemma quiet_lstat: "sys_lstat p buf w = (r, w') \<Longrightarrow> world_ok w \<Longrightarrow> quiet C w w'"
  using sys_lstat_spec [of p buf w "fst r" "snd r" w'] quiet_agree by simp

lemma quiet_fstat: "sys_fstat fd buf w = (r, w') \<Longrightarrow> world_ok w \<Longrightarrow> quiet C w w'"
  using sys_fstat_spec [of fd buf w "fst r" "snd r" w'] quiet_agree by simp

lemma quiet_close: "sys_close fd w = (r, w') \<Longrightarrow> world_ok w \<Longrightarrow> fd \<in> C \<Longrightarrow> quiet C w w'"
proof -
  assume "sys_close fd w = (r, w')" and w: "world_ok w" and "fd \<in> C"
  then have a: "agree w' (w\<lparr>fdtab := (fdtab w)(fd := None)\<rparr>)" using sys_close_spec by blast
  have "quiet C w (w\<lparr>fdtab := (fdtab w)(fd := None)\<rparr>)"
    using world_ok_close [OF w] \<open>fd \<in> C\<close> by (auto simp: quiet_def)
  then show ?thesis using a quiet_then_agree by blast
qed

text \<open>A new descriptor.\<close>

definition opened :: "world \<Rightarrow> int \<Rightarrow> nat \<Rightarrow> oflag set \<Rightarrow> bool" where
  "opened w fd n flags \<longleftrightarrow>
     (\<exists>k. fdtab w fd = Some k \<and> ofiles w k = Some \<lparr>o_ino = n, o_pos = 0, o_flags = flags\<rparr>)"

lemma quiet_new_fd:
  assumes "world_ok w" and "inodes w n \<noteq> None" and "agree w' (snd (new_fd n flags w))"
  shows "quiet C w w'" and "opened w' (int (next_fd w)) n flags" and "next_fd w' = next_fd w + 1"
proof -
  obtain fd w1 where nf: "new_fd n flags w = (fd, w1)" by fastforce
  have "world_ok w1" by (rule world_ok_new_fd [OF assms(1,2) nf])
  then have "quiet C w w1" using nf by (auto simp: quiet_def new_fd_def)
  then show "quiet C w w'" using assms(3) nf quiet_then_agree by fastforce
  show "opened w' (int (next_fd w)) n flags" "next_fd w' = next_fd w + 1"
    using assms(3) by (auto simp: opened_def new_fd_def agree_iff)
qed

lemma quiet_open:
  assumes "sys_open p flags m w = (fd, w')" and "world_ok w" and "O_CREAT \<notin> flags" and "O_TRUNC \<notin> flags"
  shows "quiet C w w'"
    and "fd = FAIL \<or> (fd = int (next_fd w) \<and> next_fd w' = next_fd w + 1 \<and>
      (\<exists>n. names w p = Some n \<and> opened w' fd n flags))"
proof -
  have "quiet C w w' \<and> (fd = FAIL \<or> (fd = int (next_fd w) \<and> next_fd w' = next_fd w + 1 \<and>
      (\<exists>n. names w p = Some n \<and> opened w' fd n flags)))"
    using sys_open_spec [OF assms(1,3,4)]
  proof (elim disjE conjE exE)
    assume "agree w' w" "fd = FAIL"
    then show ?thesis using quiet_agree assms(2) by blast
  next
    fix n assume n: "names w p = Some n" "fd = int (next_fd w)" "agree w' (snd (new_fd n flags w))"
    then have "inodes w n \<noteq> None" using world_ok_names [OF assms(2)] by fastforce
    from quiet_new_fd [OF assms(2) this n(3)] n show ?thesis by blast
  qed
  then show "quiet C w w'" and "fd = FAIL \<or> (fd = int (next_fd w) \<and> next_fd w' = next_fd w + 1 \<and>
      (\<exists>n. names w p = Some n \<and> opened w' fd n flags))" by blast+
qed

lemma opened_views:
  assumes "opened w fd n flags" and "world_ok w"
  shows "ino_of w fd = Some n" and "\<exists>k. fdtab w fd = Some k"
    and "\<exists>i. inodes w n = Some i \<and> rest_of w fd = idata i"
    and "O_WRONLY \<notin> flags \<Longrightarrow> can_read w fd"
proof -
  obtain k where k: "fdtab w fd = Some k" "ofiles w k = Some \<lparr>o_ino = n, o_pos = 0, o_flags = flags\<rparr>"
    using assms(1) by (auto simp: opened_def)
  obtain i where i: "inodes w n = Some i" using world_ok_ofile [OF assms(2) k(2)] by auto
  show "ino_of w fd = Some n" "\<exists>k. fdtab w fd = Some k"
    using k by (simp_all add: ino_of_def fd_ofile_def)
  show "\<exists>i. inodes w n = Some i \<and> rest_of w fd = idata i"
    using k i by (simp add: rest_of_def fd_ofile_def fd_inode_def)
  show "O_WRONLY \<notin> flags \<Longrightarrow> can_read w fd"
    using k i by (simp add: can_read_def readable_def)
qed

lemma opened_quiet:
  assumes "opened w fd n flags" and "quiet C w w'" and "world_ok w" and "fd \<notin> C"
  shows "opened w' fd n flags"
proof -
  obtain k where k: "fdtab w fd = Some k" "ofiles w k = Some \<lparr>o_ino = n, o_pos = 0, o_flags = flags\<rparr>"
    using assms(1) by (auto simp: opened_def)
  then show ?thesis
    using quiet_fd(1,2) [OF assms(2,3) k(1) assms(4)] by (simp add: opened_def)
qed

lemma quiet_file_open:
  assumes "file_open p flags w = (fd, w')" and "world_ok w" and "O_CREAT \<notin> flags" and "O_TRUNC \<notin> flags"
  shows "quiet {} w w'"
    and "fd = FAIL \<or> (int (next_fd w) \<le> fd \<and> fd < int (next_fd w') \<and>
      (\<exists>n. names w p = Some n \<and> opened w' fd n flags))"
proof -
  obtain fd1 w1 where o1: "sys_open p flags 0 w = (fd1, w1)" by fastforce
  note q1 = quiet_open [OF o1 assms(2-4)]
  have w1: "world_ok w1" by (rule quietD(1) [OF q1(1)])
  have "quiet {} w w' \<and> (fd = FAIL \<or> (int (next_fd w) \<le> fd \<and> fd < int (next_fd w') \<and>
      (\<exists>n. names w p = Some n \<and> opened w' fd n flags)))"
  proof (cases "fd1 = FAIL \<and> (errno w1 = EACCES \<or> errno w1 = EPERM)")
    case False
    then have "fd = fd1" "w' = w1" using assms(1) o1 by (auto simp: file_open_def)
    then show ?thesis using q1 by auto
  next
    case True
    obtain r2 buf w2 where l: "sys_lstat p no_stat w1 = ((r2, buf), w2)" by (metis prod.collapse)
    have q2: "quiet {} w w2" using quiet_trans [OF q1(1) quiet_lstat [OF l w1]] by simp
    obtain r3 w3 where c3: "sys_chmod p (or_allmodes (st_mode buf)) w2 = (r3, w3)" by fastforce
    have q3: "quiet {} w w3" by (rule quiet_trans [OF q2 quiet_chmod [OF c3 quietD(1) [OF q2]]])
    obtain fd4 w4 where o4: "sys_open p flags 0 w3 = (fd4, w4)" by fastforce
    note q4' = quiet_open [OF o4 quietD(1) [OF q3] assms(3,4)]
    have q4: "quiet {} w w4" by (rule quiet_trans [OF q3 q4'(1)])
    obtain r5 w5 where c5: "sys_chmod p (st_mode buf) w4 = (r5, w5)" by fastforce
    have q45: "quiet {} w4 w5" by (rule quiet_chmod [OF c5 quietD(1) [OF q4]])
    have q5: "quiet {} w w5" by (rule quiet_trans [OF q4 q45])
    have "fd = FAIL \<and> (w' = w2 \<or> w' = w3 \<or> w' = w4 \<or> w' = w5) \<or> fd = fd4 \<and> fd4 \<noteq> FAIL \<and> w' = w5"
      using assms(1) True o1 l c3 o4 c5 by (auto simp: file_open_def split: if_splits)
    then show ?thesis
    proof
      assume "fd = FAIL \<and> (w' = w2 \<or> w' = w3 \<or> w' = w4 \<or> w' = w5)"
      then show ?thesis using q2 q3 q4 q5 by blast
    next
      assume e: "fd = fd4 \<and> fd4 \<noteq> FAIL \<and> w' = w5"
      then obtain n where n: "fd4 = int (next_fd w3)" "next_fd w4 = next_fd w3 + 1" "names w3 p = Some n"
        "opened w4 fd4 n flags" using q4'(2) by blast
      have "opened w5 fd4 n flags" by (rule opened_quiet [OF n(4) q45 quietD(1) [OF q4]]) simp
      moreover have "names w p = Some n"
      proof -
        have "names w p \<noteq> None"
        proof
          assume none: "names w p = None"
          then have "r2 = FAIL"
          proof -
            have "quiet {} w w1" using q1(1) .
            then have "names w1 p = None \<or> next_ino w \<le> the (names w1 p)"
              using quietD(6) none by (metis not_None_eq option.distinct(1) option.sel)
            moreover have "names w1 p = None"
              using sys_open_spec [OF o1 assms(3,4)] True none
              by (auto simp: agree_iff)
            ultimately show ?thesis using sys_lstat_spec [OF l] by auto
          qed
          then have "fd = FAIL" using assms(1) True o1 l by (auto simp: file_open_def)
          then show False using e by simp
        qed
        then show ?thesis using quietD(5) [OF q3] n(3) by (metis not_Some_eq option.inject)
      qed
      moreover have "int (next_fd w) \<le> fd4" "fd4 < int (next_fd w5)"
        using n(1,2) quietD(2) [OF q3] quietD(2) [OF q45] by simp_all
      ultimately show ?thesis using e q5 by blast
    qed
  qed
  then show "quiet {} w w'" and "fd = FAIL \<or> (int (next_fd w) \<le> fd \<and> fd < int (next_fd w') \<and>
      (\<exists>n. names w p = Some n \<and> opened w' fd n flags))" by blast+
qed

section \<open>Temporary files\<close>

text \<open>A new name, a new empty file, and a descriptor at its end.\<close>

definition fresh_temp :: "world \<Rightarrow> path \<Rightarrow> int \<Rightarrow> world \<Rightarrow> bool" where
  "fresh_temp w temp fd w' \<longleftrightarrow>
     names w temp = None \<and> int (next_fd w) \<le> fd \<and> fd < int (next_fd w') \<and>
     (\<exists>n. next_ino w \<le> n \<and> names w' temp = Some n \<and> opened w' fd n {O_RDWR}) \<and>
     at_end w' fd \<and> data_of w' fd = [] \<and> (\<exists>x. temp = TEMP @ x \<and> length x = 6)"

lemma quiet_mkstemp:
  assumes "sys_mkstemp TEMP w = ((fd, temp), w')" and "world_ok w"
  shows "quiet {} w w' \<and> (fd = FAIL \<or> fresh_temp w temp fd w')"
  using sys_mkstemp_spec [OF assms(1)]
proof (elim disjE conjE)
  assume "agree w' w" "fd = FAIL"
  then show ?thesis using quiet_agree assms(2) by blast
next
  assume a: "names w temp = None" "fd = int (next_fd w)" "\<exists>x. temp = TEMP @ x \<and> length x = 6"
    "agree w' (snd (new_fd (next_ino w) {O_RDWR} (snd (new_inode temp 384 w))))"
  obtain n w1 where ni: "new_inode temp 384 w = (n, w1)" by fastforce
  have n: "n = next_ino w" using ni by (simp add: new_inode_def)
  have w1: "world_ok w1" "inodes w1 n \<noteq> None" using world_ok_new_inode [OF assms(2) ni] by auto
  have q1: "quiet {} w w1"
    using w1(1) ni a(1) by (auto simp: quiet_def new_inode_def split: if_splits)
  note q2 = quiet_new_fd [OF w1, of w' "{O_RDWR}"]
  have ag: "agree w' (snd (new_fd n {O_RDWR} w1))" using a(4) ni n by simp
  have nf: "next_fd w1 = next_fd w" using ni by (auto simp: new_inode_def)
  have q: "quiet {} w w'" by (rule quiet_trans [OF q1 q2(1) [OF ag]])
  have op: "opened w' fd n {O_RDWR}" using q2(2) [OF ag] nf a(2) by simp
  have "names w' temp = Some n" "map_option idata (inodes w' n) = Some []"
    using ag ni by (auto simp: agree_iff new_fd_def new_inode_def)
  moreover have "at_end w' fd" "data_of w' fd = []"
    using op calculation(2)
    by (auto simp: opened_def at_end_def data_of_def fd_ofile_def fd_inode_def writable_def split: option.splits)
  moreover have "fd < int (next_fd w')" "int (next_fd w) \<le> fd" using a(2) q2(3) [OF ag] nf by simp_all
  ultimately show ?thesis using q a(1,3) op n by (auto simp: fresh_temp_def)
qed

lemma fresh_temp_later:
  assumes "quiet {} w w1" and "fresh_temp w1 temp fd w2"
  shows "fresh_temp w temp fd w2"
proof -
  have "names w temp = None"
    using quietD(5) [OF assms(1), of temp] assms(2) by (cases "names w temp") (auto simp: fresh_temp_def)
  moreover obtain n where n: "next_ino w1 \<le> n" "names w2 temp = Some n" "opened w2 fd n {O_RDWR}"
    using assms(2) by (auto simp: fresh_temp_def)
  moreover have "next_ino w \<le> n" using n(1) quietD(3) [OF assms(1)] by simp
  moreover have "int (next_fd w) \<le> fd"
    using assms(2) quietD(2) [OF assms(1)] by (simp add: fresh_temp_def)
  moreover have "fd < int (next_fd w2)" "at_end w2 fd" "data_of w2 fd = []" "\<exists>x. temp = TEMP @ x \<and> length x = 6"
    using assms(2) unfolding fresh_temp_def by blast+
  ultimately show ?thesis unfolding fresh_temp_def by blast
qed

text \<open>The loop of \<open>file_create_temp\<close> ends with such a file or with nothing.\<close>

lemma quiet_create_temp_loop:
  assumes "file_create_temp_loop i w = ((temp, fd), w')" and "world_ok w"
  shows "quiet {} w w' \<and> (temp = None \<and> fd = -1 \<or> (\<exists>t. temp = Some t \<and> fresh_temp w t fd w'))"
  using assms
proof (induction i w arbitrary: temp fd w' rule: file_create_temp_loop.induct)
  case (1 i w)
  obtain fd1 t1 w1 where mk: "sys_mkstemp TEMP w = ((fd1, t1), w1)" by (metis prod.collapse)
  note q1 = quiet_mkstemp [OF mk "1.prems"(2)]
  have run: "file_create_temp_loop i w =
      (if i > 50 then ((None, -1), w1)
       else if fd1 = -1 then file_create_temp_loop (i + 1) w1 else ((Some t1, fd1), w1))"
    by (subst file_create_temp_loop.simps) (simp only: mk Let_def prod.case)
  show ?case
  proof (cases "i > 50")
    case True
    then have "temp = None \<and> fd = -1 \<and> w' = w1" using "1.prems"(1) run by simp
    then show ?thesis using q1 by blast
  next
    case i: False
    show ?thesis
    proof (cases "fd1 = -1")
      case False
      then have "temp = Some t1 \<and> fd = fd1 \<and> w' = w1" using "1.prems"(1) run i by simp
      then show ?thesis using q1 False by blast
    next
      case True
      have l: "file_create_temp_loop (i + 1) w1 = ((temp, fd), w')"
        using "1.prems"(1) run i True by simp
      have w1: "world_ok w1" using q1 quietD(1) by blast
      have "quiet {} w1 w' \<and> (temp = None \<and> fd = -1 \<or> (\<exists>t. temp = Some t \<and> fresh_temp w1 t fd w'))"
        by (rule "1.IH" [OF mk [symmetric] refl refl i True l w1])
      note ih = this
      have q: "quiet {} w w1" using q1 by simp
      have "quiet {} w w'" by (rule quiet_trans [OF q conjunct1 [OF ih]])
      moreover have "fresh_temp w t fd w'" if "fresh_temp w1 t fd w'" for t
        by (rule fresh_temp_later [OF q that])
      ultimately show ?thesis using conjunct2 [OF ih] by blast
    qed
  qed
qed

lemma quiet_create_temp:
  assumes "file_create_temp w = ((temp, fd), w')" and "world_ok w"
  shows "quiet {} w w'" and "temp = None \<and> fd = -1 \<or> (\<exists>t. temp = Some t \<and> fresh_temp w t fd w')"
  using quiet_create_temp_loop assms unfolding file_create_temp_def by blast+

lemma create_temp_clean: "file_create_temp w = ((temp, fd), w') \<Longrightarrow> clean w \<Longrightarrow> clean w'"
proof -
  have "file_create_temp_loop i w = ((temp, fd), w') \<Longrightarrow> clean w \<Longrightarrow> clean w'" for i
  proof (induction i w arbitrary: temp fd w' rule: file_create_temp_loop.induct)
    case (1 i w)
    obtain fd1 t1 w1 where mk: "sys_mkstemp TEMP w = ((fd1, t1), w1)" by (metis prod.collapse)
    have c1: "clean w1"
      using mk "1.prems"(2)
      by (auto simp: sys_mkstemp_def next_outcome_clean Let_def new_inode_def new_fd_def
          split: list.splits if_splits)
    have run: "file_create_temp_loop i w =
        (if i > 50 then ((None, -1), w1)
         else if fd1 = -1 then file_create_temp_loop (i + 1) w1 else ((Some t1, fd1), w1))"
      by (subst file_create_temp_loop.simps) (simp only: mk Let_def prod.case)
    show ?case
    proof (cases "i > 50 \<or> fd1 \<noteq> -1")
      case True
      then show ?thesis using run "1.prems"(1) c1 by (auto split: if_splits)
    next
      case False
      then have "file_create_temp_loop (i + 1) w1 = ((temp, fd), w')" using run "1.prems"(1) by simp
      moreover have "\<not> i > 50" "fd1 = -1" using False by auto
      ultimately show ?thesis using "1.IH" [OF mk [symmetric] refl refl] c1 by blast
    qed
  qed
  then show "file_create_temp w = ((temp, fd), w') \<Longrightarrow> clean w \<Longrightarrow> clean w'"
    unfolding file_create_temp_def by blast
qed

section \<open>The header\<close>

text \<open>
  The compressor and the size in a header at the start of \<open>bs\<close>; \<open>None\<close> if it has none, or
  one the table does not know.
\<close>

definition header_in :: "config \<Rightarrow> byte list \<Rightarrow> (nat \<times> off) option" where
  "header_in cfg bs =
     (if length bs < sizeof_header then None
      else case file_compressor cfg (header_of_bytes (take sizeof_header bs)) of
        Some (Some c) \<Rightarrow> Some (c, off_of_u64 (h_size (header_of_bytes (take sizeof_header bs))))
      | _ \<Rightarrow> None)"

lemma read_header_run:
  assumes "file_read_header_fd cfg fd c0 s0 w = Some (r, c, s, w')"
    and "sys_read fd sizeof_header w = ((r1, bs), w1)"
  shows "w' = w1"
    and "if r1 = -1 then r = -1 \<and> c = c0 \<and> s = s0
      else if r1 = int sizeof_header
      then r = 0 \<and> (\<exists>cc. file_compressor cfg (header_of_bytes bs) = Some cc \<and> c = cc \<and>
             s = (if cc \<noteq> None then off_of_u64 (h_size (header_of_bytes bs)) else s0))
      else r = 0 \<and> c = c0 \<and> s = s0"
proof -
  have fd: "0 \<le> fd" using assms(1) by (auto simp: file_read_header_fd_def bind_eq_Some_conv)
  show "w' = w1"
    using assms fd by (auto simp: file_read_header_fd_def bind_eq_Some_conv split: if_splits)
  show "if r1 = -1 then r = -1 \<and> c = c0 \<and> s = s0
      else if r1 = int sizeof_header
      then r = 0 \<and> (\<exists>cc. file_compressor cfg (header_of_bytes bs) = Some cc \<and> c = cc \<and>
             s = (if cc \<noteq> None then off_of_u64 (h_size (header_of_bytes bs)) else s0))
      else r = 0 \<and> c = c0 \<and> s = s0"
    using assms fd
    by (cases "r1 = -1"; cases "r1 = int sizeof_header")
      (auto simp: file_read_header_fd_def bind_eq_Some_conv)
qed

lemma read_header_spec:
  assumes "file_read_header_fd cfg fd c0 s0 w = Some (r, c, s, w')"
  shows "repositioned fd w w'"
    and "r = -1 \<and> c = c0 \<and> s = s0 \<or>
      r = 0 \<and> c = c0 \<and> s = s0 \<or>
      r = 0 \<and> c = None \<and> s = s0 \<and> header_in cfg (rest_of w fd) = None \<or>
      (\<exists>c1. r = 0 \<and> c = Some c1 \<and> header_in cfg (rest_of w fd) = Some (c1, s) \<and>
         rest_of w' fd = drop sizeof_header (rest_of w fd))"
proof -
  obtain r1 bs w1 where rd: "sys_read fd sizeof_header w = ((r1, bs), w1)" by (metis prod.collapse)
  note sp = sys_read_rest [OF rd]
  note run = read_header_run [OF assms rd]
  show "repositioned fd w w'" using sp(1) run(1) by simp
  show "r = -1 \<and> c = c0 \<and> s = s0 \<or>
      r = 0 \<and> c = c0 \<and> s = s0 \<or>
      r = 0 \<and> c = None \<and> s = s0 \<and> header_in cfg (rest_of w fd) = None \<or>
      (\<exists>c1. r = 0 \<and> c = Some c1 \<and> header_in cfg (rest_of w fd) = Some (c1, s) \<and>
         rest_of w' fd = drop sizeof_header (rest_of w fd))"
  proof (cases "r1 = int sizeof_header")
    case False
    then show ?thesis using run(2) by (auto split: if_splits)
  next
    case True
    then have bs: "bs = take sizeof_header (rest_of w fd)" "sizeof_header \<le> length (rest_of w fd)"
      "rest_of w1 fd = drop sizeof_header (rest_of w fd)"
      using sp(2) by (auto simp: min_def split: if_splits)
    obtain cc where cc: "r = 0" "file_compressor cfg (header_of_bytes bs) = Some cc" "c = cc"
      "s = (if cc \<noteq> None then off_of_u64 (h_size (header_of_bytes bs)) else s0)"
      using run(2) True by auto
    show ?thesis
    proof (cases cc)
      case None
      then show ?thesis using cc bs by (simp add: header_in_def not_less)
    next
      case (Some c1)
      then show ?thesis using cc bs run(1) by (simp add: header_in_def not_less)
    qed
  qed
qed

lemma read_header_total:
  assumes "0 \<le> fd"
    and "sizeof_header \<le> length (rest_of w fd) \<Longrightarrow>
      file_compressor cfg (header_of_bytes (take sizeof_header (rest_of w fd))) \<noteq> None"
  shows "file_read_header_fd cfg fd c0 s0 w \<noteq> None"
proof -
  obtain r bs w4 where rd: "sys_read fd sizeof_header w = ((r, bs), w4)" by (metis prod.collapse)
  have "r = int sizeof_header \<longrightarrow> bs = take sizeof_header (rest_of w fd) \<and> sizeof_header \<le> length (rest_of w fd)"
    using sys_read_rest(2) [OF rd] by (auto simp: min_def split: if_splits)
  then show ?thesis
    using assms rd by (auto simp: file_read_header_fd_def)
qed

lemma read_header_clean:
  assumes "file_read_header_fd cfg fd c0 s0 w = Some (r, c, s, w')" and "clean w" and "can_read w fd"
  shows "clean w' \<and> can_read w' fd \<and> r = 0 \<and>
    (if length (rest_of w fd) < sizeof_header then c = c0 \<and> s = s0
     else (c, s) = (case header_in cfg (rest_of w fd) of None \<Rightarrow> (None, s0) | Some (c1, s1) \<Rightarrow> (Some c1, s1))) \<and>
    rest_of w' fd = drop sizeof_header (rest_of w fd)"
proof -
  obtain r1 bs w1 where rd: "sys_read fd sizeof_header w = ((r1, bs), w1)" by (metis prod.collapse)
  note sp = sys_read_clean [OF rd assms(2,3)]
  note run = read_header_run [OF assms(1) rd]
  have w: "clean w' \<and> can_read w' fd \<and> rest_of w' fd = drop sizeof_header (rest_of w fd)"
    using sp run(1) by simp
  show ?thesis
  proof (cases "length (rest_of w fd) < sizeof_header")
    case True
    then have "r1 \<noteq> int sizeof_header" "r1 \<noteq> -1" using sp(1,2) by simp_all
    then show ?thesis using w run(2) True by simp
  next
    case False
    then have r1: "r1 = int sizeof_header" "bs = take sizeof_header (rest_of w fd)"
      using sp(1,2) by simp_all
    then obtain cc where cc: "r = 0" "file_compressor cfg (header_of_bytes bs) = Some cc" "c = cc"
      "s = (if cc \<noteq> None then off_of_u64 (h_size (header_of_bytes bs)) else s0)"
      using run(2) by auto
    then show ?thesis using w False r1(2) by (cases cc) (simp_all add: header_in_def)
  qed
qed

section \<open>Without faults\<close>

text \<open>Nothing is used up of what the environment has in store, and no name is made or removed.\<close>

definition calm :: "world \<Rightarrow> world \<Rightarrow> bool" where
  "calm w w' \<longleftrightarrow> (clean w \<longrightarrow> clean w' \<and> suffixes w' = suffixes w \<and> names w' = names w)"

lemma calm_refl [simp]: "calm w w"
  by (simp add: calm_def)

lemma calm_trans [trans]: "calm a b \<Longrightarrow> calm b c \<Longrightarrow> calm a c"
  by (simp add: calm_def)

lemma calm_on_path: "on_path p f w = (r, w') \<Longrightarrow> calm w w'"
  by (auto simp: calm_def on_path_def syscall_clean fail_def set_inode_def split: option.splits)

lemma calm_on_fd: "on_fd fd f w = (r, w') \<Longrightarrow> calm w w'"
  by (auto simp: calm_def on_fd_def syscall_clean fail_def set_inode_def split: option.splits)

lemma calm_calls:
  "sys_chmod p m w = (r, w') \<Longrightarrow> calm w w'"
  "sys_utime p a b w = (r, w') \<Longrightarrow> calm w w'"
  "sys_fchmod fd m w = (r, w') \<Longrightarrow> calm w w'"
  "sys_fchown fd u g w = (r, w') \<Longrightarrow> calm w w'"
  "sys_statvfs p w = (r, w') \<Longrightarrow> calm w w'"
  "sys_fstat fd buf w = (x, w') \<Longrightarrow> calm w w'"
  "sys_lstat p buf w = (x, w') \<Longrightarrow> calm w w'"
  "sys_close fd w = (r, w') \<Longrightarrow> calm w w'"
  unfolding sys_chmod_def sys_utime_def sys_fchmod_def sys_fchown_def
  by (auto dest!: calm_on_path calm_on_fd
      simp: calm_def sys_statvfs_def sys_fstat_def sys_lstat_def sys_close_def syscall_clean
        next_outcome_clean fail_def split: option.splits if_splits)

lemma calm_open:
  "sys_open p flags m w = (fd, w') \<Longrightarrow> O_CREAT \<notin> flags \<Longrightarrow> O_TRUNC \<notin> flags \<Longrightarrow> calm w w'"
  by (auto simp: calm_def sys_open_def syscall_clean fail_def new_fd_def split: option.splits)

lemma open_succeeds:
  "sys_open p flags m w = (fd, w') \<Longrightarrow> clean w \<Longrightarrow> O_TRUNC \<notin> flags \<Longrightarrow> names w p = Some n \<Longrightarrow> fd \<noteq> -1"
  by (auto simp: sys_open_def syscall_clean new_fd_def)

lemma file_open_succeeds:
  assumes "file_open p flags w = (fd, w')" and "clean w" and "O_CREAT \<notin> flags" and "O_TRUNC \<notin> flags"
    and "names w p = Some n"
  shows "fd \<noteq> -1" and "calm w w'"
proof -
  obtain fd1 w1 where o1: "sys_open p flags 0 w = (fd1, w1)" by fastforce
  have "fd1 \<noteq> -1" by (rule open_succeeds [OF o1 assms(2,4,5)])
  then have "fd = fd1" "w' = w1" using assms(1) o1 by (auto simp: file_open_def)
  then show "fd \<noteq> -1" "calm w w'" using \<open>fd1 \<noteq> -1\<close> calm_open [OF o1 assms(3,4)] by simp_all
qed

lemma calm_read:
  assumes "sys_read fd n w = (x, w')"
  shows "calm w w'"
  using assms
  by (auto simp: calm_def sys_read_def next_outcome_clean Let_def set_ofile_def split: option.splits if_splits)

lemma calm_read_header:
  assumes "file_read_header_fd cfg fd c0 s0 w = Some (r, c, s, w')"
  shows "calm w w'"
proof -
  obtain x w1 where rd: "sys_read fd sizeof_header w = (x, w1)" by fastforce
  obtain r1 bs where x: "x = (r1, bs)" by (cases x)
  have "w' = w1" by (rule read_header_run(1) [OF assms rd [unfolded x]])
  then show ?thesis using calm_read [OF rd] by simp
qed

text \<open>The next candidate for a temporary name is one that \<open>mkstemp\<close> accepts.\<close>

definition temp_ready :: "world \<Rightarrow> bool" where
  "temp_ready w \<longleftrightarrow> (\<exists>x xs. suffixes w = x # xs \<and> length x = 6 \<and> names w (TEMP @ x) = None)"

lemma temp_ready_calm: "temp_ready w \<Longrightarrow> clean w \<Longrightarrow> calm w w' \<Longrightarrow> temp_ready w' \<and> clean w'"
  by (simp add: temp_ready_def calm_def)

lemma create_temp_succeeds:
  "file_create_temp w = ((temp, fd), w') \<Longrightarrow> clean w \<Longrightarrow> temp_ready w \<Longrightarrow> temp \<noteq> None"
  unfolding file_create_temp_def temp_ready_def
  by (subst (asm) file_create_temp_loop.simps)
    (auto simp: sys_mkstemp_def next_outcome_clean Let_def new_inode_def new_fd_def)

lemma rename_succeeds:
  "sys_rename t p w = (r, w') \<Longrightarrow> clean w \<Longrightarrow> names w t = Some n \<Longrightarrow> r = 0 \<and> clean w'"
  by (auto simp: sys_rename_def syscall_clean split: if_splits)

lemma utime_succeeds:
  "sys_utime p a m w = (r, w') \<Longrightarrow> clean w \<Longrightarrow> world_ok w \<Longrightarrow> names w p = Some n \<Longrightarrow> r = 0"
  using world_ok_names [of w p n]
  by (auto simp: sys_utime_def on_path_def syscall_clean)

end
