(* ===== verification/DecompressFacts.thy ===== *)
theory DecompressFacts
  imports Compress Quiet
begin

text \<open>
  \<open>do_decompress\<close> for every fault script: it returns, the file holds its old bytes or its
  decompressed ones, and no other file changes.
\<close>

section \<open>Files that exist keep their bytes\<close>

text \<open>Of the inodes there were, those that had a name keep their data, and the names stay.\<close>

definition kept :: "world \<Rightarrow> world \<Rightarrow> bool" where
  "kept w w' \<longleftrightarrow>
     world_ok w' \<and> next_ino w \<le> next_ino w' \<and> next_fd w \<le> next_fd w' \<and>
     (\<forall>p n. names w p = Some n \<longrightarrow> names w' p = Some n) \<and>
     (\<forall>p n. names w p = Some n \<longrightarrow> n < next_ino w \<longrightarrow>
        map_option idata (inodes w' n) = map_option idata (inodes w n))"

lemma keptD:
  assumes "kept w w'"
  shows "world_ok w'" "next_ino w \<le> next_ino w'" "next_fd w \<le> next_fd w'"
    "names w p = Some n \<Longrightarrow> names w' p = Some n"
    "names w p = Some n \<Longrightarrow> n < next_ino w \<Longrightarrow> map_option idata (inodes w' n) = map_option idata (inodes w n)"
  using assms unfolding kept_def by blast+

lemma kept_refl: "world_ok w \<Longrightarrow> kept w w"
  by (simp add: kept_def)

lemma kept_trans [trans]:
  assumes "kept w1 w2" and "kept w2 w3"
  shows "kept w1 w3"
proof -
  note a = keptD [OF assms(1)] and b = keptD [OF assms(2)]
  show ?thesis
    unfolding kept_def
  proof (intro conjI allI impI)
    show "world_ok w3" "next_ino w1 \<le> next_ino w3" "next_fd w1 \<le> next_fd w3"
      using a(2,3) b(1-3) by simp_all
    show "names w3 p = Some n" if "names w1 p = Some n" for p n
      by (rule b(4) [OF a(4) [OF that]])
    show "map_option idata (inodes w3 n) = map_option idata (inodes w1 n)"
      if "names w1 p = Some n" "n < next_ino w1" for p n
      using a(2) a(5) [OF that] b(5) [OF a(4) [OF that(1)]] that(2) by simp
  qed
qed

lemma quiet_kept: "quiet C w w' \<Longrightarrow> kept w w'"
  unfolding quiet_def kept_def by blast

lemma repositioned_kept: "repositioned fd w w' \<Longrightarrow> world_ok w \<Longrightarrow> kept w w'"
  using repositioned_same [of fd w w'] repositioned_world_ok [of fd w w'] by (simp add: kept_def)

text \<open>Writing to files that came later, or had no name.\<close>

lemma io_only_kept:
  assumes "kept w0 w" and "io_only D w w'"
    and "\<And>n. n \<in> D \<Longrightarrow> next_ino w0 \<le> n \<or> (\<forall>p. names w0 p \<noteq> Some n)"
  shows "kept w0 w'"
proof -
  note a = keptD [OF assms(1)] and b = io_onlyD [OF assms(2)]
  show ?thesis
    unfolding kept_def
  proof (intro conjI allI impI)
    show "world_ok w'" by (rule io_only_world_ok [OF assms(2) a(1)])
    show "next_ino w0 \<le> next_ino w'" "next_fd w0 \<le> next_fd w'" using a(2,3) b(3,5) by simp_all
    show "names w' p = Some n" if "names w0 p = Some n" for p n using a(4) [OF that] b(1) by simp
    fix p n assume n: "names w0 p = Some n" "n < next_ino w0"
    then have "n \<notin> D" using assms(3) by (metis leD)
    then show "map_option idata (inodes w' n) = map_option idata (inodes w0 n)"
      using a(5) [OF n] b(8) by simp
  qed
qed

lemma kept_contents:
  assumes "kept w w'" and "world_ok w" and "contents w p = Some bs"
  shows "contents w' p = Some bs"
proof -
  obtain n i where n: "names w p = Some n" "inodes w n = Some i" "idata i = bs"
    using assms(3) by (auto simp: contents_def file_of_def bind_eq_Some_conv)
  then have "map_option idata (inodes w' n) = Some bs"
    using keptD(5) [OF assms(1) n(1)] world_ok_inodes [OF assms(2) n(2)] by simp
  then show ?thesis using keptD(4) [OF assms(1) n(1)] by (auto simp: contents_def file_of_def)
qed

section \<open>The calls that change names\<close>

lemma rename_over:
  assumes "sys_rename t p w = (r, w')" and "world_ok w" and "names w t = Some n" and "names w p \<noteq> Some n"
  shows "world_ok w' \<and> next_fd w' = next_fd w \<and>
    (r = FAIL \<and> agree w' w \<or>
     r = 0 \<and> names w' p = Some n \<and> contents w' p = contents w t \<and>
       (\<forall>q. q \<noteq> p \<longrightarrow> q \<noteq> t \<longrightarrow> contents w' q = contents w q))"
  using sys_rename_spec [OF assms(1)]
proof (elim disjE conjE exE)
  assume "r = FAIL" and a: "agree w' w"
  then show ?thesis using world_ok_agree [OF a] assms(2) by (simp add: agree_iff)
next
  fix m assume "names w t = Some m" "names w p = Some m"
  then show ?thesis using assms(3,4) by simp
next
  fix m
  let ?w1 = "w\<lparr>names := (names w)(t := None, p := Some m),
      inodes := (case names w p of None \<Rightarrow> inodes w
        | Some x \<Rightarrow> (inodes w)(x := map_option (\<lambda>i. i\<lparr>inlink := inlink i - 1\<rparr>) (inodes w x)))\<rparr>"
  assume r: "r = 0" "names w t = Some m" and a: "agree w' ?w1"
  have m: "m = n" using r(2) assms(3) by simp
  have w1: "world_ok ?w1" by (rule world_ok_rename_names [OF assms(2) r(2)])
  have tp: "t \<noteq> p" using assms(3,4) by auto
  have d: "map_option idata (inodes ?w1 x) = map_option idata (inodes w x)" for x
    by (cases "names w p") (auto simp: option.map_comp comp_def)
  have "contents ?w1 q = (if q = p then contents w t else if q = t then None else contents w q)" for q
  proof -
    have c: "contents v y = Option.bind (names v y) (\<lambda>x. map_option idata (inodes v x))" for v y
      by (cases "names v y") (simp_all add: contents_def file_of_def)
    show ?thesis unfolding c d using r(2) by simp
  qed
  moreover have "contents w' q = contents ?w1 q" for q
    using a by (simp add: contents_def file_of_def agree_iff)
  moreover have "world_ok w'" using world_ok_agree [OF a] w1 by simp
  ultimately show ?thesis using r(1) m a tp by (simp add: agree_iff)
qed

lemma unlink_other:
  assumes "sys_unlink t w = (r, w')" and "world_ok w"
  shows "world_ok w' \<and> (\<forall>q. q \<noteq> t \<longrightarrow> contents w' q = contents w q)"
  using sys_unlink_spec [OF assms(1)]
proof (elim disjE conjE exE)
  assume a: "agree w' w"
  then show ?thesis
    using world_ok_agree [OF a] assms(2) by (simp add: agree_iff contents_def file_of_def)
next
  fix n
  let ?w1 = "w\<lparr>names := (names w)(t := None),
      inodes := (inodes w)(n := map_option (\<lambda>i. i\<lparr>inlink := inlink i - 1\<rparr>) (inodes w n))\<rparr>"
  assume a: "agree w' ?w1"
  have w1: "world_ok ?w1"
    using assms(2) unfolding world_ok_def by (auto split: if_splits)
  have c: "contents v y = Option.bind (names v y) (\<lambda>x. map_option idata (inodes v x))" for v y
    by (cases "names v y") (simp_all add: contents_def file_of_def)
  have d: "map_option idata (inodes ?w1 x) = map_option idata (inodes w x)" for x
    by (simp add: option.map_comp comp_def)
  have "contents ?w1 q = contents w q" if "q \<noteq> t" for q
    unfolding c d using that by simp
  moreover have "contents w' q = contents ?w1 q" for q
    using a by (simp add: contents_def file_of_def agree_iff)
  ultimately show ?thesis using world_ok_agree [OF a] w1 by simp
qed

section \<open>Closing and reopening the descriptors of a file\<close>

text \<open>No stream of a compressor is open, and the descriptors are numbers the kernel gave out.\<close>

definition plain_fds :: "file_t \<Rightarrow> world \<Rightarrow> bool" where
  "plain_fds f w \<longleftrightarrow> (\<forall>d \<in> set (head f). d_handle d = None \<and> 0 \<le> d_fd d \<and> d_fd d < int (next_fd w))"

definition only_type_changed :: "file_t \<Rightarrow> file_t \<Rightarrow> bool" where
  "only_type_changed f f' \<longleftrightarrow> f' = f\<lparr>ftype := ftype f', dontcompress := dontcompress f'\<rparr>"

lemma only_type_changed_refl [simp]: "only_type_changed f f"
  by (simp add: only_type_changed_def)

lemma only_type_changed_trans:
  "only_type_changed a b \<Longrightarrow> only_type_changed b c \<Longrightarrow> only_type_changed a c"
  by (cases a; cases b; cases c) (simp add: only_type_changed_def)

lemma direct_close_plain:
  assumes "d_handle d = None" and "world_ok w"
  shows "\<exists>f' w'. direct_close cfg f d w = Some (0, f', d, w') \<and> quiet C w w' \<and> only_type_changed f f' \<and>
    calm w w'"
proof -
  obtain r st w1 where fs: "sys_fstat (d_fd d) no_stat w = ((r, st), w1)" by (metis prod.collapse)
  have q1: "quiet C w w1" by (rule quiet_fstat [OF fs assms(2)])
  obtain r2 w2 where ut: "sys_utime (filename f) (fst (st_atim st)) (fst (st_mtim st)) w1 = (r2, w2)" by fastforce
  have q2: "quiet C w w2" by (rule quiet_trans [OF q1 quiet_utime [OF ut quietD(1) [OF q1]]])
  show ?thesis
    using fs ut assms(1) q1 q2 calm_calls(6) [OF fs] calm_trans [OF calm_calls(6) [OF fs] calm_calls(2) [OF ut]]
    by (auto simp: direct_close_def Let_def only_type_changed_def)
qed

lemma close_all_plain:
  assumes "\<forall>d \<in> set ds. d_handle d = None \<and> 0 \<le> d_fd d \<and> d_fd d \<in> C" and "world_ok w"
  shows "\<exists>f' ds' w'. close_all cfg f ds w = Some (f', ds', w') \<and> quiet C w w' \<and> only_type_changed f f' \<and>
    length ds' = length ds \<and> calm w w'"
  using assms
proof (induction ds arbitrary: f w)
  case Nil
  then show ?case by simp
next
  case (Cons d ds)
  obtain f1 w1 where 1: "direct_close cfg f d w = Some (0, f1, d, w1)" "quiet C w w1" "only_type_changed f f1" "calm w w1"
    using direct_close_plain [of d w cfg f C] Cons.prems by auto
  obtain r w2 where cl: "sys_close (d_fd d) w1 = (r, w2)" by fastforce
  have q2: "quiet C w w2"
    by (rule quiet_trans [OF 1(2) quiet_close [OF cl quietD(1) [OF 1(2)]]]) (use Cons.prems in simp)
  have fc: "file_close (d_fd d) w1 = Some (-1, w2)"
    using cl Cons.prems(1) by (simp add: file_close_def)
  obtain f3 ds' w3 where 3: "close_all cfg f1 ds w2 = Some (f3, ds', w3)" "quiet C w2 w3" "only_type_changed f1 f3"
    "length ds' = length ds" "calm w2 w3"
    using Cons.IH [OF _ quietD(1) [OF q2], of f1] Cons.prems by auto
  show ?case
    using 1(1) fc 3(1,4) quiet_trans [OF q2 3(2)] only_type_changed_trans [OF 1(3) 3(3)]
      calm_trans [OF 1(4) calm_trans [OF calm_calls(8) [OF cl] 3(5)]] by simp
qed

lemma reopen_all_quiet:
  assumes "reopen_all temp ds w = (ds', w')" and "world_ok w"
  shows "quiet {} w w' \<and> length ds' = length ds \<and> calm w w'"
  using assms
proof (induction ds arbitrary: ds' w w')
  case Nil
  then show ?case by simp
next
  case (Cons d ds)
  obtain fd w1 where o1: "sys_open temp {O_RDWR} 0 w = (fd, w1)" by fastforce
  obtain ds2 w2 where r: "reopen_all temp ds w1 = (ds2, w2)" by fastforce
  have q1: "quiet {} w w1" by (rule quiet_open(1) [OF o1 Cons.prems(2)]) simp_all
  note ih = Cons.IH [OF r quietD(1) [OF q1]]
  have "ds' = d\<lparr>d_fd := fd\<rparr> # ds2" "w' = w2" using Cons.prems(1) o1 r by auto
  moreover have "calm w w1" by (rule calm_open [OF o1]) simp_all
  ultimately show ?case using ih quiet_trans [OF q1] calm_trans [of w w1] by simp
qed

section \<open>From the decompressed file on\<close>

text \<open>The bytes of every file but \<open>p\<close>.\<close>

definition others :: "world \<Rightarrow> world \<Rightarrow> path \<Rightarrow> bool" where
  "others w w' p \<longleftrightarrow> world_ok w' \<and> (\<forall>q b. q \<noteq> p \<longrightarrow> contents w q = Some b \<longrightarrow> contents w' q = Some b)"

lemma kept_others: "kept w w' \<Longrightarrow> world_ok w \<Longrightarrow> others w w' p"
  unfolding others_def using kept_contents keptD(1) by blast

lemma others_quiet: "others w w1 p \<Longrightarrow> quiet C w1 w2 \<Longrightarrow> others w w2 p"
  unfolding others_def using quiet_contents quietD(1) by blast

lemma fresh_temp_unnamed: "names w temp = None \<Longrightarrow> contents w temp = None"
  by (simp add: contents_def file_of_def)

lemma temp_unlinked:
  assumes "kept w w1" and "world_ok w" and "names w temp = None" and "sys_unlink temp w1 = (r, w2)"
  shows "others w w2 p" and "contents w p = Some bs \<Longrightarrow> contents w2 p = Some bs"
proof -
  note u = unlink_other [OF assms(4) keptD(1) [OF assms(1)]]
  have "contents w2 q = Some b" if "contents w q = Some b" for q b
  proof -
    have "q \<noteq> temp" using that fresh_temp_unnamed [OF assms(3)] by auto
    then show ?thesis using u kept_contents [OF assms(1,2) that] by simp
  qed
  then show "others w w2 p" "contents w p = Some bs \<Longrightarrow> contents w2 p = Some bs"
    using u unfolding others_def by blast+
qed

lemma replace_decompressed_spec:
  assumes "kept w0 w" and "world_ok w0" and "names w0 temp = None"
    and "contents w0 (filename f) = Some bs"
    and "0 \<le> fd_source" and "0 \<le> fd_temp"
    and "names w temp = Some n" and "next_ino w0 \<le> n" and "contents w temp = Some out"
  shows "\<exists>ok f' w'. replace_decompressed f fd_source fd_temp temp stbuf sz w = Some (ok, f', w') \<and>
    others w0 w' (filename f) \<and>
    (contents w' (filename f) = Some bs \<or> contents w' (filename f) = Some out) \<and>
    (ok \<longrightarrow> contents w' (filename f) = Some out \<and> fcompressor f' = None \<and> fsize f' = sz) \<and>
    (clean w \<longrightarrow> ok)"
proof -
  obtain ds w1 where ro: "reopen_all temp (head f) w = (ds, w1)" by fastforce
  note q1 = conjunct1 [OF reopen_all_quiet [OF ro keptD(1) [OF assms(1)]]]
  obtain r2 w2 where co: "sys_fchown fd_temp (st_uid stbuf) (st_gid stbuf) w1 = (r2, w2)" by fastforce
  have q2: "quiet {} w w2" by (rule quiet_trans [OF q1 quiet_fchown [OF co quietD(1) [OF q1]]])
  obtain r3 w3 where cm: "sys_fchmod fd_temp (st_mode stbuf) w2 = (r3, w3)" by fastforce
  have q3: "quiet {} w w3" by (rule quiet_trans [OF q2 quiet_fchmod [OF cm quietD(1) [OF q2]]])
  have calm3: "calm w w3"
    using reopen_all_quiet [OF ro keptD(1) [OF assms(1)]] calm_calls(4) [OF co] calm_calls(3) [OF cm]
    by (auto intro: calm_trans)
  have k3: "kept w0 w3" by (rule kept_trans [OF assms(1) quiet_kept [OF q3]])
  obtain res w4 where rn: "sys_rename temp (filename f) w3 = (res, w4)" by fastforce
  have t3: "names w3 temp = Some n" by (rule quietD(5) [OF q3 assms(7)])
  have np: "names w3 (filename f) \<noteq> Some n"
  proof -
    obtain m i where m: "names w0 (filename f) = Some m" "inodes w0 m = Some i"
      using assms(4) by (auto simp: contents_def file_of_def bind_eq_Some_conv)
    then show ?thesis using keptD(4) [OF k3 m(1)] world_ok_inodes [OF assms(2) m(2)] assms(8) by simp
  qed
  note ren = rename_over [OF rn quietD(1) [OF q3] t3 np]
  have out3: "contents w3 temp = Some out" by (rule quiet_contents [OF q3 keptD(1) [OF assms(1)] assms(9)])
  show ?thesis
  proof (cases "res = -1")
    case True
    then have a: "agree w4 w3" using ren by auto
    then have q4: "quiet {} w w4" by (rule quiet_then_agree [OF q3])
    have k4: "kept w0 w4" by (rule kept_trans [OF assms(1) quiet_kept [OF q4]])
    have "replace_decompressed f fd_source fd_temp temp stbuf sz w = Some (False, f\<lparr>head := ds\<rparr>, w4)"
      using ro co cm rn True by (simp add: replace_decompressed_def)
    moreover have "\<not> clean w"
      using rename_succeeds [OF rn _ t3] calm3 True by (auto simp: calm_def)
    ultimately show ?thesis using kept_others [OF k4 assms(2)] kept_contents [OF k4 assms(2,4)] by auto
  next
    case False
    then have r: "res = 0" "world_ok w4" "contents w4 (filename f) = Some out"
      "\<forall>q. q \<noteq> filename f \<longrightarrow> q \<noteq> temp \<longrightarrow> contents w4 q = contents w3 q"
      using ren out3 by auto
    have o4: "others w0 w4 (filename f)"
      unfolding others_def
    proof (intro conjI allI impI)
      show "world_ok w4" by (rule r(2))
      fix q b assume q: "q \<noteq> filename f" "contents w0 q = Some b"
      then have "q \<noteq> temp" using fresh_temp_unnamed [OF assms(3)] by auto
      then show "contents w4 q = Some b" using r(4) q kept_contents [OF k3 assms(2)] by simp
    qed
    obtain r5 w5 where c5: "sys_close fd_source w4 = (r5, w5)" by fastforce
    have q5: "quiet UNIV w4 w5" by (rule quiet_close [OF c5 r(2)]) simp
    obtain r6 w6 where c6: "sys_close fd_temp w5 = (r6, w6)" by fastforce
    have q6: "quiet UNIV w4 w6" by (rule quiet_trans [OF q5 quiet_close [OF c6 quietD(1) [OF q5]]]) simp
    obtain r7 w7 where u7: "sys_utime (filename f) (fst (st_atim stbuf)) (fst (st_mtim stbuf)) w6 = (r7, w7)"
      by fastforce
    have q7: "quiet UNIV w4 w7" by (rule quiet_trans [OF q6 quiet_utime [OF u7 quietD(1) [OF q6]]])
    have fc: "file_close fd_source w4 = Some (-1, w5)" "file_close fd_temp w5 = Some (-1, w6)"
      using c5 c6 assms(5,6) by (simp_all add: file_close_def)
    have "replace_decompressed f fd_source fd_temp temp stbuf sz w =
        Some (r7 \<noteq> -1, (if r7 = -1 then f\<lparr>head := ds\<rparr> else f\<lparr>head := ds, fcompressor := None, fsize := sz\<rparr>), w7)"
      using ro co cm rn False fc u7 by (simp add: replace_decompressed_def)
    moreover have "r7 \<noteq> -1" if "clean w"
    proof -
      have "clean w4" using rename_succeeds [OF rn _ t3] calm3 that by (simp add: calm_def)
      then have "clean w6" using calm_calls(8) [OF c5] calm_calls(8) [OF c6] by (simp add: calm_def)
      moreover have "names w4 (filename f) = Some n" using ren False by auto
      then have "names w6 (filename f) = Some n" by (rule quietD(5) [OF q6])
      ultimately show ?thesis using utime_succeeds [OF u7 _ quietD(1) [OF q6]] by simp
    qed
    ultimately show ?thesis
      using others_quiet [OF o4 q7] quiet_contents [OF q7 r(2,3)] by simp
  qed
qed

section \<open>do_decompress\<close>

text \<open>Every module of the table keeps the contract, \<open>decode c\<close> being the format of number \<open>c\<close>.\<close>

definition table_ok :: "config \<Rightarrow> (nat \<Rightarrow> byte list \<Rightarrow> byte list option) \<Rightarrow> bool" where
  "table_ok cfg decode \<longleftrightarrow>
     length (compressors cfg) = 5 \<and>
     (\<forall>c m. module_of cfg c = Some m \<longrightarrow>
        unat (ctype m) = c \<and> codec_module (decompress m) (decode c) (compress m) True)"

lemma table_ok_module:
  assumes "table_ok cfg decode" and "module_of cfg c = Some m"
  shows "decompress_module (decompress m) (decode c)" and "compress_module (compress m) (decode c) True"
    and "unat (ctype m) = c"
  using assms unfolding table_ok_def codec_module_def by blast+

lemma header_in_module: "header_in cfg bs = Some (c, sz) \<Longrightarrow> \<exists>m. module_of cfg c = Some m"
  using find_compressor_Some
  by (auto simp: header_in_def file_compressor_def module_of_def split: if_splits option.splits)

lemma decompress_source_spec:
  assumes "table_ok cfg decode" and "module_of cfg c = Some m"
    and "kept w0 w" and "world_ok w0" and "contents w0 (filename f) = Some bs"
    and "fcompressor f = None \<or> fcompressor f = Some c"
    and "plain_fds f w0" and "int (next_fd w0) \<le> fd_source" and "fd_source < int (next_fd w)"
    and "ino_of w fd_source = Some ino" and "ino < next_ino w0"
    and "decode c (rest_of w fd_source) = Some out" and "sz = int (length out)"
  shows "\<exists>ok f' w'. decompress_source cfg f fd_source c sz w = Some (ok, f', w') \<and>
    others w0 w' (filename f) \<and>
    (contents w' (filename f) = Some bs \<or> contents w' (filename f) = Some out) \<and>
    (ok \<longrightarrow> contents w' (filename f) = Some out \<and> fcompressor f' = None \<and> fsize f' = sz) \<and>
    (clean w \<and> temp_ready w \<and> can_read w fd_source \<longrightarrow> ok)"
proof -
  let ?f0 = "if fcompressor f = None then f\<lparr>fcompressor := Some c\<rparr> else f"
  let ?C = "{fd. fd < int (next_fd w0)}"
  have f0: "fcompressor ?f0 = Some c" "head ?f0 = head f" "filename ?f0 = filename f" using assms(6) by auto
  obtain f1 ds w1 where ca: "close_all cfg ?f0 (head f) w = Some (f1, ds, w1)" "quiet ?C w w1" "only_type_changed ?f0 f1"
    "calm w w1"
    using close_all_plain [of "head f" ?C w cfg ?f0] assms(7) keptD(1) [OF assms(3)]
    unfolding plain_fds_def by auto
  have f1: "filename f1 = filename f"
    using ca(3) f0(3) unfolding only_type_changed_def by (metis file_t.select_convs(1) file_t.surjective file_t.update_convs(8) file_t.update_convs(9))
  obtain r2 stbuf w2 where fs: "sys_fstat fd_source no_stat w1 = ((r2, stbuf), w2)" by (metis prod.collapse)
  have q2: "quiet ?C w w2" by (rule quiet_trans [OF ca(2) quiet_fstat [OF fs quietD(1) [OF ca(2)]]])
  have k2: "kept w0 w2" by (rule kept_trans [OF assms(3) quiet_kept [OF q2]])
  have src: "0 \<le> fd_source" "fd_source \<notin> ?C" using assms(8) by auto
  obtain k where k: "fdtab w fd_source = Some k"
    using assms(10) by (auto simp: ino_of_def fd_ofile_def bind_eq_Some_conv)
  have calm2: "calm w w2" by (rule calm_trans [OF ca(4) calm_calls(6) [OF fs]])
  have fstat_ok: "\<not> (clean w \<and> temp_ready w \<and> can_read w fd_source)" if "r2 = -1"
  proof
    assume "clean w \<and> temp_ready w \<and> can_read w fd_source"
    then have "clean w1" "can_read w1 fd_source"
      using ca(4) quiet_fd(8) [OF ca(2) keptD(1) [OF assms(3)] k src(2)] by (simp_all add: calm_def)
    then show False
      using fs that by (auto simp: sys_fstat_def next_outcome_clean can_read_def fd_ofile_def)
  qed
  let ?f2 = "f1\<lparr>head := ds\<rparr>"
  have start: "decompress_source cfg f fd_source c sz w =
      (if r2 = -1 then do { (_, w) \<leftarrow> file_close fd_source w2; Some (False, ?f2, w) }
       else (case file_create_temp w2 of
           ((None, _), w) \<Rightarrow> Some (False, ?f2, w)
         | ((Some temp, fd_temp), w) \<Rightarrow> do {
             let f = ?f2\<lparr>status := insert DECOMPRESSING (status ?f2)\<rparr>;
             m \<leftarrow> module_of cfg c;
             (sz', w) \<leftarrow> decompress m fd_source fd_temp w;
             let f = f\<lparr>status := status f - {DECOMPRESSING, CANCEL}\<rparr>;
             if sz' = FAIL \<or> sz' \<noteq> sz then do {
               (_, w) \<leftarrow> file_close fd_temp w;
               Some (False, f, snd (sys_unlink temp w))
             }
             else replace_decompressed f fd_source fd_temp temp stbuf sz' w
           }))"
    using ca(1) fs f0(1,2) by (simp add: decompress_source_def Let_def)
  have fail: "\<exists>ok f' w'. Some (False, g, v) = Some (ok, f', w') \<and>
      others w0 w' (filename f) \<and>
      (contents w' (filename f) = Some bs \<or> contents w' (filename f) = Some out) \<and>
      (ok \<longrightarrow> contents w' (filename f) = Some out \<and> fcompressor f' = None \<and> fsize f' = sz) \<and>
      (clean w \<and> temp_ready w \<and> can_read w fd_source \<longrightarrow> ok)"
    if "others w0 v (filename f)" "contents v (filename f) = Some bs"
      "\<not> (clean w \<and> temp_ready w \<and> can_read w fd_source)" for g :: file_t and v
    using that by auto
  show ?thesis
  proof (cases "r2 = -1")
    case True
    obtain r3 w3 where c3: "sys_close fd_source w2 = (r3, w3)" by fastforce
    have q3: "quiet UNIV w2 w3" by (rule quiet_close [OF c3 quietD(1) [OF q2]]) simp
    have k3: "kept w0 w3" by (rule kept_trans [OF k2 quiet_kept [OF q3]])
    have "decompress_source cfg f fd_source c sz w = Some (False, ?f2, w3)"
      using start True c3 src(1) by (simp add: file_close_def)
    then show ?thesis
      using fail [OF kept_others [OF k3 assms(4)] kept_contents [OF k3 assms(4,5)] fstat_ok [OF True]] by simp
  next
    case r2: False
    obtain temp fd_temp w3 where ct: "file_create_temp w2 = ((temp, fd_temp), w3)" by (metis prod.collapse)
    note t3 = quiet_create_temp [OF ct quietD(1) [OF q2]]
    have k3: "kept w0 w3" by (rule kept_trans [OF k2 quiet_kept [OF t3(1)]])
    show ?thesis
    proof (cases temp)
      case None
      then have "decompress_source cfg f fd_source c sz w = Some (False, ?f2, w3)"
        using start r2 ct by simp
      moreover have "\<not> (clean w \<and> temp_ready w \<and> can_read w fd_source)"
        using create_temp_succeeds [OF ct] temp_ready_calm [OF _ _ calm2] None by blast
      ultimately show ?thesis
        using fail [OF kept_others [OF k3 assms(4)] kept_contents [OF k3 assms(4,5)]] by simp
    next
      case (Some t)
      then have ft: "fresh_temp w2 t fd_temp w3" using t3(2) by auto
      obtain n where n: "next_ino w2 \<le> n" "names w3 t = Some n" "opened w3 fd_temp n {O_RDWR}"
        using ft by (auto simp: fresh_temp_def)
      have n0: "next_ino w0 \<le> n" using n(1) keptD(2) [OF k2] by simp
      have tfd: "0 \<le> fd_temp" "at_end w3 fd_temp" "data_of w3 fd_temp = []" "names w2 t = None"
        using ft by (auto simp: fresh_temp_def)
      have w3: "world_ok w3" by (rule quietD(1) [OF t3(1)])
      have q3: "quiet ?C w w3" by (rule quiet_trans [OF q2 quiet_mono [OF t3(1)]]) simp
      note sv = quiet_fd [OF q3 keptD(1) [OF assms(3)] k src(2)]
      have in3: "ino_of w3 fd_temp = Some n" by (rule opened_views(1) [OF n(3) w3])
      have sep: "separate w3 fd_source fd_temp"
        using sv(4) assms(10,11) in3 n0 by (auto simp: separate_def)
      note dm = table_ok_module(1) [OF assms(1,2)]
      obtain r w4 where de: "decompress m fd_source fd_temp w3 = Some (r, w4)" "io_only {n} w3 w4" "at_end w4 fd_temp"
        using decompress_module.dec_total [OF dm w3 tfd(2) sep] in3 by auto
      have k4: "kept w0 w4" by (rule io_only_kept [OF k3 de(2)]) (use n0 in simp)
      let ?f3 = "?f2\<lparr>status := insert DECOMPRESSING (status ?f2) - {DECOMPRESSING, CANCEL}\<rparr>"
      have run: "decompress_source cfg f fd_source c sz w =
          (if r = FAIL \<or> r \<noteq> sz then do {
             (_, w) \<leftarrow> file_close fd_temp w4; Some (False, ?f3, snd (sys_unlink t w)) }
           else replace_decompressed ?f3 fd_source fd_temp t stbuf r w4)"
        using start r2 ct Some assms(2) de(1) by (simp add: Let_def)
      have good: "r = sz \<and> clean w4" if "clean w \<and> temp_ready w \<and> can_read w fd_source"
      proof -
        have "clean w3" using create_temp_clean [OF ct] calm2 that by (simp add: calm_def)
        then show ?thesis
          using decompress_module.dec_clean [OF dm w3 tfd(2) sep de(1), of out] sv(5,8) that assms(12,13) by simp
      qed
      have nt: "names w0 t = None"
        using keptD(4) [OF k2, of t] tfd(4) by (cases "names w0 t") auto
      show ?thesis
      proof (cases "r = FAIL \<or> r \<noteq> sz")
        case True
        obtain r5 w5 where c5: "sys_close fd_temp w4 = (r5, w5)" by fastforce
        have q5: "quiet UNIV w4 w5" by (rule quiet_close [OF c5 keptD(1) [OF k4]]) simp
        obtain r6 w6 where u6: "sys_unlink t w5 = (r6, w6)" by fastforce
        have k5: "kept w0 w5" by (rule kept_trans [OF k4 quiet_kept [OF q5]])
        note u = temp_unlinked [OF k5 assms(4) nt u6]
        have "decompress_source cfg f fd_source c sz w = Some (False, ?f3, w6)"
          using run True c5 u6 tfd(1) by (simp add: file_close_def)
        moreover have "\<not> (clean w \<and> temp_ready w \<and> can_read w fd_source)"
          using good True assms(13) by auto
        ultimately show ?thesis using fail [OF u(1) u(2) [OF assms(5)]] by simp
      next
        case False
        obtain out' where o': "decode c (rest_of w3 fd_source) = Some out'" "0 \<le> r" "r \<le> int (length out')"
          "r = int (length out') \<longrightarrow> data_of w4 fd_temp = data_of w3 fd_temp @ out'"
          using decompress_module.dec_result [OF dm w3 tfd(2) sep de(1)] False by blast
        have data: "data_of w4 fd_temp = out"
          using o' sv(5) assms(12,13) False tfd(3) by simp
        have "names w4 t = Some n" "ino_of w4 fd_temp = Some n"
          using n(2) io_onlyD(1) [OF de(2)] io_only_ino_of [OF de(2)] in3 by simp_all
        then have ct4: "contents w4 t = Some out"
          using contents_fd [of w4 t fd_temp] de(3) data by simp
        from replace_decompressed_spec [OF k4 assms(4) nt, of ?f3 bs fd_source fd_temp n out stbuf r]
        show ?thesis
          using run False f1 assms(5) src(1) tfd(1) \<open>names w4 t = Some n\<close> n0 ct4 good by auto
      qed
    qed
  qed
qed

text \<open>
  The file is well formed: a header of a known type, and a body that decodes to as many
  bytes as the header says. (If the read of the header returns fewer than its twelve bytes, the
  code takes the file for one that is not compressed; then \<open>fsize\<close> is -1.)
\<close>

lemma do_decompress_spec:
  assumes "table_ok cfg decode" and "world_ok w" and "contents w (filename f) = Some bs"
    and "header_in cfg bs = Some (c, int (length out))" and "decode c (drop sizeof_header bs) = Some out"
    and "fcompressor f = None \<or> fcompressor f = Some c" and "plain_fds f w"
  shows "\<exists>ok f' w'. do_decompress cfg f w = Some (ok, f', w') \<and>
    others w w' (filename f) \<and>
    (contents w' (filename f) = Some bs \<or> contents w' (filename f) = Some out) \<and>
    (ok \<longrightarrow> fcompressor f' = None \<and>
       (contents w' (filename f) = Some out \<and> fsize f' = int (length out) \<or>
        contents w' (filename f) = Some bs \<and> fsize f' = -1)) \<and>
    (clean w \<and> temp_ready w \<and> \<not> no_space (fsize f) w \<longrightarrow> ok \<and> contents w' (filename f) = Some out)"
proof -
  let ?good = "clean w \<and> temp_ready w \<and> \<not> no_space (fsize f) w"
  obtain r1 w1 where sv: "sys_statvfs (filename f) w = (r1, w1)" by fastforce
  have q1: "quiet {} w w1" by (rule quiet_statvfs [OF sv assms(2)])
  have fail: "\<exists>ok f' w'. Some (False, g, v) = Some (ok, f', w') \<and>
      others w w' (filename f) \<and>
      (contents w' (filename f) = Some bs \<or> contents w' (filename f) = Some out) \<and>
      (ok \<longrightarrow> fcompressor f' = None \<and>
       (contents w' (filename f) = Some out \<and> fsize f' = int (length out) \<or>
        contents w' (filename f) = Some bs \<and> fsize f' = -1)) \<and>
      (?good \<longrightarrow> ok \<and> contents w' (filename f) = Some out)"
    if "kept w v" "\<not> ?good" for g :: file_t and v
    using kept_others [OF that(1) assms(2)] kept_contents [OF that(1) assms(2,3)] that(2) by auto
  obtain n0 where n0: "names w (filename f) = Some n0"
    using assms(3) by (auto simp: contents_def file_of_def bind_eq_Some_conv)
  have calm1: "calm w w1" by (rule calm_calls(5) [OF sv])
  have space: "no_space x w1 = no_space x w" for x
    using sys_statvfs_spec [OF sv] by (auto simp: no_space_def agree_iff)
  show ?thesis
  proof (cases "r1 < 0 \<or> no_space (fsize f) w1")
    case True
    have a: "agree (w1\<lparr>errno := ENOSPC\<rparr>) w1" by simp
    have "do_decompress cfg f w = Some (False, f, if r1 < 0 then w1 else w1\<lparr>errno := ENOSPC\<rparr>)"
      using True sv by (auto simp: do_decompress_def)
    moreover have "\<not> ?good"
    proof
      assume g: ?good
      obtain i where "inodes w n0 = Some i" using world_ok_names [OF assms(2) n0] by blast
      then have "r1 = 0" using sv g n0 by (auto simp: sys_statvfs_def syscall_clean file_of_def)
      then show False using True g space by simp
    qed
    ultimately show ?thesis
      using fail [OF quiet_kept [OF q1]] fail [OF quiet_kept [OF quiet_then_agree [OF q1 a]]] by simp
  next
    case False
    let ?w2 = "snd (flush_file_cache f w1)" and ?f = "f\<lparr>cache := None\<rparr>"
    have q2: "quiet {} w ?w2"
    proof -
      have "quiet {} w1 ?w2"
        using quietD(1) [OF q1] by (simp add: flush_file_cache_def quiet_def world_ok_def)
      then show ?thesis by (rule quiet_trans [OF q1])
    qed
    obtain fd w3 where fo: "file_open (filename f) {O_RDWR} ?w2 = (fd, w3)" by fastforce
    note o3 = quiet_file_open [OF fo quietD(1) [OF q2]]
    have q3: "quiet {} w w3" by (rule quiet_trans [OF q2 o3(1)]) simp_all
    have k3: "kept w w3" by (rule quiet_kept [OF q3])
    have calm2: "calm w ?w2" using calm1 by (simp add: calm_def flush_file_cache_def)
    have good3: "fd \<noteq> FAIL \<and> clean w3 \<and> temp_ready w3" if ?good
    proof -
      have "clean ?w2" "names ?w2 (filename f) = Some n0" using calm2 that n0 by (simp_all add: calm_def)
      from file_open_succeeds [OF fo this(1) _ _ this(2)] show ?thesis
        using temp_ready_calm [of ?w2 w3] temp_ready_calm [OF _ _ calm2] that by auto
    qed
    have start: "do_decompress cfg f w =
        (if fd = FAIL then Some (False, ?f, w3)
         else do {
           (res, c, header_size, w) \<leftarrow> file_read_header_fd cfg fd None 0 w3;
           if res < 0 then Some (False, ?f, w)
           else (case c of
               None \<Rightarrow> do { (_, w) \<leftarrow> file_close fd w; Some (True, ?f\<lparr>fcompressor := None, fsize := -1\<rparr>, w) }
             | Some c \<Rightarrow> decompress_source cfg ?f fd c header_size w)
         })"
      using False sv fo by (simp add: do_decompress_def flush_file_cache_def Let_def)
    show ?thesis
    proof (cases "fd = FAIL")
      case True
      then show ?thesis using start fail [OF k3] good3 by auto
    next
      case fd: False
      then obtain n where n: "int (next_fd ?w2) \<le> fd" "fd < int (next_fd w3)" "names ?w2 (filename f) = Some n"
        "opened w3 fd n {O_RDWR}" using o3(2) by auto
      have w3: "world_ok w3" by (rule quietD(1) [OF q3])
      obtain i where i: "inodes w3 n = Some i" "rest_of w3 fd = idata i"
        using opened_views(3) [OF n(4) w3] by blast
      have nm: "names w (filename f) = Some n" "n < next_ino w"
      proof -
        obtain m j where m: "names w (filename f) = Some m" "inodes w m = Some j"
          using assms(3) by (auto simp: contents_def file_of_def bind_eq_Some_conv)
        then have "m = n" using quietD(5) [OF q2 m(1)] n(3) by simp
        then show "names w (filename f) = Some n" "n < next_ino w"
          using m world_ok_inodes [OF assms(2)] by auto
      qed
      have rest: "rest_of w3 fd = bs"
        using kept_contents [OF k3 assms(2,3)] keptD(4) [OF k3 nm(1)] i
        by (simp add: contents_def file_of_def)
      have ge: "int (next_fd w) \<le> fd" using n(1) quietD(2) [OF q2] by simp
      then have fd0: "0 \<le> fd" by simp
      have "file_compressor cfg (header_of_bytes (take sizeof_header bs)) \<noteq> None"
        using assms(4) by (auto simp: header_in_def split: if_splits option.splits)
      then have "file_read_header_fd cfg fd None 0 w3 \<noteq> None"
        by (intro read_header_total) (use fd0 rest in auto)
      then obtain res c' hs w4 where rh: "file_read_header_fd cfg fd None 0 w3 = Some (res, c', hs, w4)"
        by (metis prod_cases4 not_None_eq)
      note rs = read_header_spec [OF rh]
      have k34: "kept w3 w4" by (rule repositioned_kept [OF rs(1) w3])
      have k4: "kept w w4" by (rule kept_trans [OF k3 k34])
      have cr3: "can_read w3 fd" by (rule opened_views(4) [OF n(4) w3]) simp
      have good4: "res = 0 \<and> c' = Some c \<and> clean w4 \<and> can_read w4 fd \<and> temp_ready w4" if g: ?good
      proof -
        have "\<not> length bs < sizeof_header" using assms(4) by (auto simp: header_in_def)
        then show ?thesis
          using read_header_clean [OF rh _ cr3] good3 [OF g] rest assms(4) temp_ready_calm [OF _ _ calm_read_header [OF rh]]
          by simp
      qed
      show ?thesis
      proof (cases "res < 0")
        case True
        then have "do_decompress cfg f w = Some (False, ?f, w4)" using start fd rh by simp
        moreover have "\<not> ?good" using good4 True by auto
        ultimately show ?thesis using fail [OF k4] by simp
      next
        case ok: False
        show ?thesis
        proof (cases c')
          case None
          obtain r5 w5 where c5: "sys_close fd w4 = (r5, w5)" by fastforce
          have q5: "quiet UNIV w4 w5" by (rule quiet_close [OF c5 keptD(1) [OF k4]]) simp
          have k5: "kept w w5" by (rule kept_trans [OF k4 quiet_kept [OF q5]])
          have "do_decompress cfg f w = Some (True, ?f\<lparr>fcompressor := None, fsize := -1\<rparr>, w5)"
            using start fd rh ok None c5 fd0 by (simp add: file_close_def)
          moreover have "\<not> ?good" using good4 None by auto
          ultimately show ?thesis
            using kept_others [OF k5 assms(2)] kept_contents [OF k5 assms(2,3)] by auto
        next
          case (Some c1)
          then have h: "c1 = c" "hs = int (length out)" "rest_of w4 fd = drop sizeof_header bs"
            using rs(2) ok rest assms(4) by auto
          obtain m where m: "module_of cfg c = Some m" using header_in_module [OF assms(4)] by blast
          have run: "do_decompress cfg f w = decompress_source cfg ?f fd c (int (length out)) w4"
            using start fd rh ok Some h by simp
          have ino: "ino_of w4 fd = Some n"
            using io_only_ino_of [OF io_only_repositioned [OF rs(1)]] opened_views(1) [OF n(4) w3] by simp
          have lt: "fd < int (next_fd w4)" using n(2) keptD(3) [OF k34] by simp
          have "\<exists>ok f' w'. decompress_source cfg ?f fd c (int (length out)) w4 = Some (ok, f', w') \<and>
            others w w' (filename ?f) \<and>
            (contents w' (filename ?f) = Some bs \<or> contents w' (filename ?f) = Some out) \<and>
            (ok \<longrightarrow> contents w' (filename ?f) = Some out \<and> fcompressor f' = None \<and> fsize f' = int (length out)) \<and>
            (clean w4 \<and> temp_ready w4 \<and> can_read w4 fd \<longrightarrow> ok)"
            by (rule decompress_source_spec [OF assms(1) m k4 assms(2) _ _ _ ge lt ino nm(2)])
              (use assms(3,5,6,7) h in \<open>simp_all add: plain_fds_def\<close>)
          then show ?thesis using run good4 by auto
        qed
      qed
    qed
  qed
qed

end
