(* ===== verification/CompressFacts.thy ===== *)
theory CompressFacts
  imports DecompressFacts
begin

text \<open>
  \<open>do_compress\<close>: for every fault script it returns and no other file changes; without
  faults the file holds its old bytes or a well-formed compressed form of them, whatever
  the other threads cancel.
\<close>

section \<open>Moving a position\<close>

lemma lseek_spec:
  assumes "sys_lseek fd 0 SEEK_SET w = (r, w')"
  shows "repositioned fd w w'"
    and "clean w \<Longrightarrow> opened w0 fd n flags \<Longrightarrow> repositioned fd w0 w \<Longrightarrow>
      clean w' \<and> opened w' fd n flags"
proof -
  have e: "\<exists>q. d = d\<lparr>o_pos := q\<rparr>" for d :: ofile by (rule exI [of _ "o_pos d"]) simp
  have moved: "repositioned fd v (set_ofile k (d\<lparr>o_pos := p\<rparr>) v)"
    if "fdtab v fd = Some k" "ofiles v k = Some d" for v k d p
    using that e by (auto simp: repositioned_def set_ofile_def agree_iff split: option.splits)
  show "repositioned fd w w'"
    using assms unfolding sys_lseek_def
  proof (cases rule: syscall_cases)
    case fault
    then show ?thesis using repositioned_agree by blast
  next
    case (runs w1)
    show ?thesis
    proof (cases "\<exists>k d. fdtab w1 fd = Some k \<and> ofiles w1 k = Some d")
      case False
      then have "agree w' w1" using runs(2) by (auto simp: fail_def split: option.splits)
      then show ?thesis using repositioned_agree agree_trans runs(1) by blast
    next
      case True
      then obtain k d where "fdtab w1 fd = Some k" "ofiles w1 k = Some d" by blast
      then have "w' = set_ofile k (d\<lparr>o_pos := 0\<rparr>) w1" using runs(2) by (auto simp: Let_def)
      then show ?thesis
        using repositioned_trans [OF repositioned_agree [OF runs(1)]] moved
          \<open>fdtab w1 fd = Some k\<close> \<open>ofiles w1 k = Some d\<close> by blast
    qed
  qed
  show "clean w' \<and> opened w' fd n flags" if c: "clean w" "opened w0 fd n flags" "repositioned fd w0 w"
  proof -
    obtain k where k: "fdtab w0 fd = Some k" "ofiles w0 k = Some \<lparr>o_ino = n, o_pos = 0, o_flags = flags\<rparr>"
      using c(2) by (auto simp: opened_def)
    obtain p where "ofiles w k = Some \<lparr>o_ino = n, o_pos = p, o_flags = flags\<rparr>"
      using repositioned_ofile [OF c(3) k(2)] by auto
    moreover have "fdtab w fd = Some k" using repositioned_same(3) [OF c(3)] k(1) by simp
    ultimately have "w' = set_ofile k \<lparr>o_ino = n, o_pos = 0, o_flags = flags\<rparr> w"
      using assms c(1) by (simp add: sys_lseek_def syscall_clean Let_def)
    then show ?thesis
      using c(1) \<open>fdtab w fd = Some k\<close> by (auto simp: opened_def set_ofile_def)
  qed
qed

section \<open>The common exit\<close>

lemma quiet_close_if:
  "(if b then sys_close fd w else (0, w)) = (r, w') \<Longrightarrow> world_ok w \<Longrightarrow> quiet UNIV w w'"
  by (auto split: if_splits intro: quiet_close)

text \<open>Nothing that existed before the temporary file is touched.\<close>

lemma compress_out_spec:
  assumes "kept w0 w" and "world_ok w0" and "\<And>t. temp = Some t \<Longrightarrow> names w0 t = None"
    and "contents w0 p = Some bs"
  shows "others w0 (compress_out fd fd_temp temp w) p \<and> contents (compress_out fd fd_temp temp w) p = Some bs"
proof -
  obtain r1 w1 where 1: "(if fd \<noteq> FAIL then sys_close fd w else (0, w)) = (r1, w1)" by fastforce
  have k1: "kept w0 w1"
    by (rule kept_trans [OF assms(1) quiet_kept [OF quiet_close_if [OF 1 keptD(1) [OF assms(1)]]]])
  obtain r2 w2 where 2: "(if fd_temp \<noteq> FAIL then sys_close fd_temp w1 else (0, w1)) = (r2, w2)" by fastforce
  have k2: "kept w0 w2"
    by (rule kept_trans [OF k1 quiet_kept [OF quiet_close_if [OF 2 keptD(1) [OF k1]]]])
  have keep: "others w0 v p \<and> contents v p = Some bs" if "kept w0 v" for v
    using kept_others [OF that assms(2)] kept_contents [OF that assms(2,4)] by blast
  show ?thesis
  proof (cases "r1 = FAIL \<or> r2 = FAIL \<or> temp = None")
    case True
    then have "compress_out fd fd_temp temp w = w1 \<or> compress_out fd fd_temp temp w = w2"
      unfolding compress_out_def 1 Let_def prod.case 2 by auto
    then show ?thesis using keep [OF k1] keep [OF k2] by auto
  next
    case False
    then obtain t where t: "temp = Some t" by auto
    obtain r3 w3 where u: "sys_unlink t w2 = (r3, w3)" by fastforce
    have "compress_out fd fd_temp temp w = w3"
      unfolding compress_out_def 1 Let_def prod.case 2 using False t u by simp
    then show ?thesis
      using temp_unlinked [OF k2 assms(2) assms(3) [OF t] u] assms(4) by simp
  qed
qed

lemma compress_out_end:
  "world_ok w \<Longrightarrow> quiet UNIV w (compress_out fd fd_temp None w)"
proof -
  assume w: "world_ok w"
  obtain r1 w1 where 1: "(if fd \<noteq> FAIL then sys_close fd w else (0, w)) = (r1, w1)" by fastforce
  have q1: "quiet UNIV w w1" by (rule quiet_close_if [OF 1 w])
  obtain r2 w2 where 2: "(if fd_temp \<noteq> FAIL then sys_close fd_temp w1 else (0, w1)) = (r2, w2)" by fastforce
  have q2: "quiet UNIV w w2" by (rule quiet_trans [OF q1 quiet_close_if [OF 2 quietD(1) [OF q1]]])
  have "compress_out fd fd_temp None w = w1 \<or> compress_out fd fd_temp None w = w2"
    unfolding compress_out_def 1 Let_def prod.case 2 by auto
  then show ?thesis using q1 q2 by auto
qed

section \<open>From the compressed file on\<close>

lemma dedup_discard_total:
  assumes "name_ok (filename f)"
  shows "\<exists>db'. dedup_discard f db = Some (f\<lparr>deduped := False\<rparr>, db')"
proof -
  have "gethash (filename f) = Some (hash_of (filename f), length (filename f) + 1)"
    using gethash_eq assms by (simp add: name_ok_def)
  moreover have "\<not> deduped f \<Longrightarrow> f\<lparr>deduped := False\<rparr> = f" by simp
  ultimately show ?thesis by (auto simp: dedup_discard_def)
qed

text \<open>
  The file is as before, and then \<open>fcompressor\<close> is too; or it has new contents with the
  property \<open>P\<close>, and \<open>fcompressor\<close> and \<open>fsize\<close> go with them.
\<close>

definition outcome_ok ::
  "world \<Rightarrow> world \<Rightarrow> file_t \<Rightarrow> file_t \<Rightarrow> byte list \<Rightarrow> nat \<Rightarrow> (byte list \<Rightarrow> bool) \<Rightarrow> off \<Rightarrow> bool" where
  "outcome_ok w w' f f' bs c P sz \<longleftrightarrow>
     others w w' (filename f) \<and> filename f' = filename f \<and>
     (contents w' (filename f) = Some bs \<and> fcompressor f' = fcompressor f \<or>
      (\<exists>new. contents w' (filename f) = Some new \<and> P new \<and> fcompressor f' = Some c \<and> fsize f' = sz))"

lemma replace_compressed_spec:
  assumes "kept w0 w" and "world_ok w0" and "names w0 temp = None"
    and "contents w0 (filename f) = Some bs" and "dedup_enabled cfg \<Longrightarrow> name_ok (filename f)"
    and "names w temp = Some n" and "next_ino w0 \<le> n \<or> (\<forall>p. names w0 p \<noteq> Some n)"
    and "contents w temp = Some new" and "P new"
  shows "\<exists>f' db' w'. replace_compressed cfg f db fd fd_temp temp statbuf c sz w = Some (f', db', w') \<and>
    outcome_ok w0 w' f f' bs c P sz"
proof -
  obtain r2 w2 where co: "sys_fchown fd_temp (st_uid statbuf) (st_gid statbuf) w = (r2, w2)" by fastforce
  have q2: "quiet UNIV w w2" by (rule quiet_fchown [OF co keptD(1) [OF assms(1)]])
  obtain r3 w3 where cm: "sys_fchmod fd_temp (st_mode statbuf) w2 = (r3, w3)" by fastforce
  have q3: "quiet UNIV w w3" by (rule quiet_trans [OF q2 quiet_fchmod [OF cm quietD(1) [OF q2]]])
  obtain r4 w4 where c4: "sys_close fd_temp w3 = (r4, w4)" by fastforce
  have q4: "quiet UNIV w w4" by (rule quiet_trans [OF q3 quiet_close [OF c4 quietD(1) [OF q3]]]) simp
  obtain r5 w5 where c5: "sys_close fd w4 = (r5, w5)" by fastforce
  have q5: "quiet UNIV w w5" by (rule quiet_trans [OF q4 quiet_close [OF c5 quietD(1) [OF q4]]]) simp
  obtain r6 w6 where rn: "sys_rename temp (filename f) w5 = (r6, w6)" by fastforce
  have k: "quiet UNIV w v \<Longrightarrow> kept w0 v" for v
    using kept_trans [OF assms(1) quiet_kept] .
  have unchanged: "outcome_ok w0 v f f bs c P sz" if "kept w0 v" for v
    using kept_others [OF that assms(2)] kept_contents [OF that assms(2,4)]
    by (simp add: outcome_ok_def)
  have t5: "names w5 temp = Some n" by (rule quietD(5) [OF q5 assms(6)])
  have np: "names w5 (filename f) \<noteq> Some n"
  proof -
    obtain m i where m: "names w0 (filename f) = Some m" "inodes w0 m = Some i"
      using assms(4) by (auto simp: contents_def file_of_def bind_eq_Some_conv)
    then show ?thesis using keptD(4) [OF k [OF q5] m(1)] world_ok_inodes [OF assms(2) m(2)] assms(7) by auto
  qed
  note ren = rename_over [OF rn quietD(1) [OF q5] t5 np]
  show ?thesis
  proof (cases "r4 = FAIL \<or> r5 = FAIL")
    case True
    then have "replace_compressed cfg f db fd fd_temp temp statbuf c sz w =
        Some (f, db, if r4 = FAIL then w4 else w5)"
      using co cm c4 c5 by (auto simp: replace_compressed_def)
    then show ?thesis using unchanged [OF k [OF q4]] unchanged [OF k [OF q5]] by auto
  next
    case cl: False
    show ?thesis
    proof (cases "r6 = FAIL")
      case True
      then have a: "agree w6 w5" using ren by auto
      have "kept w0 w6" by (rule k [OF quiet_then_agree [OF q5 a]])
      then have "others w0 (compress_out FAIL FAIL (Some temp) w6) (filename f) \<and>
          contents (compress_out FAIL FAIL (Some temp) w6) (filename f) = Some bs"
        by (rule compress_out_spec) (use assms in auto)
      moreover have "replace_compressed cfg f db fd fd_temp temp statbuf c sz w =
          Some (f, db, compress_out FAIL FAIL (Some temp) w6)"
        using co cm c4 c5 rn cl True by (simp add: replace_compressed_def)
      ultimately show ?thesis by (simp add: outcome_ok_def)
    next
      case False
      have new5: "contents w5 temp = Some new" by (rule quiet_contents [OF q5 keptD(1) [OF assms(1)] assms(8)])
      then have r: "world_ok w6" "contents w6 (filename f) = Some new"
        "\<forall>q. q \<noteq> filename f \<longrightarrow> q \<noteq> temp \<longrightarrow> contents w6 q = contents w5 q"
        using ren False by auto
      have o6: "others w0 w6 (filename f)"
        unfolding others_def
      proof (intro conjI allI impI)
        show "world_ok w6" by (rule r(1))
        fix q b assume q: "q \<noteq> filename f" "contents w0 q = Some b"
        then have "q \<noteq> temp" using fresh_temp_unnamed [OF assms(3)] by auto
        then show "contents w6 q = Some b" using r(3) q kept_contents [OF k [OF q5] assms(2)] by simp
      qed
      let ?f1 = "f\<lparr>fcompressor := Some c, fsize := sz\<rparr>"
      obtain f2 db2 where dd: "(if dedup_enabled cfg then dedup_discard ?f1 db else Some (?f1, db)) = Some (f2, db2)"
        "filename f2 = filename f" "fcompressor f2 = Some c" "fsize f2 = sz"
        using dedup_discard_total [of ?f1 db] assms(5) by (cases "dedup_enabled cfg") auto
      obtain r7 w7 where u7: "sys_utime (filename f) (fst (st_atim statbuf)) (fst (st_mtim statbuf)) w6 = (r7, w7)"
        by fastforce
      have q7: "quiet UNIV w6 w7" by (rule quiet_utime [OF u7 r(1)])
      have q8: "quiet UNIV w6 (compress_out FAIL FAIL None w7)"
        by (rule quiet_trans [OF q7 compress_out_end [OF quietD(1) [OF q7]]])
      have "replace_compressed cfg f db fd fd_temp temp statbuf c sz w =
          Some (f2, db2, compress_out FAIL FAIL None w7)"
        using co cm c4 c5 rn cl False dd u7 by (simp add: replace_compressed_def)
      then show ?thesis
        using others_quiet [OF o6 q8] quiet_contents [OF q8 r(1,2)] dd assms(9) by (simp add: outcome_ok_def)
    qed
  qed
qed

section \<open>From the chosen compressor on\<close>

text \<open>A compressed form of \<open>bs\<close>: the header says so, and the body decodes to it.\<close>

definition compressed_form ::
  "config \<Rightarrow> (nat \<Rightarrow> byte list \<Rightarrow> byte list option) \<Rightarrow> nat \<Rightarrow> byte list \<Rightarrow> byte list \<Rightarrow> bool" where
  "compressed_form cfg decode c bs new \<longleftrightarrow>
     header_in cfg new = Some (c, int (length bs)) \<and> decode c (drop sizeof_header new) = Some bs"

lemma length_new_header: "length (header_bytes (new_header m sz)) = sizeof_header"
  by (simp add: length_header_bytes new_header_def)

lemma header_in_new:
  assumes "table_ok cfg decode" and "module_of cfg c = Some m" and "int (length bs) < 2 ^ 63"
  shows "header_in cfg (header_bytes (new_header m (int (length bs))) @ enc) = Some (c, int (length bs))"
proof -
  let ?h = "new_header m (int (length bs))"
  have "length (h_id ?h) = 3" by (simp add: new_header_def)
  then have h: "header_of_bytes (take sizeof_header (header_bytes ?h @ enc)) = ?h"
    using length_new_header [of m "int (length bs)"] header_of_bytes_bytes by simp
  have t: "unat (ctype m) = c" by (rule table_ok_module(3) [OF assms(1,2)])
  have "c < length (compressors cfg)" "compressors cfg ! c \<noteq> None"
    using assms(2) by (auto simp: module_of_def split: if_splits)
  then have f: "file_compressor cfg ?h = Some (Some c)"
    using t by (simp add: file_compressor_def find_compressor_def new_header_def Let_def)
  have "off_of_u64 (u64_of_off (int (length bs))) = int (length bs)"
    by (rule off_of_u64_of_off) (use assms(3) in \<open>simp add: off_range_def\<close>)
  then show ?thesis
    using h f length_new_header [of m "int (length bs)"] by (simp add: header_in_def) (simp add: new_header_def)
qed

lemma may_cancel_same:
  "may_cancel f f' \<Longrightarrow> filename f' = filename f \<and> fcompressor f' = fcompressor f"
  by (auto simp: may_cancel_def)

text \<open>The two halves without the interruption, from the choice of the compressor on.\<close>

definition compress_chosen ::
  "config \<Rightarrow> file_t \<Rightarrow> dedup_db \<Rightarrow> int \<Rightarrow> stat \<Rightarrow> nat \<Rightarrow> world \<Rightarrow> (file_t \<times> dedup_db \<times> world) option" where
  "compress_chosen cfg f db fd statbuf c w = do {
     (job, f, w) \<leftarrow> compress_start cfg f fd statbuf c w;
     case job of None \<Rightarrow> Some (f, db, w) | Some j \<Rightarrow> do_compress_end cfg f db j w
   }"

lemma do_compress_unfold:
  "do_compress cfg f db w = do {
     let (fd, w) = file_open (filename f) {O_RDWR} w;
     if fd = FAIL then Some (direct_delete f, db, compress_out FAIL FAIL None w)
     else do {
       let ((res, statbuf), w) = sys_fstat fd no_stat w;
       if res = FAIL then Some (direct_delete f, db, compress_out fd FAIL None w)
       else if st_size statbuf < min_filesize_background cfg then Some (f, db, compress_out fd FAIL None w)
       else do {
         (stop, f, w) \<leftarrow>
           (if st_size statbuf \<ge> int sizeof_header then do {
              (res, c, s, w) \<leftarrow> file_read_header_fd cfg fd (fcompressor f) (fsize f) w;
              let f = f\<lparr>fcompressor := c, fsize := s\<rparr>;
              if res = 0 \<and> c \<noteq> None then Some (True, f, w)
              else Some (False, f, snd (sys_lseek fd 0 SEEK_SET w))
            }
            else Some (False, f, w));
         if stop then Some (f, db, compress_out fd FAIL None w)
         else (case choose_compressor cfg (filename f) of
             None \<Rightarrow> Some (f, db, compress_out fd FAIL None w)
           | Some c \<Rightarrow> compress_chosen cfg f db fd statbuf c w)
       }
     }
   }"
  by (auto simp: do_compress_def do_compress_begin_def compress_chosen_def Let_def
      split: prod.splits option.splits Option.bind_splits)

text \<open>The second half, on whatever the first half and the others have left.\<close>

lemma compress_end_spec:
  fixes j w
  defines "fd \<equiv> j_fd j" and "fd_temp \<equiv> j_fd_temp j"
  assumes "table_ok cfg decode" and m: "module_of cfg (j_comp j) = Some m"
    and k4: "kept w0 w" and w0: "world_ok w0" and bs: "contents w0 (filename f) = Some bs"
    and nm: "dedup_enabled cfg \<Longrightarrow> name_ok (filename f)"
    and nt: "names w0 (j_temp j) = None" and n: "names w (j_temp j) = Some n"
    and n0: "next_ino w0 \<le> n \<or> (\<forall>p. names w0 p \<noteq> Some n)"
    and in4: "ino_of w fd_temp = Some n" and ae4: "at_end w fd_temp" and sep4: "separate w fd fd_temp"
    and st: "st_size (j_stat j) = int (length bs)"
  shows "\<exists>f' db' w'. do_compress_end cfg f db j w = Some (f', db', w') \<and>
    outcome_ok w0 w' f f' bs (j_comp j)
      (\<lambda>new. clean w \<and> can_read w fd \<and> rest_of w fd = bs \<and> int (length bs) < 2 ^ 63 \<and>
         data_of w fd_temp = header_bytes (new_header m (int (length bs))) \<longrightarrow>
         compressed_form cfg decode (j_comp j) bs new) (int (length bs))"
proof -
  let ?c = "j_comp j" and ?t = "j_temp j"
  let ?hdr = "header_bytes (new_header m (int (length bs)))"
  let ?P = "\<lambda>new. clean w \<and> can_read w fd \<and> rest_of w fd = bs \<and> int (length bs) < 2 ^ 63 \<and>
      data_of w fd_temp = ?hdr \<longrightarrow> compressed_form cfg decode ?c bs new"
  have w4: "world_ok w" by (rule keptD(1) [OF k4])
  note cm = table_ok_module(2) [OF assms(3) m]
  have keep: "others w0 (compress_out fd fd_temp (Some ?t) v) (filename f) \<and>
      contents (compress_out fd fd_temp (Some ?t) v) (filename f) = Some bs" if "kept w0 v" for v
    by (rule compress_out_spec [OF that w0 _ bs]) (use nt in simp)
  obtain r5 g5 w5 where co: "compress m f fd fd_temp w = Some (r5, g5, w5)" "may_cancel f g5"
    "io_only {n} w w5" "at_end w5 fd_temp"
    using compress_module.comp_total [OF cm TrueI w4 ae4 sep4, of f] in4 by auto
  obtain x g6 w6 where tc: "compress_testcancel g5 w5 = ((x, g6), w6)" by (metis prod.collapse)
  have t6: "agree w6 w5" "script w6 = script w5" "may_cancel g5 g6" "x \<longleftrightarrow> CANCEL \<in> status g6"
    using compress_testcancel_spec [OF tc] by auto
  have io6: "io_only {n} w w6" by (rule io_only_trans [OF co(3) io_only_agree [OF t6(1)]])
  have k6: "kept w0 w6" by (rule io_only_kept [OF k4 io6]) (use n0 in simp)
  let ?g7 = "g6\<lparr>status := status g6 - {COMPRESSING}\<rparr>"
  have g7: "filename ?g7 = filename f" "fcompressor ?g7 = fcompressor f"
    using may_cancel_same [OF may_cancel_trans [OF co(2) t6(3)]] by simp_all
  have run: "do_compress_end cfg f db j w =
      (if r5 = FAIL \<or> r5 \<noteq> int (length bs) \<or> CANCEL \<in> status ?g7
       then Some (?g7\<lparr>status := status ?g7 - {CANCEL}\<rparr>, db, compress_out fd fd_temp (Some ?t) w6)
       else replace_compressed cfg ?g7 db fd fd_temp ?t (j_stat j) ?c r5 w6)"
    using m st co(1) tc by (simp add: do_compress_end_def fd_def fd_temp_def)
  show ?thesis
  proof (cases "r5 = FAIL \<or> r5 \<noteq> int (length bs) \<or> CANCEL \<in> status ?g7")
    case True
    then show ?thesis using run keep [OF k6] g7 by (simp add: outcome_ok_def)
  next
    case False
    let ?new = "data_of w6 fd_temp"
    have nn: "names w6 ?t = Some n" "ino_of w6 fd_temp = Some n" "at_end w6 fd_temp"
      using n io_onlyD(1) [OF io6] io_only_ino_of [OF io6] in4 agree_views(1) [OF t6(1)] co(4) by simp_all
    then have ct6: "contents w6 ?t = Some ?new" by (intro contents_fd) simp_all
    have P: "?P ?new"
    proof
      assume c: "clean w \<and> can_read w fd \<and> rest_of w fd = bs \<and> int (length bs) < 2 ^ 63 \<and> data_of w fd_temp = ?hdr"
      have "\<exists>enc. data_of w5 fd_temp = data_of w fd_temp @ enc \<and> decode ?c enc = Some (rest_of w fd)"
        using compress_module.comp_clean [OF cm TrueI w4 ae4 sep4 co(1)] c False t6(3)
        by (auto simp: may_cancel_def)
      then obtain enc where enc: "data_of w5 fd_temp = ?hdr @ enc" "decode ?c enc = Some bs"
        using c by auto
      then show "compressed_form cfg decode ?c bs ?new"
        using header_in_new [OF assms(3) m, of bs enc] c agree_views(4) [OF t6(1)] length_new_header [of m "int (length bs)"]
        by (simp add: compressed_form_def)
    qed
    have "\<exists>f' db' w'. replace_compressed cfg ?g7 db fd fd_temp ?t (j_stat j) ?c r5 w6 = Some (f', db', w') \<and>
        outcome_ok w0 w' ?g7 f' bs ?c ?P r5"
      by (rule replace_compressed_spec [where P = ?P, OF k6 w0 nt _ _ nn(1) n0 ct6])
        (use g7 bs nm P in simp_all)
    then show ?thesis using run False g7 by (auto simp: outcome_ok_def)
  qed
qed

lemma compress_chosen_spec:
  assumes "table_ok cfg decode" and "module_of cfg c = Some m"
    and "kept w0 w" and "world_ok w0" and "contents w0 (filename f) = Some bs"
    and "dedup_enabled cfg \<Longrightarrow> name_ok (filename f)"
    and "0 \<le> fd" and "ino_of w fd = Some ino" and "ino < next_ino w0"
    and "st_size statbuf = int (length bs)"
  shows "\<exists>f' db' w'. compress_chosen cfg f db fd statbuf c w = Some (f', db', w') \<and>
    outcome_ok w0 w' f f' bs c
      (\<lambda>new. clean w \<and> can_read w fd \<and> rest_of w fd = bs \<and> int (length bs) < 2 ^ 63 \<longrightarrow>
         compressed_form cfg decode c bs new) (int (length bs))"
proof -
  let ?P = "\<lambda>new. clean w \<and> can_read w fd \<and> rest_of w fd = bs \<and> int (length bs) < 2 ^ 63 \<longrightarrow>
         compressed_form cfg decode c bs new"
  obtain temp fd_temp w3 where ct: "file_create_temp w = ((temp, fd_temp), w3)" by (metis prod.collapse)
  have w: "world_ok w" by (rule keptD(1) [OF assms(3)])
  note t3 = quiet_create_temp [OF ct w]
  have k3: "kept w0 w3" by (rule kept_trans [OF assms(3) quiet_kept [OF t3(1)]])
  have unchanged: "outcome_ok w0 v f g bs c ?P (int (length bs))"
    if "others w0 v (filename f) \<and> contents v (filename f) = Some bs"
      "filename g = filename f" "fcompressor g = fcompressor f" for g v
    using that by (simp add: outcome_ok_def)
  show ?thesis
  proof (cases temp)
    case None
    then have "compress_chosen cfg f db fd statbuf c w = Some (f, db, w3)"
      using ct by (simp add: compress_chosen_def compress_start_def do_compress_end_def)
    then show ?thesis
      using unchanged [of w3 f] kept_others [OF k3 assms(4)] kept_contents [OF k3 assms(4,5)] by simp
  next
    case (Some t)
    then have ft: "fresh_temp w t fd_temp w3" using t3(2) by auto
    obtain n where n: "next_ino w \<le> n" "names w3 t = Some n" "opened w3 fd_temp n {O_RDWR}"
      using ft by (auto simp: fresh_temp_def)
    have n0: "next_ino w0 \<le> n" using n(1) keptD(2) [OF assms(3)] by simp
    have tfd: "0 \<le> fd_temp" "at_end w3 fd_temp" "data_of w3 fd_temp = []" "names w t = None"
      using ft by (auto simp: fresh_temp_def)
    have nt: "names w0 t = None"
      using keptD(4) [OF assms(3), of t] tfd(4) by (cases "names w0 t") auto
    have w3: "world_ok w3" by (rule quietD(1) [OF t3(1)])
    obtain k where k: "fdtab w fd = Some k"
      using assms(8) by (auto simp: ino_of_def fd_ofile_def bind_eq_Some_conv)
    note sv = quiet_fd [OF t3(1) w k]
    have in3: "ino_of w3 fd_temp = Some n" by (rule opened_views(1) [OF n(3) w3])
    have sep3: "separate w3 fd fd_temp"
      using sv(4) assms(8,9) in3 n0 by (auto simp: separate_def)
    let ?hdr = "header_bytes (new_header m (int (length bs)))"
    obtain r4 w4 where wr: "sys_write fd_temp ?hdr w3 = (r4, w4)" by fastforce
    have wh: "file_write_header fd_temp m (st_size statbuf) w3 = Some (r4, w4)"
      using wr tfd(1) assms(10) by (simp add: file_write_header_def)
    note sw = sys_write_at_end [OF wr tfd(2) sep3 in3]
    have k4: "kept w0 w4" by (rule io_only_kept [OF k3 sw(1)]) (use n0 in simp)
    have keep: "others w0 (compress_out fd fd_temp (Some t) v) (filename f) \<and>
        contents (compress_out fd fd_temp (Some t) v) (filename f) = Some bs" if "kept w0 v" for v
      by (rule compress_out_spec [OF that assms(4) _ assms(5)]) (use nt in simp)
    show ?thesis
    proof (cases "r4 = FAIL")
      case True
      then have "compress_chosen cfg f db fd statbuf c w =
          Some (f, db, compress_out fd fd_temp (Some t) w4)"
        using ct Some assms(2) wh by (simp add: compress_chosen_def compress_start_def do_compress_end_def)
      then show ?thesis using unchanged [of _ f] keep [OF k4] by simp
    next
      case r4: False
      let ?g = "f\<lparr>status := insert COMPRESSING (status f)\<rparr>"
      let ?j = "\<lparr>j_fd = fd, j_fd_temp = fd_temp, j_temp = t, j_stat = statbuf, j_comp = c\<rparr>"
      have sep4: "separate w4 fd fd_temp" using io_only_separate [OF sw(1)] sep3 by simp
      have in4: "ino_of w4 fd_temp = Some n" using io_only_ino_of [OF sw(1)] in3 by simp
      have n4: "names w4 t = Some n" using n(2) io_onlyD(1) [OF sw(1)] by simp
      have run: "compress_chosen cfg f db fd statbuf c w = do_compress_end cfg ?g db ?j w4"
        using ct Some assms(2,10) wh r4 by (simp add: compress_chosen_def compress_start_def)
      obtain f' db' w' where e: "do_compress_end cfg ?g db ?j w4 = Some (f', db', w')"
        "outcome_ok w0 w' ?g f' bs c (\<lambda>new. clean w4 \<and> can_read w4 fd \<and> rest_of w4 fd = bs \<and>
           int (length bs) < 2 ^ 63 \<and> data_of w4 fd_temp = ?hdr \<longrightarrow> compressed_form cfg decode c bs new) (int (length bs))"
        using compress_end_spec [of cfg decode ?j m w0 w4 ?g bs n db] assms(1,2,4-6,10) k4 nt n4 n0 in4 sw(2) sep4
        by auto
      have c4: "clean w4 \<and> can_read w4 fd \<and> rest_of w4 fd = bs \<and> data_of w4 fd_temp = ?hdr"
        if c: "clean w \<and> can_read w fd \<and> rest_of w fd = bs"
      proof -
        have c3: "clean w3" using create_temp_clean [OF ct] c by simp
        then show ?thesis
          using sys_write_appends [OF c3 tfd(2), of ?hdr] wr append_fd_data [OF tfd(2)] tfd(3)
            io_only_can_read [OF sw(1)] sv(5,8) sw(3) c by auto
      qed
      show ?thesis using run e c4 by (auto simp: outcome_ok_def)
    qed
  qed
qed

section \<open>do_compress\<close>

text \<open>The configuration names a compressor that exists, and the file's header, if it has one, can be looked up.\<close>

definition readable_header :: "config \<Rightarrow> byte list \<Rightarrow> bool" where
  "readable_header cfg bs \<longleftrightarrow>
     (sizeof_header \<le> length bs \<longrightarrow> file_compressor cfg (header_of_bytes (take sizeof_header bs)) \<noteq> None)"

definition default_ok :: "config \<Rightarrow> bool" where
  "default_ok cfg \<longleftrightarrow> (\<forall>c. compressor_default cfg = Some c \<longrightarrow> module_of cfg c \<noteq> None)"

lemma choose_compressor_default: "choose_compressor cfg fn = Some c \<Longrightarrow> compressor_default cfg = Some c"
  by (simp add: choose_compressor_def split: if_splits)

text \<open>
  The file is unchanged; or its new contents are, in a world without faults, a compressed form
  of the old ones. (With faults they need not be: see the end of \<open>Spec2Isabelle\<close>.)
\<close>

definition compress_result ::
  "config \<Rightarrow> (nat \<Rightarrow> byte list \<Rightarrow> byte list option) \<Rightarrow> world \<Rightarrow> world \<Rightarrow> file_t \<Rightarrow> file_t \<Rightarrow> byte list \<Rightarrow> bool" where
  "compress_result cfg decode w w' f f' bs \<longleftrightarrow>
     others w w' (filename f) \<and> filename f' = filename f \<and>
     (contents w' (filename f) = Some bs \<or>
      (\<exists>c new. contents w' (filename f) = Some new \<and> fcompressor f' = Some c \<and> fsize f' = int (length bs) \<and>
         (clean w \<and> int (length bs) < 2 ^ 63 \<longrightarrow> compressed_form cfg decode c bs new)))"

lemma sys_fstat_clean: "sys_fstat fd buf w = (r, w') \<Longrightarrow> clean w \<Longrightarrow> clean w'"
  by (auto simp: sys_fstat_def next_outcome_clean split: option.splits)

lemma sys_open_clean: "sys_open p flags m w = (fd, w') \<Longrightarrow> clean w \<Longrightarrow> clean w'"
  by (auto simp: sys_open_def syscall_clean fail_def new_fd_def new_inode_def Let_def
      split: option.splits if_splits)

lemma sys_lstat_clean: "sys_lstat p buf w = (r, w') \<Longrightarrow> clean w \<Longrightarrow> clean w'"
  by (auto simp: sys_lstat_def next_outcome_clean split: option.splits)

lemma sys_chmod_clean: "sys_chmod p m w = (r, w') \<Longrightarrow> clean w \<Longrightarrow> clean w'"
  by (auto simp: sys_chmod_def on_path_def syscall_clean fail_def set_inode_def split: option.splits)

lemma file_open_clean: "file_open p flags w = (fd, w') \<Longrightarrow> clean w \<Longrightarrow> clean w'"
  unfolding file_open_def
  by (auto split: prod.splits if_splits
      dest!: sys_open_clean sys_lstat_clean sys_chmod_clean)

lemma do_compress_spec:
  assumes "table_ok cfg decode" and "default_ok cfg" and "world_ok w"
    and "contents w (filename f) = Some bs" and "readable_header cfg bs"
    and "dedup_enabled cfg \<Longrightarrow> name_ok (filename f)"
  shows "\<exists>f' db' w'. do_compress cfg f db w = Some (f', db', w') \<and> compress_result cfg decode w w' f f' bs"
proof -
  obtain fd w1 where fo: "file_open (filename f) {O_RDWR} w = (fd, w1)" by fastforce
  note o1 = quiet_file_open [OF fo assms(3)]
  have q1: "quiet {} w w1" by (rule o1(1)) simp_all
  have k1: "kept w w1" by (rule quiet_kept [OF q1])
  have out: "\<exists>f' db' w'. Some (g, db, compress_out x FAIL None v) = Some (f', db', w') \<and>
      compress_result cfg decode w w' f f' bs" if "kept w v" "filename g = filename f" for g x v
  proof -
    have "others w (compress_out x FAIL None v) (filename f) \<and>
        contents (compress_out x FAIL None v) (filename f) = Some bs"
      by (rule compress_out_spec [OF that(1) assms(3) _ assms(4)]) simp
    then show ?thesis using that(2) by (simp add: compress_result_def)
  qed
  show ?thesis
  proof (cases "fd = FAIL")
    case True
    then show ?thesis
      using out [OF k1, of "direct_delete f" FAIL] fo by (simp add: do_compress_unfold direct_delete_def)
  next
    case fd: False
    then obtain n where n: "int (next_fd w) \<le> fd" "names w (filename f) = Some n" "opened w1 fd n {O_RDWR}"
      using o1(2) by auto
    have w1: "world_ok w1" by (rule keptD(1) [OF k1])
    obtain i where i: "inodes w1 n = Some i" "rest_of w1 fd = idata i"
      using opened_views(3) [OF n(3) w1] by blast
    have rest1: "rest_of w1 fd = bs"
      using kept_contents [OF k1 assms(3,4)] keptD(4) [OF k1 n(2)] i by (simp add: contents_def file_of_def)
    have fd0: "0 \<le> fd" using n(1) by simp
    obtain r2 st w2 where fs: "sys_fstat fd no_stat w1 = ((r2, st), w2)" by (metis prod.collapse)
    have a2: "agree w2 w1" using sys_fstat_spec [OF fs] by simp
    have k2: "kept w w2" by (rule kept_trans [OF k1 quiet_kept [OF quiet_fstat [OF fs w1]]])
    show ?thesis
    proof (cases "r2 = FAIL \<or> st_size st < min_filesize_background cfg")
      case True
      then show ?thesis
        using out [OF k2, of "direct_delete f" fd] out [OF k2, of f fd] fo fd fs
        by (auto simp: do_compress_unfold direct_delete_def)
    next
      case go: False
      obtain d j where d: "fd_ofile w1 fd = Some d" "inodes w1 (o_ino d) = Some j" "st = stat_of (o_ino d) j"
        using sys_fstat_spec [OF fs] go by auto
      have "o_ino d = n" using opened_views(1) [OF n(3) w1] d(1) by (simp add: ino_of_def)
      then have size: "st_size st = int (length bs)" using d i rest1 by (simp add: stat_of_def)
      have nlt: "n < next_ino w"
      proof -
        obtain x where "inodes w n = Some x" using world_ok_names [OF assms(3) n(2)] by auto
        then show ?thesis using world_ok_inodes [OF assms(3)] by simp
      qed
      define chk where "chk =
          (if st_size st \<ge> int sizeof_header then do {
              (res, c, s, w) \<leftarrow> file_read_header_fd cfg fd (fcompressor f) (fsize f) w2;
              let f = f\<lparr>fcompressor := c, fsize := s\<rparr>;
              if res = 0 \<and> c \<noteq> None then Some (True, f, w)
              else Some (False, f, snd (sys_lseek fd 0 SEEK_SET w))
            }
            else Some (False, f, w2))"
      have run: "do_compress cfg f db w = do {
          (stop, f, w) \<leftarrow> chk;
          if stop then Some (f, db, compress_out fd FAIL None w)
          else (case choose_compressor cfg (filename f) of
              None \<Rightarrow> Some (f, db, compress_out fd FAIL None w)
            | Some c \<Rightarrow> compress_chosen cfg f db fd st c w) }"
        using fo fd fs go by (simp add: do_compress_unfold chk_def)
      have w2: "world_ok w2" by (rule keptD(1) [OF k2])
      have rest2: "rest_of w2 fd = bs" using agree_views(2) [OF a2] rest1 by simp
      have op2: "opened w2 fd n {O_RDWR}" using n(3) agreeD [OF a2] by (simp add: opened_def)
      have "\<exists>stop g v. chk = Some (stop, g, v) \<and> filename g = filename f \<and> repositioned fd w2 v \<and>
          (clean w2 \<and> \<not> stop \<longrightarrow> clean v \<and> opened v fd n {O_RDWR})"
      proof (cases "st_size st \<ge> int sizeof_header")
        case False
        then show ?thesis using op2 by (auto simp: chk_def)
      next
        case True
        obtain res c s w3 where rh: "file_read_header_fd cfg fd (fcompressor f) (fsize f) w2 = Some (res, c, s, w3)"
          using read_header_total [OF fd0, of w2 cfg "fcompressor f" "fsize f"] rest2 assms(5)
          by (metis not_None_eq prod_cases4 readable_header_def)
        have r3: "repositioned fd w2 w3" by (rule read_header_spec(1) [OF rh])
        obtain r4 w4 where ls: "sys_lseek fd 0 SEEK_SET w3 = (r4, w4)" by fastforce
        have cw: "clean w3" if "clean w2"
          using read_header_clean [OF rh that opened_views(4) [OF op2 w2]] by simp
        let ?g = "f\<lparr>fcompressor := c, fsize := s\<rparr>"
        have "chk = Some (if res = 0 \<and> c \<noteq> None then (True, ?g, w3) else (False, ?g, w4))"
          using True rh ls by (simp add: chk_def Let_def)
        moreover have "repositioned fd w2 w4" by (rule repositioned_trans [OF r3 lseek_spec(1) [OF ls]])
        moreover have "clean w2 \<Longrightarrow> clean w4 \<and> opened w4 fd n {O_RDWR}"
          by (rule lseek_spec(2) [OF ls cw op2 r3]) simp_all
        ultimately show ?thesis using r3 by (cases "res = 0 \<and> c \<noteq> None") auto
      qed
      then obtain stop g v where chk: "chk = Some (stop, g, v)" "filename g = filename f" "repositioned fd w2 v"
        "clean w2 \<and> \<not> stop \<longrightarrow> clean v \<and> opened v fd n {O_RDWR}" by blast
      have kv: "kept w v" by (rule kept_trans [OF k2 repositioned_kept [OF chk(3) w2]])
      show ?thesis
      proof (cases "stop \<or> choose_compressor cfg (filename g) = None")
        case True
        then show ?thesis using run chk(1) out [OF kv chk(2), of fd] by auto
      next
        case False
        then obtain c where c: "choose_compressor cfg (filename g) = Some c" by auto
        obtain m where m: "module_of cfg c = Some m"
          using assms(2) choose_compressor_default [OF c] by (auto simp: default_ok_def)
        have ino: "ino_of v fd = Some n"
          using io_only_ino_of [OF io_only_repositioned [OF chk(3)]] opened_views(1) [OF op2 w2] by simp
        obtain f' db' w' where res: "compress_chosen cfg g db fd st c v = Some (f', db', w')"
          "outcome_ok w w' g f' bs c
             (\<lambda>new. clean v \<and> can_read v fd \<and> rest_of v fd = bs \<and> int (length bs) < 2 ^ 63 \<longrightarrow>
               compressed_form cfg decode c bs new) (int (length bs))"
          using compress_chosen_spec [OF assms(1) m kv assms(3) _ _ fd0 ino nlt size, of g db]
            chk(2) assms(4,6) by auto
        have clean_v: "clean v \<and> can_read v fd \<and> rest_of v fd = bs" if cl: "clean w"
        proof -
          have "clean w2" using sys_fstat_clean [OF fs] file_open_clean [OF fo cl] by simp
          then have cv: "clean v" "opened v fd n {O_RDWR}" using chk(4) False by auto
          have "inodes v n = Some i"
            using i(1) agreeD(2) [OF a2] repositioned_same(2) [OF chk(3)] by simp
          then show ?thesis
            using cv opened_views(3,4) [OF cv(2) keptD(1) [OF kv]] i(2) rest1 by auto
        qed
        have run2: "do_compress cfg f db w = Some (f', db', w')" using run chk(1) False c res(1) by simp
        show ?thesis
          using run2 res(2) chk(2) clean_v unfolding outcome_ok_def compress_result_def by auto
      qed
    qed
  qed
qed

end
