(* ===== verification/DedupFs.thy ===== *)
theory DedupFs
  imports Compress
begin

text \<open>
  The part of \<^verbatim>\<open>dedup.c\<close> that works on the backing file system: attribute files, which hold
  the owner, mode and times of a name whose inode is shared with other names; linking a file to an
  identical one, and undoing that; and the calls that hide both from the user.

  \<open>mhash\<close> (the MD5 sum of a byte list) and the process id's digits are parameters. Only the
  build without \<open>EXACT_ATIME\<close> is modelled, as \<^verbatim>\<open>configure.ac\<close> never defines it.
\<close>

section \<open>Names\<close>

abbreviation DEDUP_ATTR :: string where
  "DEDUP_ATTR \<equiv> FUSECOMPRESS_PREFIX @ ''at_''"

definition strip_slashes :: "string \<Rightarrow> string" where
  "strip_slashes s = rev (dropWhile (\<lambda>c. c = CHR ''/'') (rev s))"

text \<open>\<open>dirname\<close> and \<open>basename\<close> of the C library.\<close>

definition basename :: "string \<Rightarrow> string" where
  "basename s =
     (if s = [] then ''.''
      else let t = strip_slashes s
           in if t = [] then ''/'' else rev (takeWhile (\<lambda>c. c \<noteq> CHR ''/'') (rev t)))"

definition dirname :: "string \<Rightarrow> string" where
  "dirname s =
     (let t = strip_slashes s
      in if s = [] then ''.''
         else if t = [] then ''/''
         else if CHR ''/'' \<notin> set t then ''.''
         else let d = strip_slashes (rev (dropWhile (\<lambda>c. c \<noteq> CHR ''/'') (rev t)))
              in if d = [] then ''/'' else d)"

definition fuseattr_name :: "path \<Rightarrow> path" where
  "fuseattr_name full =
     (case rindex full CHR ''/'' of
        None \<Rightarrow> DEDUP_ATTR @ full
      | Some slash \<Rightarrow> take (length full - length slash + 1) full @ DEDUP_ATTR @ drop 1 slash)"

section \<open>Attribute files\<close>

definition create_attr :: "path \<Rightarrow> stat \<Rightarrow> world \<Rightarrow> int \<times> world" where
  "create_attr full_attr st w =
     (let (fd, w) = sys_open full_attr {O_CREAT, O_WRONLY} (st_mode st) w
      in if fd < 0 then (fd, w)
         else
           (let w = snd (sys_fchmod fd (st_mode st) w);
                w = snd (sys_fchown fd (st_uid st) (st_gid st) w);
                w = snd (sys_futimens fd (st_atim st) (st_mtim st) w)
            in (0, snd (sys_close fd w))))"

definition dedup_sys_getattr :: "path \<Rightarrow> stat \<Rightarrow> world \<Rightarrow> (int \<times> stat) \<times> world" where
  "dedup_sys_getattr full stbuf w =
     (let ((res, stbuf), w) = sys_lstat full stbuf w
      in if res < 0 then ((FAIL, stbuf), w)
         else
           (let ((r, st_attr), w) = sys_lstat (fuseattr_name full) no_stat w
            in if r = 0
               then ((res, stbuf\<lparr>st_uid := st_uid st_attr, st_gid := st_gid st_attr,
                       st_atim := st_atim st_attr, st_mtim := st_mtim st_attr,
                       st_mode := st_mode st_attr\<rparr>), w)
               else ((res, stbuf), w)))"

definition dedup_sys_chown :: "path \<Rightarrow> nat \<Rightarrow> nat \<Rightarrow> world \<Rightarrow> int \<times> world" where
  "dedup_sys_chown full uid gid w =
     (let ((r, st_file), w) = sys_lstat full no_stat w
      in if r < 0 then (FAIL, w)
         else if \<not> S_ISREG (st_mode st_file) then sys_lchown full uid gid w
         else
           (let full_attr = fuseattr_name full;
                ((r, st_attr), w) = sys_lstat full_attr no_stat w
            in if r = 0 then
                 (if st_uid st_file = uid \<and> st_gid st_file = gid \<and>
                     st_mtim st_file = st_mtim st_attr \<and> st_mode st_file = st_mode st_attr
                  then (0, snd (sys_unlink full_attr w))
                  else sys_lchown full_attr uid gid w)
               else if st_nlink st_file > 1 \<and> (st_uid st_file \<noteq> uid \<or> st_gid st_file \<noteq> gid) then
                 (let (r, w) = create_attr full_attr st_file w
                  in if r < 0 then (FAIL, w) else sys_lchown full_attr uid gid w)
               else sys_lchown full uid gid w))"

definition dedup_sys_chmod :: "path \<Rightarrow> nat \<Rightarrow> world \<Rightarrow> int \<times> world" where
  "dedup_sys_chmod full mode w =
     (let ((r, st_file), w) = sys_lstat full no_stat w
      in if r < 0 then (FAIL, w)
         else if \<not> S_ISREG (st_mode st_file) then sys_chmod full mode w
         else
           (let full_attr = fuseattr_name full;
                ((r, st_attr), w) = sys_lstat full_attr no_stat w
            in if r = 0 then
                 (if st_uid st_file = st_uid st_attr \<and> st_gid st_file = st_gid st_attr \<and>
                     st_mtim st_file = st_mtim st_attr \<and> st_mode st_file = mode
                  then (0, snd (sys_unlink full_attr w))
                  else sys_chmod full_attr mode w)
               else if st_nlink st_file > 1 \<and> st_mode st_file \<noteq> mode then
                 (let (r, w) = create_attr full_attr st_file w
                  in if r < 0 then (FAIL, w) else sys_chmod full_attr mode w)
               else sys_chmod full mode w))"

text \<open>The times are those of a \<open>struct timeval\<close>: seconds and microseconds.\<close>

definition dedup_sys_utime :: "path \<Rightarrow> timespec \<Rightarrow> timespec \<Rightarrow> world \<Rightarrow> int \<times> world" where
  "dedup_sys_utime full atv mtv w =
     (let ((r, st_file), w) = sys_lstat full no_stat w
      in if r < 0 then (FAIL, w)
         else if \<not> S_ISREG (st_mode st_file) then sys_lutimes full atv mtv w
         else
           (let full_attr = fuseattr_name full;
                ((r, st_attr), w) = sys_lstat full_attr no_stat w
            in if r = 0 then
                 (if st_uid st_file = st_uid st_attr \<and> st_gid st_file = st_gid st_attr \<and>
                     st_mtim st_file = (fst mtv, snd mtv * 1000) \<and> st_mode st_file = st_mode st_attr
                  then (0, snd (sys_unlink full_attr w))
                  else sys_lutimes full_attr atv mtv w)
               else if st_nlink st_file > 1 \<and> st_mtim st_file \<noteq> (fst mtv, snd mtv * 1000) then
                 (let (r, w) = create_attr full_attr st_file w
                  in if r < 0 then (FAIL, w) else sys_lutimes full_attr atv mtv w)
               else sys_lutimes full atv mtv w))"

definition dedup_sys_unlink :: "path \<Rightarrow> world \<Rightarrow> int \<times> world" where
  "dedup_sys_unlink full w = sys_unlink full (snd (sys_unlink (fuseattr_name full) w))"

definition dedup_sys_rename :: "path \<Rightarrow> path \<Rightarrow> world \<Rightarrow> int \<times> world" where
  "dedup_sys_rename full_from full_to w =
     (let move_attr = (\<lambda>w. snd (sys_rename (fuseattr_name full_from) (fuseattr_name full_to) w));
          normal = (\<lambda>w. let (res, w) = sys_rename full_from full_to w
                        in if res < 0 then (res, w) else (res, move_attr w));
          ((r, st_from), w) = sys_lstat full_from no_stat w
      in if r = 0 then
           (if \<not> S_ISREG (st_mode st_from) then sys_rename full_from full_to w
            else if st_nlink st_from > 1 then
              (let ((r, st_to), w) = sys_lstat full_to no_stat w
               in if r = 0 \<and> st_ino st_from = st_ino st_to then
                    (let (res, w) = sys_unlink full_from w
                     in if res < 0 then (res, w) else (res, move_attr w))
                  else normal w)
            else normal w)
         else normal w)"

section \<open>Linking to an identical file\<close>

text \<open>
  \<open>hardlink_file\<close>; the result is the name linked to. When neither the attribute file nor
  the file itself can be looked up, the C code compares an uninitialised structure; here it is
  the one passed to the calls.
\<close>

definition link_tmpname :: "string \<Rightarrow> path \<Rightarrow> path" where
  "link_tmpname pid fn = dirname fn @ ''/'' @ FUSECOMPRESS_PREFIX @ ''t_'' @ basename fn @ ''.'' @ pid"

definition attrs_differ :: "stat \<Rightarrow> stat \<Rightarrow> bool" where
  "attrs_differ a b \<longleftrightarrow>
     st_uid a \<noteq> st_uid b \<or> st_gid a \<noteq> st_gid b \<or> st_mode a \<noteq> st_mode b \<or> st_mtim a \<noteq> st_mtim b"

definition link_over :: "string \<Rightarrow> path \<Rightarrow> path \<Rightarrow> world \<Rightarrow> path option \<times> world" where
  "link_over pid target fn w =
     (let tmpname = link_tmpname pid fn;
          (r, w) = sys_link target tmpname w
      in if r \<noteq> 0 then (None, w)
         else
           (let full_attr = fuseattr_name fn;
                ((r, st_src), w) = sys_lstat full_attr no_stat w;
                ((_, st_src), w) = (if r < 0 then sys_lstat fn st_src w else ((r, st_src), w));
                ((_, st_target), w) = sys_lstat tmpname no_stat w;
                w = (if attrs_differ st_src st_target then snd (create_attr full_attr st_src w)
                     else snd (sys_unlink full_attr w));
                (r, w) = sys_rename tmpname fn w
            in if r \<noteq> 0 then (None, snd (sys_unlink tmpname w))
               else (Some target, snd (sys_unlink tmpname w))))"

definition hardlink_file ::
  "string \<Rightarrow> byte list \<Rightarrow> path \<Rightarrow> dedup_db \<Rightarrow> world \<Rightarrow> (path option \<times> dedup_db \<times> world) option" where
  "hardlink_file pid md5 fn db w =
     (case find_dp (\<lambda>dp. dp_md5 dp = md5) (head_md5 db (md5_to_hash md5)) db of
        Some (_, dp) \<Rightarrow>
          if dp_filename dp = fn then Some (None, db, w)
          else (let (res, w) = link_over pid (dp_filename dp) fn w in Some (res, db, w))
      | None \<Rightarrow> do { db \<leftarrow> dedup_add md5 fn db; Some (None, db, w) })"

section \<open>The sum of a file\<close>

text \<open>
  The loops of \<open>dedup_hash_file\<close>: the data read up to the end, \<open>None\<close> inside for an error.
  \<open>rd\<close> is \<open>read\<close> or the compressor's read function.
\<close>

partial_function (option) read_all ::
  "('s \<Rightarrow> world \<Rightarrow> ((int \<times> byte list \<times> 's) \<times> world) option) \<Rightarrow> 's \<Rightarrow> byte list \<Rightarrow> world \<Rightarrow>
   ((byte list option \<times> 's) \<times> world) option" where
  [code]: "read_all rd s acc w = do {
     ((count, bs, s'), w1) \<leftarrow> rd s w;
     if count < 0 then Some ((None, s'), w1)
     else if count = 0 then Some ((Some acc, s'), w1)
     else read_all rd s' (acc @ bs) w1
   }"

text \<open>
  The result is \<open>None\<close> inside when the function returns 1. A file that starts with the magic
  bytes but is shorter than a header, or of a type the table does not have, leaves \<open>compr\<close>
  uninitialised or NULL: the outer \<open>None\<close>.
\<close>

definition dedup_hash_file ::
  "config \<Rightarrow> (byte list \<Rightarrow> byte list) \<Rightarrow> path \<Rightarrow> world \<Rightarrow> (byte list option \<times> world) option" where
  "dedup_hash_file cfg mhash name w =
     (let (fd, w) = sys_open name {} 0 w
      in if fd < 0 then Some (None, w)
         else
           (let ((r, m), w) = sys_read fd 3 w;
                w = snd (sys_lseek fd 0 SEEK_SET w)
            in if r \<noteq> 3 \<or> m \<noteq> magic then do {
                 ((data, _), w) \<leftarrow> read_all fd_read fd [] w;
                 Some (map_option mhash data, snd (sys_close fd w))
               }
               else do {
                 (res, c, _, w) \<leftarrow> file_read_header_fd cfg fd None 0 w;
                 if res = FAIL then Some (None, snd (sys_close fd w))
                 else do {
                   c \<leftarrow> c;
                   compr \<leftarrow> module_of cfg c;
                   (handle, w) \<leftarrow> copen compr fd ''r'' w;
                   case handle of
                     None \<Rightarrow> Some (None, snd (sys_close fd w))
                   | Some h \<Rightarrow> do {
                       ((data, h), w) \<leftarrow> read_all (\<lambda>h w. cread compr h 4096 w) h [] w;
                       (_, w) \<leftarrow> cclose compr h w;
                       Some (map_option mhash data, w)
                     }
                 }
               }))"

section \<open>do_dedup and do_undedup\<close>

text \<open>
  The lock is given up once DEDUPING is set, while the sum is computed; \<open>do_dedup_end\<close> is what
  follows. \<open>compress_testcancel\<close> is the look at the CANCEL flag after the lock is taken again.
  When the sum fails, DEDUPING stays set.
\<close>

definition do_dedup_end ::
  "config \<Rightarrow> (byte list \<Rightarrow> byte list) \<Rightarrow> string \<Rightarrow> file_t \<Rightarrow> dedup_db \<Rightarrow> world \<Rightarrow> (file_t \<times> dedup_db \<times> world) option" where
  "do_dedup_end cfg mhash pid f db w = do {
     (md5, w) \<leftarrow> dedup_hash_file cfg mhash (filename f) w;
     let ((cancelled, f), w) = compress_testcancel f w;
     case md5 of
       None \<Rightarrow> Some (f\<lparr>deduped := True\<rparr>, db, w)
     | Some md5 \<Rightarrow>
         if cancelled then Some (f\<lparr>status := status f - {CANCEL, DEDUPING}\<rparr>, db, w)
         else do {
           (target, db, w) \<leftarrow> hardlink_file pid md5 (filename f) db w;
           (f, w) \<leftarrow>
             (case target of
                None \<Rightarrow> Some (f, w)
              | Some t \<Rightarrow> do {
                  (r, c, _, w) \<leftarrow> file_read_header_name cfg t None 0 w;
                  if r < 0 then Some (f, w) else Some (f\<lparr>fcompressor := c\<rparr>, w)
                });
           Some (f\<lparr>deduped := True, status := status f - {DEDUPING}\<rparr>, db, w)
         }
   }"

definition do_dedup ::
  "config \<Rightarrow> (byte list \<Rightarrow> byte list) \<Rightarrow> string \<Rightarrow> file_t \<Rightarrow> dedup_db \<Rightarrow> world \<Rightarrow> (file_t \<times> dedup_db \<times> world) option" where
  "do_dedup cfg mhash pid f db w =
     do_dedup_end cfg mhash pid (f\<lparr>status := insert DEDUPING (status f)\<rparr>) db w"

text \<open>
  The copying loop of \<open>do_undedup\<close>: it stops at the first read error or short write. The
  result says whether the whole file was copied.
\<close>

partial_function (option) undedup_copy :: "int \<Rightarrow> int \<Rightarrow> world \<Rightarrow> (bool \<times> world) option" where
  [code]: "undedup_copy fd_in fd_out w =
     (let ((count, bs), w1) = sys_read fd_in 4096 w
      in if count < 0 then Some (False, w1)
         else if count = 0 then Some (True, w1)
         else (let (wr, w2) = sys_write fd_out bs w1
               in if wr \<noteq> count then Some (False, w2) else undedup_copy fd_in fd_out w2))"

text \<open>From the copy on: the name is unlinked first, and then given to the copy.\<close>

definition replace_undeduped ::
  "path \<Rightarrow> path \<Rightarrow> int \<Rightarrow> stat \<Rightarrow> world \<Rightarrow> int \<times> world" where
  "replace_undeduped fn temp fd_out attr_st w =
     (let eio = (\<lambda>w. (FAIL, w\<lparr>errno := EIO\<rparr>));
          w = snd (sys_fchown fd_out (st_uid attr_st) (st_gid attr_st) w);
          w = snd (sys_fchmod fd_out (st_mode attr_st) w);
          w = snd (sys_close fd_out w);
          (r, w) = sys_unlink fn w
      in if r < 0 then eio (snd (sys_unlink temp w))
         else
           (let (r, w) = sys_rename temp fn w
            in if r < 0 then eio w
               else
                 (let (r, w) = sys_utime fn (fst (st_atim attr_st)) (fst (st_mtim attr_st)) w
                  in if r < 0 then eio w else (0, snd (sys_unlink (fuseattr_name fn) w)))))"

definition do_undedup :: "file_t \<Rightarrow> dedup_db \<Rightarrow> world \<Rightarrow> (int \<times> file_t \<times> dedup_db \<times> world) option" where
  "do_undedup f db w =
     (let ((r, st), w) = sys_lstat (filename f) no_stat w
      in if r < 0 \<or> st_nlink st < 2 then Some (0, f, db, w)
         else
           (let ((r, a), w) = sys_lstat (fuseattr_name (filename f)) no_stat w;
                attr_st = (if r < 0 then st else a);
                (r, w) = sys_statvfs (filename f) w
            in if r < 0 then Some (FAIL, f, db, w\<lparr>errno := EIO\<rparr>)
               else if no_space (st_size st) w then Some (FAIL, f, db, w\<lparr>errno := ENOSPC\<rparr>)
               else do {
                 (f, db) \<leftarrow> dedup_discard f db;
                 (case file_create_temp w of
                    ((None, _), w) \<Rightarrow> Some (FAIL, f, db, w\<lparr>errno := EIO\<rparr>)
                  | ((Some temp, fd_out), w) \<Rightarrow>
                      (let (fd_in, w) = sys_open (filename f) {} 0 w
                       in if fd_in = -1
                          then (let w = snd (sys_unlink temp (snd (sys_close fd_out w)))
                                in Some (FAIL, f, db, w\<lparr>errno := EIO\<rparr>))
                          else do {
                            (ok, w) \<leftarrow> undedup_copy fd_in fd_out w;
                            let w = snd (sys_close fd_in w);
                            if \<not> ok
                            then (let w = snd (sys_unlink temp (snd (sys_close fd_out w)))
                                  in Some (FAIL, f, db, w\<lparr>errno := EIO\<rparr>))
                            else (let (r, w) = replace_undeduped (filename f) temp fd_out attr_st w
                                  in Some (r, f, db, w))
                          }))
               }))"

end
