(* ===== verification/FileDb.thy ===== *)
theory FileDb
  imports DedupFs
begin

text \<open>
  The database of files (\<^verbatim>\<open>direct_compress.c\<close>), the queue of the background thread and one
  turn of that thread (\<^verbatim>\<open>background_compress.c\<close>).

  A \<open>file_t\<close> is known by an index, which stands for its address; \<open>database\<close> is the
  list of the files in the database in its order, \<open>comp_queue\<close> the files to compress or
  deduplicate, first in first out. The lists are those of \<^verbatim>\<open>list.h\<close>, whose operations
  theory \<open>CList\<close> proves to be the list operations used here.

  Each operation runs under the database's lock, so it is one step. A caller of
  \<open>direct_open\<close> that has to wait for another thread is told so (\<open>Blocked\<close>); it has then
  set CANCEL. Failed allocations are not modelled.
\<close>

record fdb =
  files :: "nat \<Rightarrow> file_t option"
  database :: "nat list"
  db_entries :: int
  comp_queue :: "(nat \<times> bool) list"
  comp_entries :: int
  next_fid :: nat

definition empty_fdb :: fdb where
  "empty_fdb = \<lparr>files = (\<lambda>_. None), database = [], db_entries = 0, comp_queue = [],
     comp_entries = 0, next_fid = 0\<rparr>"

abbreviation MAX_DATABASE_LEN :: int where
  "MAX_DATABASE_LEN \<equiv> 30"

definition put_file :: "nat \<Rightarrow> file_t \<Rightarrow> fdb \<Rightarrow> fdb" where
  "put_file i f db = db\<lparr>files := (files db)(i \<mapsto> f)\<rparr>"

section \<open>The queue\<close>

definition background_compress_dedup :: "nat \<Rightarrow> bool \<Rightarrow> fdb \<Rightarrow> fdb option" where
  "background_compress_dedup i dedup db = do {
     f \<leftarrow> files db i;
     assert (dedup \<or> fcompressor f = None);
     Some ((put_file i (f\<lparr>accesses := accesses f + 1\<rparr>) db)
             \<lparr>comp_queue := comp_queue db @ [(i, dedup)], comp_entries := comp_entries db + 1\<rparr>)
   }"

section \<open>Purging\<close>

definition direct_open_delete :: "nat \<Rightarrow> fdb \<Rightarrow> world \<Rightarrow> (fdb \<times> world) option" where
  "direct_open_delete i db w = do {
     f \<leftarrow> files db i;
     let (f, w) = flush_file_cache f w;
     Some (db\<lparr>files := (files db)(i := None)\<rparr>, w)
   }"

text \<open>Taking an entry out of the list: \<open>list_del\<close> and \<open>entries--\<close>.\<close>

definition drop_entry :: "nat \<Rightarrow> fdb \<Rightarrow> fdb" where
  "drop_entry i db = db\<lparr>database := remove1 i (database db), db_entries := db_entries db - 1\<rparr>"

text \<open>
  Whether an idle file is to be compressed. The comparisons with the free space are unsigned,
  so an unknown size (-1) is larger than any file system.
\<close>

definition wants_compression :: "config \<Rightarrow> file_t \<Rightarrow> world \<Rightarrow> bool \<times> world" where
  "wants_compression cfg f w =
     (if \<not> deleted f \<and> fcompressor f = None \<and> (fsize f = -1 \<or> fsize f > min_filesize_background cfg)
      then
        (let (r, w) = sys_statvfs (filename f) w
         in (r = 0 \<and>
             (u64_of_off (fsize f) \<le> f_bsize w * f_bavail w \<or>
              euid w = 0 \<and> u64_of_off (fsize f) \<le> f_bsize w * f_bfree w) \<and>
             \<not> read_only cfg \<and> choose_compressor cfg (filename f) \<noteq> None, w))
      else (False, w))"

definition purge_idle :: "config \<Rightarrow> nat \<Rightarrow> file_t \<Rightarrow> fdb \<Rightarrow> world \<Rightarrow> (fdb \<times> world) option" where
  "purge_idle cfg i f db w =
     (let (c, w) = wants_compression cfg f w
      in if c then map_option (\<lambda>db. (db, w)) (background_compress_dedup i False db)
         else if dedup_enabled cfg \<and> \<not> deleted f \<and> \<not> deduped f \<and> \<not> is_excluded cfg (filename f)
         then map_option (\<lambda>db. (db, w)) (background_compress_dedup i True db)
         else direct_open_delete i (drop_entry i db) w)"

text \<open>
  \<open>_direct_open_purge\<close>: the loop over the list; the entries it has still to visit are the
  first argument. With \<open>force\<close> entries in use are dropped too, but not freed.
\<close>

fun purge_loop :: "config \<Rightarrow> bool \<Rightarrow> nat list \<Rightarrow> fdb \<Rightarrow> world \<Rightarrow> (fdb \<times> world) option" where
  "purge_loop cfg force [] db w = Some (db, w)"
| "purge_loop cfg force (i # rest) db w = do {
     f \<leftarrow> files db i;
     (db, w) \<leftarrow>
       (if accesses f = 0 then purge_idle cfg i f db w
        else if force then Some (drop_entry i db, w)
        else Some (db, w));
     purge_loop cfg force rest db w
   }"

definition direct_open_purge :: "config \<Rightarrow> bool \<Rightarrow> fdb \<Rightarrow> world \<Rightarrow> (fdb \<times> world) option" where
  "direct_open_purge cfg force db w = purge_loop cfg force (database db) db w"

section \<open>Opening\<close>

definition direct_new_file :: "config \<Rightarrow> u32 \<Rightarrow> path \<Rightarrow> dedup_db \<Rightarrow> file_t" where
  "direct_new_file cfg h fn ddb =
     \<lparr>filename = fn, filename_hash = h, deleted = False, accesses = 0, fsize = -1,
      fcompressor = None, skipped = 0, dontcompress = False, ftype = TYPE_NONE, status = {},
      deduped = \<not> (dedup_enabled cfg \<and> dedup_redup cfg \<and> \<not> dedup_db_has_filehash h ddb),
      cache = None, head = []\<rparr>"

datatype open_result = Opened nat | Blocked nat

definition lookup_file :: "u32 \<Rightarrow> path \<Rightarrow> fdb \<Rightarrow> nat option" where
  "lookup_file h fn db =
     find (\<lambda>i. case files db i of None \<Rightarrow> False | Some f \<Rightarrow> filename_hash f = h \<and> filename f = fn)
       (database db)"

definition direct_open ::
  "config \<Rightarrow> path \<Rightarrow> bool \<Rightarrow> dedup_db \<Rightarrow> fdb \<Rightarrow> world \<Rightarrow> (open_result \<times> fdb \<times> world) option" where
  "direct_open cfg fn stabile ddb db w = do {
     (h, _) \<leftarrow> gethash fn;
     case lookup_file h fn db of
       Some i \<Rightarrow> do {
         f \<leftarrow> files db i;
         let f = f\<lparr>deleted := False\<rparr>;
         if stabile \<and> status f \<inter> {COMPRESSING, DECOMPRESSING, DEDUPING} \<noteq> {}
         then Some (Blocked i, put_file i (f\<lparr>status := insert CANCEL (status f)\<rparr>) db, w)
         else Some (Opened i, put_file i f db, w)
       }
     | None \<Rightarrow> do {
         let full = db_entries db > MAX_DATABASE_LEN + comp_entries db;
         let db = db\<lparr>db_entries := db_entries db + 1\<rparr>;
         (db, w) \<leftarrow> (if full then direct_open_purge cfg False db w else Some (db, w));
         let i = next_fid db;
         Some (Opened i,
               (put_file i (direct_new_file cfg h fn ddb) db)
                 \<lparr>database := database db @ [i], next_fid := i + 1\<rparr>, w)
       }
   }"

section \<open>Renaming\<close>

text \<open>
  The descriptors move one by one to the front of the new list, and each takes one access with
  it; so does each queue entry.
\<close>

fun move_descriptors :: "descriptor_t list \<Rightarrow> file_t \<Rightarrow> file_t \<Rightarrow> file_t \<times> file_t" where
  "move_descriptors [] from to = (from, to)"
| "move_descriptors (d # ds) from to =
     move_descriptors ds (from\<lparr>head := ds, accesses := accesses from - 1\<rparr>)
       (to\<lparr>head := d # head to, accesses := accesses to + 1\<rparr>)"

fun retarget :: "nat \<Rightarrow> nat \<Rightarrow> (nat \<times> bool) list \<Rightarrow> file_t \<Rightarrow> file_t \<Rightarrow>
  (nat \<times> bool) list \<times> file_t \<times> file_t" where
  "retarget i j [] from to = ([], from, to)"
| "retarget i j ((k, b) # q) from to =
     (if k = i then
        (let (q', from', to') =
           retarget i j q (from\<lparr>accesses := accesses from - 1\<rparr>) (to\<lparr>accesses := accesses to + 1\<rparr>)
         in ((j, b) # q', from', to'))
      else
        (let (q', from', to') = retarget i j q from to in ((k, b) # q', from', to')))"

definition direct_rename :: "nat \<Rightarrow> nat \<Rightarrow> fdb \<Rightarrow> world \<Rightarrow> (fdb \<times> world) option" where
  "direct_rename i j db w = do {
     from \<leftarrow> files db i;
     to \<leftarrow> files db j;
     let (to, w) = flush_file_cache to w;
     let to = to\<lparr>fsize := fsize from, fcompressor := fcompressor from,
                 dontcompress := dontcompress from, ftype := ftype from, status := status from\<rparr>;
     let (from, to) = move_descriptors (head from) from to;
     let (q, from, to) = retarget i j (comp_queue db) from to;
     assert (accesses from \<le> 1);
     Some ((put_file i (direct_delete from) (put_file j to db))\<lparr>comp_queue := q\<rparr>, w)
   }"

section \<open>The background thread\<close>

text \<open>
  Where the thread is: waiting for an entry; having taken one from the queue but not yet the file's
  lock; or working on a file whose lock it has given up, to compress or to deduplicate it.
  \<open>dont_compress_beyond\<close> is a \<open>size_t\<close>, so the comparison with the size is unsigned.
\<close>

datatype worker = Waiting | Took nat bool | Compressing nat compress_job | Deduping nat

definition thread_take :: "fdb \<Rightarrow> (worker \<times> fdb) option" where
  "thread_take db =
     (case comp_queue db of
        [] \<Rightarrow> None
      | (i, is_dedup) # q \<Rightarrow>
          Some (Took i is_dedup, db\<lparr>comp_queue := q, comp_entries := comp_entries db - 1\<rparr>))"

text \<open>The end of a turn, for both kinds of entries.\<close>

definition thread_done ::
  "config \<Rightarrow> nat \<Rightarrow> bool \<Rightarrow> file_t \<Rightarrow> dedup_db \<Rightarrow> fdb \<Rightarrow> world \<Rightarrow> (worker \<times> dedup_db \<times> fdb \<times> world) option" where
  "thread_done cfg i is_dedup f ddb db w = do {
     (f, ddb) \<leftarrow> (if \<not> is_dedup \<and> dedup_enabled cfg then dedup_discard f ddb else Some (f, ddb));
     Some (Waiting, ddb, put_file i (f\<lparr>accesses := accesses f - 1\<rparr>) db, w)
   }"

definition thread_begin ::
  "config \<Rightarrow> nat \<Rightarrow> bool \<Rightarrow> dedup_db \<Rightarrow> fdb \<Rightarrow> world \<Rightarrow> (worker \<times> dedup_db \<times> fdb \<times> world) option" where
  "thread_begin cfg i is_dedup ddb db w = do {
     f \<leftarrow> files db i;
     assert (accesses f > 0);
     if \<not> is_dedup \<and> accesses f = 1 \<and> \<not> deleted f \<and> fcompressor f = None \<and>
        (dont_compress_beyond cfg = -1 \<or> u64_of_off (fsize f) < dont_compress_beyond cfg)
     then do {
       (job, f, w) \<leftarrow> do_compress_begin cfg f w;
       case job of
         None \<Rightarrow> thread_done cfg i is_dedup f ddb db w
       | Some j \<Rightarrow> Some (Compressing i j, ddb, put_file i f db, w)
     }
     else if is_dedup \<and> accesses f = 1 \<and> \<not> deleted f
     then Some (Deduping i, ddb, put_file i (f\<lparr>status := insert DEDUPING (status f)\<rparr>) db, w)
     else thread_done cfg i is_dedup f ddb db w
   }"

definition thread_end ::
  "config \<Rightarrow> (byte list \<Rightarrow> byte list) \<Rightarrow> string \<Rightarrow> worker \<Rightarrow> dedup_db \<Rightarrow> fdb \<Rightarrow> world \<Rightarrow>
   (worker \<times> dedup_db \<times> fdb \<times> world) option" where
  "thread_end cfg mhash pid t ddb db w =
     (case t of
        Compressing i j \<Rightarrow> do {
          f \<leftarrow> files db i;
          (f, ddb, w) \<leftarrow> do_compress_end cfg f ddb j w;
          thread_done cfg i False f ddb db w
        }
      | Deduping i \<Rightarrow> do {
          f \<leftarrow> files db i;
          (f, ddb, w) \<leftarrow> do_dedup_end cfg mhash pid f ddb w;
          thread_done cfg i True f ddb db w
        }
      | _ \<Rightarrow> None)"

end
