(* ===== verification/Examples.thy ===== *)
theory Examples
  imports CompressFacts FileDb "HOL-Library.Code_Target_Numeral"
begin

text \<open>
  Concrete inputs for the properties: a configuration with the null module only, a world
  with one file \<open>f\<close>, its entry in the database, and a compression library that does
  not compress. Numerals are evaluated in binary from here on.
\<close>

definition ex_cfg :: config where
  "ex_cfg = \<lparr>compressors = [Some module_null, None, None, None, None], compressor_default = Some 0,
     min_filesize_background = 4, read_only = False, root_fs = False, cache_decompressed_data = False,
     max_decomp_cache_size = 0, dont_compress_beyond = -1, dedup_enabled = False, dedup_redup = False,
     compresslevel = ''wb6'', user_incompressible = [], user_exclude_paths = []\<rparr>"

definition ex_inode :: "byte list \<Rightarrow> inode" where
  "ex_inode bs =
     \<lparr>idata = bs, imode = 33188, iuid = 0, igid = 0, iatim = (1, 0), imtim = (2, 0), inlink = 1\<rparr>"

definition ex_world :: "byte list \<Rightarrow> world" where
  "ex_world bs =
     \<lparr>names = [''f'' \<mapsto> 0], inodes = [0 \<mapsto> ex_inode bs], ofiles = Map.empty, fdtab = Map.empty,
      next_ino = 1, next_ofile = 0, next_fd = 3, script = [], suffixes = [''abcdef'', ''ghijkl''],
      cancels = [], errno = ENOENT, now = (9, 0), euid = 0, f_bsize = 4096, f_bavail = 1000,
      f_bfree = 1000, decomp_cache_size = 0\<rparr>"

definition ex_file :: file_t where
  "ex_file =
     \<lparr>filename = ''f'', filename_hash = 102, deleted = False, accesses = 0, fsize = -1,
      fcompressor = None, skipped = 0, dontcompress = False, ftype = TYPE_NONE, status = {},
      deduped = True, cache = None, head = []\<rparr>"

definition ex_lib :: lzo_lib where
  "ex_lib = \<lparr>lzo1x_1_compress = Some, lzo1x_decompress_safe = (\<lambda>bs n. Some bs)\<rparr>"

definition ex_decode :: "nat \<Rightarrow> byte list \<Rightarrow> byte list option" where
  "ex_decode c = Some"

lemma ex_lib_ok: "lzo_lib_ok ex_lib"
  by (simp add: lzo_lib_ok_def ex_lib_def)

lemma ex_module: "module_of ex_cfg c = Some m \<longleftrightarrow> c = 0 \<and> m = module_null"
  by (auto simp: module_of_def ex_cfg_def nth_Cons split: nat.splits if_splits)

lemma ex_table_ok: "table_ok ex_cfg ex_decode"
proof -
  have "codec_module (decompress module_null) (ex_decode 0) (compress module_null) True"
    using null_codec.codec_module_axioms by (simp add: module_null_def ex_decode_def)
  moreover have "unat (ctype module_null) = 0" by (simp add: module_null_def)
  ultimately show ?thesis by (simp add: table_ok_def ex_module) (simp add: ex_cfg_def)
qed

lemma ex_default_ok: "default_ok ex_cfg"
  by (simp add: default_ok_def ex_module) (simp add: ex_cfg_def)

lemma ex_world_ok: "world_ok (ex_world bs)"
  by (auto simp: ex_world_def world_ok_def)

lemma ex_world_clean: "clean (ex_world bs)"
  by (simp add: ex_world_def)

lemma ex_contents: "contents (ex_world bs) ''f'' = Some bs"
  by (simp add: contents_def file_of_def ex_world_def ex_inode_def)

lemma ex_temp_ready: "temp_ready (ex_world bs)"
  by (simp add: temp_ready_def ex_world_def)

lemma ex_no_dedup: "\<not> dedup_enabled ex_cfg"
  by (simp add: ex_cfg_def)

text \<open>A world with \<open>f\<close> open on descriptor 3 and an empty file \<open>g\<close> on descriptor 4.\<close>

definition ex_fds :: "byte list \<Rightarrow> world" where
  "ex_fds bs =
     (ex_world bs)\<lparr>names := [''f'' \<mapsto> 0, ''g'' \<mapsto> 1], inodes := [0 \<mapsto> ex_inode bs, 1 \<mapsto> ex_inode []],
       ofiles := [0 \<mapsto> \<lparr>o_ino = 0, o_pos = 0, o_flags = {O_RDWR}\<rparr>,
                  1 \<mapsto> \<lparr>o_ino = 1, o_pos = 0, o_flags = {O_RDWR}\<rparr>],
       fdtab := [3 \<mapsto> 0, 4 \<mapsto> 1], next_ino := 2, next_ofile := 2, next_fd := 5\<rparr>"

lemma ex_fds_world:
  "world_ok (ex_fds bs)" "clean (ex_fds bs)" "at_end (ex_fds bs) 4" "separate (ex_fds bs) 3 4"
  "can_read (ex_fds bs) 3" "rest_of (ex_fds bs) 3 = bs" "data_of (ex_fds bs) 4 = []" "cancels (ex_fds bs) = []"
  by (auto simp: ex_fds_def ex_world_def ex_inode_def world_ok_def at_end_def separate_def can_read_def
      rest_of_def data_of_def fd_ofile_def fd_inode_def ino_of_def readable_def writable_def)

end
