(* ===== verification/CList.thy ===== *)
theory CList
  imports Prelude
begin

text \<open>
  \<^verbatim>\<open>list.h\<close>: the intrusive doubly linked circular lists on which every database of the
  program is built (the file database, the compression queue, the descriptors of a file,
  the buckets of the deduplication tables).

  The model is at the level of pointers: a heap gives every \<open>struct list_head\<close> its two
  fields, and each function is the source's sequence of assignments, so aliasing (an
  entry inserted between a head and itself, a list spliced into an empty one) is what
  it is in C. \<open>dlist h head xs\<close> says that the heap \<open>h\<close> holds the circular list with
  head \<open>head\<close> and entries \<open>xs\<close>; the theorems show that every function does to \<open>xs\<close>
  what its name says, which is what lets the other theories use Isabelle lists.
\<close>

type_synonym ptr = nat

abbreviation NULL :: ptr where
  "NULL \<equiv> 0"

section \<open>The structure and its functions\<close>

record list_heap =
  nxt :: "ptr \<Rightarrow> ptr"
  prv :: "ptr \<Rightarrow> ptr"

definition set_next :: "ptr \<Rightarrow> ptr \<Rightarrow> list_heap \<Rightarrow> list_heap" where
  "set_next p q h = h\<lparr>nxt := (nxt h)(p := q)\<rparr>"

definition set_prev :: "ptr \<Rightarrow> ptr \<Rightarrow> list_heap \<Rightarrow> list_heap" where
  "set_prev p q h = h\<lparr>prv := (prv h)(p := q)\<rparr>"

definition INIT_LIST_HEAD :: "ptr \<Rightarrow> list_heap \<Rightarrow> list_heap" where
  "INIT_LIST_HEAD p h = set_prev p p (set_next p p h)"

definition list_add_between :: "ptr \<Rightarrow> ptr \<Rightarrow> ptr \<Rightarrow> list_heap \<Rightarrow> list_heap" where
  "list_add_between new prev next h =
     (let h1 = set_prev next new h;
          h2 = set_next new next h1;
          h3 = set_prev new prev h2
      in set_next prev new h3)"

definition list_add :: "ptr \<Rightarrow> ptr \<Rightarrow> list_heap \<Rightarrow> list_heap" where
  "list_add new head h = list_add_between new head (nxt h head) h"

definition list_add_tail :: "ptr \<Rightarrow> ptr \<Rightarrow> list_heap \<Rightarrow> list_heap" where
  "list_add_tail new head h = list_add_between new (prv h head) head h"

definition list_del_between :: "ptr \<Rightarrow> ptr \<Rightarrow> list_heap \<Rightarrow> list_heap" where
  "list_del_between prev next h = set_next prev next (set_prev next prev h)"

definition list_del :: "ptr \<Rightarrow> list_heap \<Rightarrow> list_heap" where
  "list_del entry h =
     (let h1 = list_del_between (prv h entry) (nxt h entry) h
      in set_prev entry NULL (set_next entry NULL h1))"

definition list_del_init :: "ptr \<Rightarrow> list_heap \<Rightarrow> list_heap" where
  "list_del_init entry h =
     INIT_LIST_HEAD entry (list_del_between (prv h entry) (nxt h entry) h)"

definition list_move :: "ptr \<Rightarrow> ptr \<Rightarrow> list_heap \<Rightarrow> list_heap" where
  "list_move l head h = list_add l head (list_del_between (prv h l) (nxt h l) h)"

definition list_move_tail :: "ptr \<Rightarrow> ptr \<Rightarrow> list_heap \<Rightarrow> list_heap" where
  "list_move_tail l head h = list_add_tail l head (list_del_between (prv h l) (nxt h l) h)"

definition list_empty :: "ptr \<Rightarrow> list_heap \<Rightarrow> bool" where
  "list_empty head h \<longleftrightarrow> nxt h head = head"

definition list_splice_raw :: "ptr \<Rightarrow> ptr \<Rightarrow> list_heap \<Rightarrow> list_heap" where
  "list_splice_raw l head h =
     (let first = nxt h l;
          last = prv h l;
          at = nxt h head;
          h1 = set_prev first head h;
          h2 = set_next head first h1;
          h3 = set_next last at h2
      in set_prev at last h3)"

definition list_splice :: "ptr \<Rightarrow> ptr \<Rightarrow> list_heap \<Rightarrow> list_heap" where
  "list_splice l head h = (if \<not> list_empty l h then list_splice_raw l head h else h)"

definition list_splice_init :: "ptr \<Rightarrow> ptr \<Rightarrow> list_heap \<Rightarrow> list_heap" where
  "list_splice_init l head h =
     (if \<not> list_empty l h then INIT_LIST_HEAD l (list_splice_raw l head h) else h)"

text \<open>
  The iteration macros. \<open>list_for_each\<close> is a loop over the heap that may not end (a
  damaged list need not lead back to its head), so it takes fuel; \<open>body\<close> is the loop's
  body, acting on the caller's state (the heap included, through \<open>heap_of\<close>).
  \<open>list_for_each_safe\<close> reads the successor before the body runs.
\<close>

fun list_for_each :: "nat \<Rightarrow> ('s \<Rightarrow> list_heap) \<Rightarrow> (ptr \<Rightarrow> 's \<Rightarrow> 's) \<Rightarrow> ptr \<Rightarrow> ptr \<Rightarrow> 's \<Rightarrow> 's option" where
  "list_for_each 0 heap_of body pos head s = None"
| "list_for_each (Suc fuel) heap_of body pos head s =
     (if pos = head then Some s
      else let s' = body pos s
           in list_for_each fuel heap_of body (nxt (heap_of s') pos) head s')"

fun list_for_each_prev :: "nat \<Rightarrow> ('s \<Rightarrow> list_heap) \<Rightarrow> (ptr \<Rightarrow> 's \<Rightarrow> 's) \<Rightarrow> ptr \<Rightarrow> ptr \<Rightarrow> 's \<Rightarrow> 's option" where
  "list_for_each_prev 0 heap_of body pos head s = None"
| "list_for_each_prev (Suc fuel) heap_of body pos head s =
     (if pos = head then Some s
      else let s' = body pos s
           in list_for_each_prev fuel heap_of body (prv (heap_of s') pos) head s')"

fun list_for_each_safe ::
  "nat \<Rightarrow> ('s \<Rightarrow> list_heap) \<Rightarrow> (ptr \<Rightarrow> 's \<Rightarrow> 's) \<Rightarrow> ptr \<Rightarrow> ptr \<Rightarrow> ptr \<Rightarrow> 's \<Rightarrow> 's option" where
  "list_for_each_safe 0 heap_of body pos n head s = None"
| "list_for_each_safe (Suc fuel) heap_of body pos n head s =
     (if pos = head then Some s
      else let s' = body pos s
           in list_for_each_safe fuel heap_of body n (nxt (heap_of s') n) head s')"

section \<open>What a heap represents\<close>

text \<open>
  \<open>chain h p xs q\<close>: following \<open>next\<close> from \<open>p\<close> visits \<open>xs\<close> and arrives at \<open>q\<close>, and the
  \<open>prev\<close> fields lead back.
\<close>

fun chain :: "list_heap \<Rightarrow> ptr \<Rightarrow> ptr list \<Rightarrow> ptr \<Rightarrow> bool" where
  "chain h p [] q \<longleftrightarrow> nxt h p = q \<and> prv h q = p"
| "chain h p (x # xs) q \<longleftrightarrow> nxt h p = x \<and> prv h x = p \<and> chain h x xs q"

definition dlist :: "list_heap \<Rightarrow> ptr \<Rightarrow> ptr list \<Rightarrow> bool" where
  "dlist h head xs \<longleftrightarrow> distinct (head # xs) \<and> chain h head xs head"

lemma set_next_simps [simp]:
  "nxt (set_next p q h) = (nxt h)(p := q)" "prv (set_next p q h) = prv h"
  by (simp_all add: set_next_def)

lemma set_prev_simps [simp]:
  "prv (set_prev p q h) = (prv h)(p := q)" "nxt (set_prev p q h) = nxt h"
  by (simp_all add: set_prev_def)

lemma chain_append: "chain h p (xs @ y # ys) q \<longleftrightarrow> chain h p xs y \<and> chain h y ys q"
  by (induction xs arbitrary: p) auto

lemma chain_snoc: "chain h p (xs @ [y]) q \<longleftrightarrow> chain h p xs y \<and> nxt h y = q \<and> prv h q = y"
  by (simp add: chain_append)

text \<open>A chain does not see writes to other cells.\<close>

lemma chain_cong:
  assumes "\<And>a. a \<in> insert p (set xs) \<Longrightarrow> nxt h' a = nxt h a"
    and "\<And>a. a \<in> insert q (set xs) \<Longrightarrow> prv h' a = prv h a"
  shows "chain h' p xs q = chain h p xs q"
  using assms by (induction xs arbitrary: p) auto

lemma chain_last: "chain h p xs q \<Longrightarrow> prv h q = last (p # xs)"
  by (induction xs arbitrary: p) auto

lemma chain_first: "chain h p xs q \<Longrightarrow> nxt h p = hd (xs @ [q])"
  by (cases xs) auto

lemma dlist_ends:
  assumes "dlist h head xs"
  shows "nxt h head = hd (xs @ [head])" and "prv h head = last (head # xs)"
  using assms chain_last chain_first unfolding dlist_def by blast+

text \<open>Writes outside a list leave it alone.\<close>

lemma dlist_frame [frame]:
  assumes "dlist h head xs"
    and "\<And>a. a \<in> insert head (set xs) \<Longrightarrow> nxt h' a = nxt h a \<and> prv h' a = prv h a"
  shows "dlist h' head xs"
proof -
  have "chain h' head xs head = chain h head xs head"
    by (rule chain_cong) (use assms(2) in auto)
  with assms(1) show ?thesis by (simp add: dlist_def)
qed

section \<open>The functions do to the list what their names say\<close>

lemma INIT_LIST_HEAD_dlist: "dlist (INIT_LIST_HEAD p h) p []"
  by (simp add: dlist_def INIT_LIST_HEAD_def)

lemma list_empty_dlist: "dlist h head xs \<Longrightarrow> list_empty head h \<longleftrightarrow> xs = []"
  by (cases xs) (auto simp: dlist_def list_empty_def)

text \<open>Inserting between two neighbours of the list, wherever they are.\<close>

lemma add_between_chain:
  assumes "chain h p (xs @ ys) q" and "distinct (p # xs @ ys)" and "q \<notin> set xs" and "q \<notin> set ys"
    and "new \<notin> set (p # q # xs @ ys)"
    and "prev = last (p # xs)" and "next = hd (ys @ [q])"
  shows "chain (list_add_between new prev next h) p (xs @ new # ys) q"
  using assms
proof (induction xs arbitrary: p)
  case Nil
  show ?case
  proof (cases ys)
    case Nil
    with Nil.prems show ?thesis
      by (auto simp: list_add_between_def Let_def)
  next
    case (Cons y zs)
    have "chain (list_add_between new p y h) y zs q = chain h y zs q"
      by (rule chain_cong)
        (use Nil.prems Cons in \<open>auto simp: list_add_between_def Let_def\<close>)
    with Nil.prems Cons show ?thesis
      by (auto simp: list_add_between_def Let_def)
  qed
next
  case (Cons x xs)
  have "chain (list_add_between new prev next h) x (xs @ new # ys) q"
    by (rule Cons.IH) (use Cons.prems in auto)
  moreover have "nxt (list_add_between new prev next h) p = x"
    and "prv (list_add_between new prev next h) x = p"
    using Cons.prems
    by (cases ys; auto simp: list_add_between_def Let_def split: if_splits)+
  ultimately show ?case by simp
qed

lemma list_add_dlist:
  assumes "dlist h head xs" and "new \<notin> set (head # xs)"
  shows "dlist (list_add new head h) head (new # xs)"
  using add_between_chain [of h head "[]" xs head new head "nxt h head"] assms
    dlist_ends [OF assms(1)]
  by (auto simp: dlist_def list_add_def)

lemma list_add_tail_dlist:
  assumes "dlist h head xs" and "new \<notin> set (head # xs)"
  shows "dlist (list_add_tail new head h) head (xs @ [new])"
  using add_between_chain [of h head xs "[]" head new "prv h head" head] assms
    dlist_ends [OF assms(1)]
  by (auto simp: dlist_def list_add_tail_def)

text \<open>Removing an entry: the neighbours are joined, whatever the entry's own fields become.\<close>

lemma del_between_chain:
  assumes "chain h p (xs @ e # ys) q" and "distinct (p # xs @ e # ys)"
    and "q \<notin> set xs" and "q \<notin> set ys" and "q \<noteq> e"
  shows "chain (list_del_between (prv h e) (nxt h e) h) p (xs @ ys) q"
  using assms
proof (induction xs arbitrary: p)
  case Nil
  show ?case
  proof (cases ys)
    case Nil
    with Nil.prems show ?thesis by (auto simp: list_del_between_def)
  next
    case (Cons y zs)
    have "chain (list_del_between p y h) y zs q = chain h y zs q"
      by (rule chain_cong) (use Nil.prems Cons in \<open>auto simp: list_del_between_def\<close>)
    with Nil.prems Cons show ?thesis by (auto simp: list_del_between_def)
  qed
next
  case (Cons x xs)
  let ?h = "list_del_between (prv h e) (nxt h e) h"
  have e: "prv h e = last (x # xs)" and n: "nxt h e = hd (ys @ [q])"
    using Cons.prems(1) by (auto simp: chain_append dest: chain_last chain_first)
  have "chain ?h x (xs @ ys) q"
    by (rule Cons.IH) (use Cons.prems in auto)
  moreover have "nxt ?h p = x" and "prv ?h x = p"
    using Cons.prems e n by (cases ys; auto simp: list_del_between_def split: if_splits)+
  ultimately show ?case by simp
qed

lemma del_between_dlist:
  assumes "dlist h head xs" and "e \<in> set xs"
  shows "dlist (list_del_between (prv h e) (nxt h e) h) head (remove1 e xs)"
proof -
  obtain ys zs where xs: "xs = ys @ e # zs" "e \<notin> set ys"
    using assms(2) by (meson split_list_first)
  then have "remove1 e xs = ys @ zs" by (simp add: remove1_append)
  then show ?thesis
    using assms(1) xs(1) del_between_chain [of h head ys e zs head]
    by (auto simp: dlist_def)
qed

lemma list_del_dlist:
  assumes "dlist h head xs" and "e \<in> set xs"
  shows "dlist (list_del e h) head (remove1 e xs)"
    and "nxt (list_del e h) e = NULL" and "prv (list_del e h) e = NULL"
proof -
  have "e \<notin> insert head (set (remove1 e xs))"
    using assms by (auto simp: dlist_def)
  then show "dlist (list_del e h) head (remove1 e xs)"
    by (intro dlist_frame [OF del_between_dlist [OF assms]]) (auto simp: list_del_def Let_def)
qed (simp_all add: list_del_def Let_def)

lemma list_del_init_dlist:
  assumes "dlist h head xs" and "e \<in> set xs"
  shows "dlist (list_del_init e h) head (remove1 e xs)" and "dlist (list_del_init e h) e []"
proof -
  have "e \<notin> insert head (set (remove1 e xs))"
    using assms by (auto simp: dlist_def)
  then show "dlist (list_del_init e h) head (remove1 e xs)"
    by (intro dlist_frame [OF del_between_dlist [OF assms]])
      (auto simp: list_del_init_def INIT_LIST_HEAD_def)
qed (simp add: list_del_init_def INIT_LIST_HEAD_dlist)

text \<open>Deleting from one list does not touch another.\<close>

lemma del_between_other:
  assumes "dlist h head xs" and "e \<in> set xs" and "dlist h head' ys"
    and "set (head # xs) \<inter> set (head' # ys) = {}"
  shows "dlist (list_del_between (prv h e) (nxt h e) h) head' ys"
proof -
  obtain us vs where xs: "xs = us @ e # vs"
    using assms(2) by (meson split_list)
  have "prv h e \<in> set (head # xs)" and "nxt h e \<in> set (head # xs)"
    using assms(1) chain_last [of h head us e] chain_first [of h e vs head]
    unfolding dlist_def xs chain_append by (auto simp: last_in_set hd_append split: if_splits list.splits)
  then show ?thesis
    by (intro dlist_frame [OF assms(3)]) (use assms(4) in \<open>auto simp: list_del_between_def\<close>)
qed

lemma list_move_dlist:
  assumes "dlist h src xs" and "e \<in> set xs" and "dlist h dst ys"
    and "set (src # xs) \<inter> set (dst # ys) = {}"
  shows "dlist (list_move e dst h) dst (e # ys)"
    and "dlist (list_move_tail e dst h) dst (ys @ [e])"
proof -
  have "dlist (list_del_between (prv h e) (nxt h e) h) dst ys"
    by (rule del_between_other [OF assms])
  moreover have "e \<notin> set (dst # ys)" using assms(2,4) by auto
  ultimately show "dlist (list_move e dst h) dst (e # ys)"
    and "dlist (list_move_tail e dst h) dst (ys @ [e])"
    by (simp_all add: list_move_def list_move_tail_def list_add_dlist list_add_tail_dlist)
qed


text \<open>Joining two lists: the second head's entries come first, as the source says.\<close>

lemma splice_raw_chain:
  assumes "dlist h l xs" and "dlist h head ys" and "xs \<noteq> []"
    and "set (l # xs) \<inter> set (head # ys) = {}"
  shows "chain (list_splice_raw l head h) head (xs @ ys) head"
proof -
  obtain x zs where xs: "xs = x # zs" using assms(3) by (cases xs) auto
  let ?z = "last xs" and ?at = "hd (ys @ [head])"
  let ?h = "list_splice_raw l head h"
  have ends: "nxt h l = x" "prv h l = ?z" "nxt h head = ?at"
    using dlist_ends [OF assms(1)] dlist_ends [OF assms(2)] xs by (auto simp: assms(3))
  have "chain h l (butlast xs @ [?z]) l" using assms(1,3) by (simp add: dlist_def)
  moreover have hdx: "hd (butlast xs @ [?z]) = x" using xs by (cases zs) auto
  ultimately have ch: "chain h x (tl xs) l" using xs assms(1) by (simp add: dlist_def)
  have z_in: "?z \<in> set xs" using assms(3) by simp
  have at_in: "?at \<in> set (head # ys)" by (cases ys) auto
  have dx: "distinct (l # xs)" and dy: "distinct (head # ys)"
    using assms(1,2) by (auto simp: dlist_def)
  have heap: "nxt ?h = (nxt h)(head := x, ?z := ?at)" "prv ?h = (prv h)(x := head, ?at := ?z)"
    by (simp_all add: list_splice_raw_def Let_def ends)
  have front: "chain ?h head (butlast xs) ?z"
  proof (cases "zs = []")
    case True
    then show ?thesis using xs heap assms(4) z_in at_in by auto
  next
    case False
    have bx: "butlast xs = x # butlast zs" and z: "?z = last zs" using xs False by auto
    have "chain h x (butlast zs @ [last zs]) l" using ch xs False by simp
    then have c: "chain h x (butlast zs) (last zs)" by (simp add: chain_append)
    have nz: "last zs \<notin> insert x (set (butlast zs))"
      using dx xs False by (metis append_butlast_last_id distinct.simps(2) distinct_append
        insertE not_distinct_conv_prefix in_set_butlastD last_in_set)
    have "chain ?h x (butlast zs) (last zs) = chain h x (butlast zs) (last zs)"
    proof (rule chain_cong)
      fix a assume "a \<in> insert x (set (butlast zs))"
      moreover have "a \<noteq> head" using calculation assms(4) xs by (auto dest: in_set_butlastD)
      moreover have "a \<noteq> last zs" using calculation nz by auto
      ultimately show "nxt ?h a = nxt h a" using heap z by auto
    next
      fix a assume a: "a \<in> insert (last zs) (set (butlast zs))"
      then have "a \<in> set zs" using False by (auto dest: in_set_butlastD)
      then have "a \<noteq> x" and "a \<noteq> ?at" using dx xs assms(4) at_in by auto
      then show "prv ?h a = prv h a" using heap by auto
    qed
    moreover have "head \<noteq> ?z" and "x \<noteq> ?at" using assms(4) z_in at_in xs by auto
    ultimately show ?thesis using c heap by (simp add: bx z)
  qed
  have rear: "chain ?h ?z ys head"
  proof (cases ys)
    case Nil
    then show ?thesis using heap by simp
  next
    case (Cons y us)
    have c: "chain h y us head" using assms(2) Cons by (simp add: dlist_def)
    have "chain ?h y us head = chain h y us head"
      by (rule chain_cong) (use Cons heap dy assms(4) z_in xs in auto)
    then show ?thesis using Cons c heap by simp
  qed
  have "chain ?h head (butlast xs @ ?z # ys) head"
    using front rear by (simp add: chain_append)
  then show ?thesis by (metis append.assoc append_Cons append_Nil append_butlast_last_id assms(3))
qed

lemma list_splice_dlist:
  assumes "dlist h l xs" and "dlist h head ys"
    and "set (l # xs) \<inter> set (head # ys) = {}"
  shows "dlist (list_splice l head h) head (xs @ ys)"
    and "dlist (list_splice_init l head h) head (xs @ ys) \<and> dlist (list_splice_init l head h) l []"
proof -
  have d: "distinct (head # xs @ ys)" and l: "l \<notin> set (head # xs @ ys)"
    using assms by (auto simp: dlist_def)
  have raw: "dlist (list_splice_raw l head h) head (xs @ ys)" if "xs \<noteq> []"
    unfolding dlist_def using splice_raw_chain [OF assms(1,2) that assms(3)] d by simp
  show "dlist (list_splice l head h) head (xs @ ys)"
    using raw assms(2) by (auto simp: list_splice_def list_empty_dlist [OF assms(1)])
  show "dlist (list_splice_init l head h) head (xs @ ys) \<and> dlist (list_splice_init l head h) l []"
  proof (cases "xs = []")
    case True
    then show ?thesis
      using assms(1,2) by (simp add: list_splice_init_def list_empty_dlist [OF assms(1)])
  next
    case False
    have "dlist (INIT_LIST_HEAD l (list_splice_raw l head h)) head (xs @ ys)"
      by (rule dlist_frame [OF raw [OF False]])
        (use l in \<open>auto simp: INIT_LIST_HEAD_def\<close>)
    with False show ?thesis
      by (simp add: list_splice_init_def list_empty_dlist [OF assms(1)] INIT_LIST_HEAD_dlist)
  qed
qed

section \<open>Iteration\<close>

text \<open>
  A body may delete the entry it is called for (this is what the safe variant is for);
  it leaves the rest of the list as it is.
\<close>

definition deleting_body :: "('s \<Rightarrow> list_heap) \<Rightarrow> ptr \<Rightarrow> (ptr \<Rightarrow> 's \<Rightarrow> 's) \<Rightarrow> bool" where
  "deleting_body heap_of head body \<longleftrightarrow>
     (\<forall>s ys pos. dlist (heap_of s) head ys \<and> pos \<in> set ys \<longrightarrow>
        dlist (heap_of (body pos s)) head ys \<or> dlist (heap_of (body pos s)) head (remove1 pos ys))"

lemma for_each_safe_suffix:
  assumes "deleting_body heap_of head body" and "dlist (heap_of s) head (ys @ zs)"
    and "length zs < fuel" and "zs \<noteq> [] \<Longrightarrow> n = hd (tl zs @ [head])"
  shows "list_for_each_safe fuel heap_of body (hd (zs @ [head])) n head s = Some (fold body zs s)"
  using assms(2-)
proof (induction zs arbitrary: fuel n s ys)
  case Nil
  then show ?case by (cases fuel) auto
next
  case (Cons z zs)
  obtain fuel' where fuel: "fuel = Suc fuel'" using Cons.prems(2) by (cases fuel) auto
  have z: "z \<noteq> head" using Cons.prems(1) by (auto simp: dlist_def)
  have "z \<notin> set ys" using Cons.prems(1) by (auto simp: dlist_def)
  then have "remove1 z (ys @ z # zs) = ys @ zs" by (simp add: remove1_append)
  then obtain ys' where ys': "dlist (heap_of (body z s)) head (ys' @ zs)"
    using assms(1) Cons.prems(1) unfolding deleting_body_def
    by (metis append.assoc append_Cons append_Nil in_set_conv_decomp)
  have n: "n = hd (zs @ [head])" using Cons.prems(3) by simp
  have next_n: "zs \<noteq> [] \<Longrightarrow> nxt (heap_of (body z s)) n = hd (tl zs @ [head])"
    using ys' unfolding n dlist_def by (cases zs) (auto simp: chain_append dest: chain_first)
  have "list_for_each_safe fuel' heap_of body (hd (zs @ [head]))
      (nxt (heap_of (body z s)) n) head (body z s) = Some (fold body zs (body z s))"
    by (rule Cons.IH [OF ys']) (use Cons.prems(2) fuel next_n in auto)
  with fuel z n show ?case by (simp add: Let_def)
qed

lemma for_each_safe_visits_all:
  assumes "deleting_body heap_of head body" and "dlist (heap_of s) head xs" and "length xs < fuel"
  shows "list_for_each_safe fuel heap_of body (nxt (heap_of s) head)
           (nxt (heap_of s) (nxt (heap_of s) head)) head s = Some (fold body xs s)"
proof -
  have first: "nxt (heap_of s) head = hd (xs @ [head])" by (rule dlist_ends [OF assms(2)])
  have "xs \<noteq> [] \<Longrightarrow> nxt (heap_of s) (hd xs) = hd (tl xs @ [head])"
    using assms(2) by (cases xs) (auto simp: dlist_def dest: chain_first)
  then show ?thesis
    unfolding first by (intro for_each_safe_suffix [where ys = "[]"]) (use assms in auto)
qed

text \<open>The plain loops need a body that keeps the list; then they visit it in order, or in reverse.\<close>

definition keeping_body :: "('s \<Rightarrow> list_heap) \<Rightarrow> ptr \<Rightarrow> (ptr \<Rightarrow> 's \<Rightarrow> 's) \<Rightarrow> bool" where
  "keeping_body heap_of head body \<longleftrightarrow>
     (\<forall>s ys pos. dlist (heap_of s) head ys \<and> pos \<in> set ys \<longrightarrow> dlist (heap_of (body pos s)) head ys)"

lemma for_each_suffix:
  assumes "keeping_body heap_of head body" and "dlist (heap_of s) head (ys @ zs)"
    and "length zs < fuel"
  shows "list_for_each fuel heap_of body (hd (zs @ [head])) head s = Some (fold body zs s)"
  using assms(2-)
proof (induction zs arbitrary: fuel s ys)
  case Nil
  then show ?case by (cases fuel) auto
next
  case (Cons z zs)
  obtain fuel' where fuel: "fuel = Suc fuel'" using Cons.prems(2) by (cases fuel) auto
  have z: "z \<noteq> head" using Cons.prems(1) by (auto simp: dlist_def)
  have kept: "dlist (heap_of (body z s)) head (ys @ z # zs)"
    using assms(1) Cons.prems(1) by (auto simp: keeping_body_def)
  then have "nxt (heap_of (body z s)) z = hd (zs @ [head])"
    by (auto simp: dlist_def chain_append dest: chain_first)
  moreover have "list_for_each fuel' heap_of body (hd (zs @ [head])) head (body z s)
      = Some (fold body zs (body z s))"
    by (rule Cons.IH [where ys = "ys @ [z]"]) (use kept Cons.prems(2) fuel in auto)
  ultimately show ?case using fuel z by (simp add: Let_def)
qed

lemma for_each_prev_suffix:
  assumes "keeping_body heap_of head body" and "dlist (heap_of s) head (zs @ ys)"
    and "length zs < fuel"
  shows "list_for_each_prev fuel heap_of body (last (head # zs)) head s = Some (fold body (rev zs) s)"
  using assms(2-)
proof (induction zs arbitrary: fuel s ys rule: rev_induct)
  case Nil
  then show ?case by (cases fuel) auto
next
  case (snoc z zs)
  obtain fuel' where fuel: "fuel = Suc fuel'" using snoc.prems(2) by (cases fuel) auto
  have z: "z \<noteq> head" using snoc.prems(1) by (auto simp: dlist_def)
  have kept: "dlist (heap_of (body z s)) head (zs @ z # ys)"
    using assms(1) snoc.prems(1) by (auto simp: keeping_body_def)
  then have "prv (heap_of (body z s)) z = last (head # zs)"
    by (auto simp: dlist_def chain_append dest: chain_last)
  moreover have "list_for_each_prev fuel' heap_of body (last (head # zs)) head (body z s)
      = Some (fold body (rev zs) (body z s))"
    by (rule snoc.IH [where ys = "z # ys"]) (use kept snoc.prems(2) fuel in auto)
  ultimately show ?case using fuel z by (simp add: Let_def)
qed

lemma for_each_visits_all:
  assumes "keeping_body heap_of head body" and "dlist (heap_of s) head xs" and "length xs < fuel"
  shows "list_for_each fuel heap_of body (nxt (heap_of s) head) head s = Some (fold body xs s)"
    and "list_for_each_prev fuel heap_of body (prv (heap_of s) head) head s = Some (fold body (rev xs) s)"
  using for_each_suffix [OF assms(1), of s "[]" xs fuel]
    for_each_prev_suffix [OF assms(1), of s xs "[]" fuel] assms(2,3)
  by (simp_all add: dlist_ends [OF assms(2)])


section \<open>The interface its users rely on\<close>

text \<open>
  What the databases need of \<^verbatim>\<open>list.h\<close>: a heap represents lists, adding at either end and
  deleting do what they say, and operations on one list leave a disjoint list alone. The
  users' patterns (a queue filled at the tail and emptied at the head, an entry moved from
  one list to another) are proved once, over this interface.
\<close>

locale intrusive_list =
  fixes repr :: "'h \<Rightarrow> ptr \<Rightarrow> ptr list \<Rightarrow> bool"
    and init :: "ptr \<Rightarrow> 'h \<Rightarrow> 'h"
    and add :: "ptr \<Rightarrow> ptr \<Rightarrow> 'h \<Rightarrow> 'h"
    and add_tail :: "ptr \<Rightarrow> ptr \<Rightarrow> 'h \<Rightarrow> 'h"
    and del :: "ptr \<Rightarrow> 'h \<Rightarrow> 'h"
    and is_empty :: "ptr \<Rightarrow> 'h \<Rightarrow> bool"
    and first :: "ptr \<Rightarrow> 'h \<Rightarrow> ptr"
  assumes repr_init: "repr (init p h) p []"
    and repr_add: "repr h p xs \<Longrightarrow> e \<notin> set (p # xs) \<Longrightarrow> repr (add e p h) p (e # xs)"
    and repr_add_tail: "repr h p xs \<Longrightarrow> e \<notin> set (p # xs) \<Longrightarrow> repr (add_tail e p h) p (xs @ [e])"
    and repr_del: "repr h p xs \<Longrightarrow> e \<in> set xs \<Longrightarrow> repr (del e h) p (remove1 e xs)"
    and repr_empty: "repr h p xs \<Longrightarrow> is_empty p h \<longleftrightarrow> xs = []"
    and repr_first: "repr h p xs \<Longrightarrow> xs \<noteq> [] \<Longrightarrow> first p h = hd xs"
    and repr_distinct: "repr h p xs \<Longrightarrow> distinct (p # xs)"
    and add_tail_other: "repr h p xs \<Longrightarrow> repr h q ys \<Longrightarrow> set (p # xs) \<inter> set (q # ys) = {} \<Longrightarrow>
      e \<notin> set (p # xs) \<Longrightarrow> e \<notin> set (q # ys) \<Longrightarrow> repr (add_tail e p h) q ys"
    and del_other: "repr h p xs \<Longrightarrow> repr h q ys \<Longrightarrow> set (p # xs) \<inter> set (q # ys) = {} \<Longrightarrow>
      e \<in> set xs \<Longrightarrow> repr (del e h) q ys"
begin

lemma enqueue_all:
  assumes "repr h p xs" and "distinct es" and "set es \<inter> set (p # xs) = {}"
  shows "repr (fold (\<lambda>e. add_tail e p) es h) p (xs @ es)"
  using assms
proof (induction es arbitrary: h xs)
  case Nil
  then show ?case by simp
next
  case (Cons e es)
  have "repr (add_tail e p h) p (xs @ [e])"
    using Cons.prems by (intro repr_add_tail) auto
  then have "repr (fold (\<lambda>e. add_tail e p) es (add_tail e p h)) p ((xs @ [e]) @ es)"
    by (rule Cons.IH) (use Cons.prems in auto)
  then show ?case by simp
qed

lemma dequeue:
  assumes "repr h p xs" and "\<not> is_empty p h"
  shows "first p h = hd xs \<and> repr (del (first p h) h) p (tl xs)"
proof -
  have ne: "xs \<noteq> []" using assms repr_empty by blast
  then have "first p h = hd xs" using assms(1) by (rule repr_first [rotated])
  moreover have "repr (del (hd xs) h) p (remove1 (hd xs) xs)"
    using assms(1) ne by (intro repr_del) auto
  moreover have "remove1 (hd xs) xs = tl xs" using ne by (cases xs) auto
  ultimately show ?thesis by simp
qed

text \<open>Entries come out of a queue in the order they went in.\<close>

lemma fifo:
  assumes "distinct es" and "p \<notin> set es" and "es \<noteq> []"
  shows "let q = fold (\<lambda>e. add_tail e p) es (init p h)
         in \<not> is_empty p q \<and> first p q = hd es \<and> repr (del (first p q) q) p (tl es)"
proof -
  have r: "repr (fold (\<lambda>e. add_tail e p) es (init p h)) p es"
    using enqueue_all [OF repr_init, of es p h] assms by auto
  then have "\<not> is_empty p (fold (\<lambda>e. add_tail e p) es (init p h))"
    using assms(3) repr_empty by blast
  with dequeue [OF r] show ?thesis unfolding Let_def by metis
qed

text \<open>An entry taken off one list and appended to another.\<close>

lemma transfer_tail:
  assumes "repr h p xs" and "repr h q ys" and "set (p # xs) \<inter> set (q # ys) = {}" and "e \<in> set xs"
  shows "repr (add_tail e q (del e h)) q (ys @ [e]) \<and> repr (add_tail e q (del e h)) p (remove1 e xs)"
proof -
  have d: "repr (del e h) p (remove1 e xs)" "repr (del e h) q ys"
    using assms by (blast intro: repr_del del_other)+
  have e: "e \<notin> set (q # ys)" using assms(3,4) by auto
  have dist: "distinct (p # xs)" by (rule repr_distinct [OF assms(1)])
  have "e \<noteq> p" using dist assms(4) by auto
  moreover have "e \<notin> set (remove1 e xs)" using dist by simp
  moreover have "set (remove1 e xs) \<subseteq> set xs" by (rule set_remove1_subset)
  ultimately have "repr (add_tail e q (del e h)) p (remove1 e xs)"
    using assms(3) e by (intro add_tail_other [OF d(2,1)]) auto
  with repr_add_tail [OF d(2) e] show ?thesis by simp
qed

end

lemma list_add_tail_other:
  assumes "dlist h p xs" and "dlist h q ys" and "set (p # xs) \<inter> set (q # ys) = {}"
    and "e \<notin> set (p # xs)" and "e \<notin> set (q # ys)"
  shows "dlist (list_add_tail e p h) q ys"
proof -
  have "prv h p \<in> set (p # xs)" using dlist_ends(2) [OF assms(1)] by (simp add: last_in_set)
  then show ?thesis
    by (intro dlist_frame [OF assms(2)])
      (use assms(3-) in \<open>auto simp: list_add_tail_def list_add_between_def Let_def\<close>)
qed

lemma list_del_other:
  assumes "dlist h p xs" and "dlist h q ys" and "set (p # xs) \<inter> set (q # ys) = {}" and "e \<in> set xs"
  shows "dlist (list_del e h) q ys"
  by (intro dlist_frame [OF del_between_other [OF assms(1,4,2,3)]])
    (use assms(3,4) in \<open>auto simp: list_del_def Let_def\<close>)

lemma dlist_distinct: "dlist h p xs \<Longrightarrow> distinct (p # xs)"
  by (simp add: dlist_def)

interpretation clist: intrusive_list dlist INIT_LIST_HEAD list_add list_add_tail list_del list_empty
  "\<lambda>head h. nxt h head"
  by unfold_locales
    (blast intro: INIT_LIST_HEAD_dlist list_add_dlist list_add_tail_dlist list_del_dlist(1)
        list_add_tail_other list_del_other dlist_distinct
     | simp add: list_empty_dlist dlist_ends)+

end
