(* ===== verification/FormatProps.thy ===== *)
theory FormatProps
  imports Examples CList
begin

text \<open>
  The properties of the lists (\<^verbatim>\<open>list.h\<close>), of the string helpers (\<^verbatim>\<open>utils.h\<close>), of the header
  and the temporary names (\<^verbatim>\<open>file.c\<close>), and of the LZO stream (\<^verbatim>\<open>minilzo/lzo.c\<close>).
\<close>

section \<open>Lists\<close>

definition ex_heap :: list_heap where
  "ex_heap = list_add_tail 3 1 (list_add_tail 2 1 (INIT_LIST_HEAD 1
     (list_add_tail 6 5 (INIT_LIST_HEAD 5 \<lparr>nxt = (\<lambda>_. 0), prv = (\<lambda>_. 0)\<rparr>))))"

lemma ex_heap_lists: "dlist ex_heap 1 [2, 3]" "dlist ex_heap 5 [6]"
  by (simp_all add: dlist_def ex_heap_def list_add_tail_def list_add_between_def INIT_LIST_HEAD_def Let_def)

text \<open>
  Adding an entry at either end of a list and deleting it again gives back the list, and the
  deleted entry's pointers are NULL.
\<close>

theorem list_add_then_del:
  assumes "dlist h anchor xs" and "new \<notin> set (anchor # xs)"
  shows "dlist (list_add new anchor h) anchor (new # xs) \<and>
    dlist (list_add_tail new anchor h) anchor (xs @ [new]) \<and>
    dlist (list_del new (list_add new anchor h)) anchor xs \<and>
    dlist (list_del new (list_add_tail new anchor h)) anchor xs \<and>
    nxt (list_del new (list_add_tail new anchor h)) new = NULL \<and>
    prv (list_del new (list_add_tail new anchor h)) new = NULL"
proof -
  note a = list_add_dlist [OF assms] list_add_tail_dlist [OF assms]
  have "remove1 new (xs @ [new]) = xs" using assms(2) by (simp add: remove1_append)
  then show ?thesis
    using a list_del_dlist(1) [OF a(1), of new] list_del_dlist [OF a(2), of new] by simp
qed

theorem list_add_then_del_witness:
  "dlist (list_del 9 (list_add_tail 9 1 ex_heap)) 1 [2, 3] \<and> prv (list_del 9 (list_add_tail 9 1 ex_heap)) 9 = NULL"
  using list_add_then_del [OF ex_heap_lists(1), of 9] by simp

text \<open>
  Moving an entry to another list takes it out of the first and puts it at the chosen end of
  the second; splicing puts one list before the other and leaves the first one empty.
\<close>

theorem list_move_and_splice:
  assumes "dlist h src xs" and "dlist h dst ys" and "set (src # xs) \<inter> set (dst # ys) = {}"
    and "e \<in> set xs"
  shows "dlist (list_move e dst h) dst (e # ys) \<and> dlist (list_move_tail e dst h) dst (ys @ [e]) \<and>
    dlist (list_move_tail e dst h) src (remove1 e xs) \<and>
    dlist (list_splice src dst h) dst (xs @ ys) \<and>
    dlist (list_splice_init src dst h) dst (xs @ ys) \<and> dlist (list_splice_init src dst h) src []"
proof -
  have d: "dlist (list_del_between (prv h e) (nxt h e) h) src (remove1 e xs)"
    by (rule del_between_dlist [OF assms(1,4)])
  have o: "dlist (list_del_between (prv h e) (nxt h e) h) dst ys"
    by (rule del_between_other [OF assms(1,4,2,3)])
  have "set (remove1 e xs) \<subseteq> set xs" by (rule set_remove1_subset)
  moreover have "distinct (src # xs)" by (rule dlist_distinct [OF assms(1)])
  ultimately have "dlist (list_move_tail e dst h) src (remove1 e xs)"
    unfolding list_move_tail_def
    by (intro list_add_tail_other [OF o d]) (use assms(3,4) in auto)
  then show ?thesis
    using list_move_dlist [OF assms(1,4,2,3)] list_splice_dlist [OF assms(1-3)] by simp
qed

theorem list_move_and_splice_witness:
  "dlist (list_move_tail 2 5 ex_heap) 5 [6, 2] \<and> dlist (list_splice 1 5 ex_heap) 5 [2, 3, 6]"
  using list_move_and_splice [OF ex_heap_lists(1) ex_heap_lists(2), of 2] by simp

text \<open>
  C20: The loop of \<open>list_for_each_entry_safe\<close> whose body deletes the entry it is called for
  (as the purge of the database does) visits every entry once, ends, and leaves the list empty.
\<close>

theorem list_for_each_safe_deletes_all:
  assumes "dlist h anchor xs" and "length xs < fuel"
  shows "\<exists>h'. list_for_each_safe fuel (\<lambda>h. h) list_del (nxt h anchor) (nxt h (nxt h anchor)) anchor h = Some h' \<and>
    dlist h' anchor []"
proof -
  have "deleting_body (\<lambda>h. h) anchor list_del"
    using list_del_dlist(1) by (auto simp: deleting_body_def)
  from for_each_safe_visits_all [OF this assms]
  have run: "list_for_each_safe fuel (\<lambda>h. h) list_del (nxt h anchor) (nxt h (nxt h anchor)) anchor h = Some (fold list_del xs h)" .
  have "dlist (fold list_del xs h) anchor []" using assms(1)
  proof (induction xs arbitrary: h)
    case Nil
    then show ?case by simp
  next
    case (Cons x xs)
    then show ?case using list_del_dlist(1) [OF Cons.prems, of x] by simp
  qed
  with run show ?thesis by blast
qed

theorem list_for_each_safe_deletes_all_witness:
  "\<exists>h'. list_for_each_safe 3 (\<lambda>h. h) list_del (nxt ex_heap 1) (nxt ex_heap (nxt ex_heap 1)) 1 ex_heap = Some h' \<and>
    dlist h' 1 []"
  using list_for_each_safe_deletes_all [OF ex_heap_lists(1), of 3] by simp

section \<open>Strings\<close>

text \<open>
  C21: On a string without NUL characters \<open>gethash\<close> returns the hash of all its characters and
  its length with the terminator, unless the string is empty: then it reads past the string.
\<close>

theorem gethash_correct:
  assumes "NUL \<notin> set s"
  shows "gethash s = (if s = [] then None else Some (hash_of s, length s + 1))"
  using assms gethash_eq gethash_empty by simp

theorem gethash_correct_witness: "gethash ''a/b'' = Some (hash_of ''a/b'', 4)"
  using gethash_correct [of "''a/b''"] by simp

text \<open>
  C22: \<open>strestr\<close> reports a needle at the end of a longer haystack; it also reports one that is
  followed by a single character, and nothing else.
\<close>

theorem strestr_iff:
  "(\<exists>r. strestr haystack needle = Some (Some r)) \<longleftrightarrow>
     length needle < length haystack \<and> (\<exists>p c. haystack = p @ needle \<or> haystack = p @ needle @ [c])"
proof
  assume "\<exists>r. strestr haystack needle = Some (Some r)"
  then show "length needle < length haystack \<and> (\<exists>p c. haystack = p @ needle \<or> haystack = p @ needle @ [c])"
    using strestr_shape [of haystack needle] by (auto simp: strestr_def split: if_splits)
next
  assume a: "length needle < length haystack \<and> (\<exists>p c. haystack = p @ needle \<or> haystack = p @ needle @ [c])"
  from a consider (e) p where "haystack = p @ needle" | (o) p c where "haystack = p @ needle @ [c]"
    by blast
  then show "\<exists>r. strestr haystack needle = Some (Some r)"
  proof cases
    case e
    then show ?thesis using a strestr_suffix [of needle haystack] by (simp add: suffix_def)
  next
    case o
    then have "drop (length haystack - 1 - length needle) haystack = needle @ [c]" by simp
    moreover have "sublist needle (needle @ [c])" by (simp add: sublist_append_rightI)
    ultimately show ?thesis using a strstr_iff [of "needle @ [c]" needle] by (auto simp: strestr_def)
  qed
qed

section \<open>The header\<close>

text \<open>
  C11: A header written for a module of the table and a size is read back, by any descriptor that
  is at it, as that module and that size, and leaves the descriptor at the data after it.
\<close>

theorem header_roundtrip:
  assumes "clean w" and "at_end w fd" and "0 \<le> fd" and "off_range sz" and "sz \<noteq> -1"
    and "module_of cfg c = Some m" and "unat (ctype m) = c"
  shows "\<exists>w1 hdr. file_write_header fd m sz w = Some (int sizeof_header, w1) \<and>
    data_of w1 fd = data_of w fd @ hdr \<and>
    (\<forall>v rd rest. 0 \<le> rd \<and> clean v \<and> can_read v rd \<and> rest_of v rd = hdr @ rest \<longrightarrow>
       (\<exists>v'. file_read_header_fd cfg rd None 0 v = Some (0, Some c, sz, v') \<and> rest_of v' rd = rest))"
proof -
  let ?h = "new_header m sz"
  let ?hdr = "header_bytes ?h"
  have l: "length (h_id ?h) = 3" "length ?hdr = sizeof_header" by (simp add: new_header_def, rule length_new_header)
  have "c < length (compressors cfg)" "compressors cfg ! c \<noteq> None"
    using assms(6) by (auto simp: module_of_def split: if_splits)
  then have f: "file_compressor cfg ?h = Some (Some c)"
    using assms(7) by (simp add: file_compressor_def find_compressor_def new_header_def Let_def)
  have h: "header_in cfg (?hdr @ rest) = Some (c, sz)" for rest
  proof -
    have "header_of_bytes (take sizeof_header (?hdr @ rest)) = ?h"
      using l header_of_bytes_bytes by simp
    then show ?thesis
      using f l(2) off_of_u64_of_off [OF assms(4)] by (simp add: header_in_def) (simp add: new_header_def)
  qed
  have "\<exists>v'. file_read_header_fd cfg rd None 0 v = Some (0, Some c, sz, v') \<and> rest_of v' rd = rest"
    if a: "0 \<le> rd" "clean v" "can_read v rd" "rest_of v rd = ?hdr @ rest" for v rd rest
  proof -
    have "file_compressor cfg (header_of_bytes (take sizeof_header (rest_of v rd))) \<noteq> None"
      using l header_of_bytes_bytes f a(4) by simp
    then obtain r c' s' v' where v': "file_read_header_fd cfg rd None 0 v = Some (r, c', s', v')"
      using read_header_total [OF a(1), of v cfg None 0] by auto
    from read_header_clean [OF v' a(2,3)] show ?thesis using v' a(4) l(2) h by simp
  qed
  moreover have "file_write_header fd m sz w = Some (int sizeof_header, append_fd fd ?hdr w)"
    using sys_write_appends [OF assms(1,2), of ?hdr] assms(3,5) l(2) by (simp add: file_write_header_def)
  ultimately show ?thesis using append_fd_data [OF assms(2), of ?hdr] by blast
qed

theorem header_roundtrip_witness:
  "\<exists>w1 hdr. file_write_header 4 module_null 7 (ex_fds []) = Some (12, w1) \<and> data_of w1 4 = hdr \<and>
    (\<forall>v rd rest. 0 \<le> rd \<and> clean v \<and> can_read v rd \<and> rest_of v rd = hdr @ rest \<longrightarrow>
       (\<exists>v'. file_read_header_fd ex_cfg rd None 0 v = Some (0, Some 0, 7, v') \<and> rest_of v' rd = rest))"
  using header_roundtrip [of "ex_fds []" 4 7 ex_cfg 0 module_null]
  by (simp add: ex_fds_world ex_module off_range_def module_null_def)

text \<open>
  C12: The type byte of a header is looked up inside the table of five modules, except for type
  5: there the lookup reads past the table.
\<close>

theorem find_compressor_bounds:
  assumes "length (compressors cfg) = 5"
  shows "(find_compressor cfg fh = None \<longleftrightarrow> h_type fh = 5) \<and>
    (\<forall>c. find_compressor cfg fh = Some (Some c) \<longrightarrow>
       c = unat (h_type fh) \<and> c < 5 \<and> compressors cfg ! c \<noteq> None)"
  using find_compressor_5 [OF assms] find_compressor_Some [of cfg fh] assms by auto

theorem find_compressor_bounds_witness:
  "find_compressor ex_cfg \<lparr>h_id = magic, h_type = 5, h_size = 0\<rparr> = None"
  using find_compressor_bounds [of ex_cfg "\<lparr>h_id = magic, h_type = 5, h_size = 0\<rparr>"]
  by (simp add: ex_cfg_def)

text \<open>
  C13: Creating a temporary file ends, whatever the environment does. It fails, or returns a
  new name with the prefix of temporary files, open for writing at the end of an empty file; no
  existing file changes.
\<close>

theorem file_create_temp_fresh:
  assumes "world_ok w"
  shows "\<exists>temp fd w'. file_create_temp w = ((temp, fd), w') \<and> world_ok w' \<and>
    (\<forall>p bs. contents w p = Some bs \<longrightarrow> contents w' p = Some bs) \<and>
    (case temp of
       None \<Rightarrow> fd = -1
     | Some t \<Rightarrow> (\<exists>x. t = TEMP @ x \<and> length x = 6) \<and> contents w t = None \<and>
         contents w' t = Some [] \<and> at_end w' fd \<and> data_of w' fd = [])"
proof -
  obtain temp fd w' where c: "file_create_temp w = ((temp, fd), w')" by (metis prod.collapse)
  have q: "quiet {} w w'" and t: "temp = None \<and> fd = -1 \<or> (\<exists>t. temp = Some t \<and> fresh_temp w t fd w')"
    by (rule quiet_create_temp [OF c assms])+
  have kept: "\<forall>p bs. contents w p = Some bs \<longrightarrow> contents w' p = Some bs"
    using quiet_contents [OF q assms] by blast
  have new: "(\<exists>x. t = TEMP @ x \<and> length x = 6) \<and> contents w t = None \<and>
      contents w' t = Some [] \<and> at_end w' fd \<and> data_of w' fd = []" if f: "fresh_temp w t fd w'" for t
  proof -
    have "contents w t = None" using f fresh_temp_unnamed by (simp add: fresh_temp_def)
    moreover have "names w' t = ino_of w' fd"
      using f by (auto simp: fresh_temp_def opened_def ino_of_def fd_ofile_def)
    ultimately show ?thesis using f contents_fd [of w' t fd] by (auto simp: fresh_temp_def)
  qed
  show ?thesis using c kept t new quietD(1) [OF q] by (intro exI [of _ temp] exI [of _ fd] exI [of _ w']) auto
qed

theorem file_create_temp_fresh_witness:
  "\<exists>temp fd w'. file_create_temp (ex_world [1]) = ((temp, fd), w') \<and> contents w' ''f'' = Some [1]"
  using file_create_temp_fresh [OF ex_world_ok, of "[1]"] ex_contents [of "[1]"] by blast

section \<open>The LZO stream\<close>

text \<open>
  C14: Whatever is written in whatever pieces to an LZO stream, once the stream is closed the
  file has grown by bytes that decode to exactly the bytes written.
\<close>

theorem lzo_write_decode:
  assumes "clean w" and "at_end w fd" and "lzo_lib_ok lib" and "CHR ''r'' \<notin> set mode"
  shows "\<exists>f' w' w'' enc. lzowrite_all lib (lzodopen fd mode) bufs w = Some (f', w') \<and>
    lzoclose lib f' w' = Some (sys_close fd w'') \<and>
    data_of w'' fd = data_of w fd @ enc \<and> lzo_decode lib 0 enc = Some (concat bufs)"
proof -
  obtain f' w' stored where f': "lzowrite_all lib (lzodopen fd mode) bufs w = Some (f', w')"
    "lzoclose lib f' w' = Some (sys_close fd (emit lib fd stored w))"
    "lzo_decode lib 0 (stream lib stored) = Some (concat bufs)"
    using lzo_written_decodes [OF assms] by blast
  then show ?thesis using emit_data [OF assms(2), of lib stored] by blast
qed

theorem lzo_write_decode_witness:
  "\<exists>f' w' w'' enc. lzowrite_all ex_lib (lzodopen 4 ''wb6'') [[1, 2], [], [3]] (ex_fds []) = Some (f', w') \<and>
    lzoclose ex_lib f' w' = Some (sys_close 4 w'') \<and>
    data_of w'' 4 = enc \<and> lzo_decode ex_lib 0 enc = Some [1, 2, 3]"
  using lzo_write_decode [of "ex_fds []" 4 ex_lib "''wb6''" "[[1, 2], [], [3]]"] ex_lib_ok
  by (simp add: ex_fds_world)

text \<open>
  C15: Reading from an LZO stream returns, on any bytes and with any failures, and keeps the
  reader's invariant. What it delivers is what the stream decodes to, in order: \<open>n\<close> bytes, or
  fewer at the end of the stream. Nothing is delivered with an error.
\<close>

theorem lzoread_correct:
  assumes "reader_ok f"
  shows "\<exists>r bs f' w'. lzoread lib f n w = Some ((r, bs, f'), w') \<and> reader_ok f' \<and>
    (r = -1 \<and> bs = [] \<or>
     r = int (length bs) \<and>
     (if length bs = n then remaining lib f w = map_option ((@) bs) (remaining lib f' w')
      else length bs < n \<and> remaining lib f w = Some bs \<and> (bs \<noteq> [] \<longrightarrow> remaining lib f' w' = Some []))) \<and>
    (clean w \<and> can_read w (lfd f) \<and> remaining lib f w \<noteq> None \<longrightarrow> r \<noteq> -1)"
proof -
  obtain r bs f' w' where run: "lzoread lib f n w = Some ((r, bs, f'), w')"
    using lzoread_terminates [OF assms, of lib n w] by auto
  then show ?thesis
    using lzoread_spec [OF run assms] lzoread_clean [OF run assms]
    by (intro exI [of _ r] exI [of _ bs] exI [of _ f'] exI [of _ w']) auto
qed

theorem lzoread_correct_witness:
  "\<exists>r bs f' w'. lzoread ex_lib (lzodopen 3 ''rb'') 4 (ex_fds [1, 2, 3]) = Some ((r, bs, f'), w') \<and> reader_ok f'"
  using lzoread_correct [OF reader_ok_open, of "''rb''" ex_lib 3 4 "ex_fds [1, 2, 3]"] by auto

section \<open>The modules\<close>

text \<open>
  C9: Decompressing with the LZO module returns, on any bytes and with any failures. Unless it
  fails, the size it returns is at most that of the decoded stream, and if it is that size the
  destination has grown by the decoded bytes; without failures a stream that decodes is
  decompressed completely.
\<close>

theorem lzoDecompress_correct:
  assumes "world_ok w" and "at_end w dst" and "separate w src dst"
  shows "\<exists>r w'. lzoDecompress lib src dst w = Some (r, w') \<and>
    (r = FAIL \<or>
     (\<exists>out. lzo_decode lib 0 (rest_of w src) = Some out \<and> 0 \<le> r \<and> r \<le> int (length out) \<and>
        (r = int (length out) \<longrightarrow> data_of w' dst = data_of w dst @ out))) \<and>
    (\<forall>out. clean w \<and> can_read w src \<and> lzo_decode lib 0 (rest_of w src) = Some out \<longrightarrow>
       r = int (length out))"
proof -
  obtain r w' where run: "lzoDecompress lib src dst w = Some (r, w')"
    using lzo_codec.dec_total [OF assms, where lib = lib] by blast
  then show ?thesis
    using lzo_codec.dec_result [OF assms run] lzo_codec.dec_clean [OF assms run] by blast
qed

theorem lzoDecompress_correct_witness:
  "\<exists>r w'. lzoDecompress ex_lib 3 4 (ex_fds [9]) = Some (r, w')"
  using lzoDecompress_correct [of "ex_fds [9]" 4 3 ex_lib] ex_fds_world by blast

text \<open>
  C10: Compressing with the LZO module returns, with any failures. Without failures, and if
  nobody asks it to stop, it consumes the whole source and the destination has grown by bytes
  that decode to it.
\<close>

theorem lzoCompress_correct:
  assumes "world_ok w" and "at_end w dst" and "separate w src dst"
    and "lzo_lib_ok lib" and "CHR ''r'' \<notin> set level"
  shows "\<exists>r f' w'. lzoCompress lib level f src dst w = Some (r, f', w') \<and> may_cancel f f' \<and>
    (clean w \<and> can_read w src \<longrightarrow>
       CANCEL \<in> status f' \<or>
       r = int (length (rest_of w src)) \<and>
       (\<exists>enc. data_of w' dst = data_of w dst @ enc \<and> lzo_decode lib 0 enc = Some (rest_of w src)))"
proof -
  have ready: "lzo_lib_ok lib \<and> CHR ''r'' \<notin> set level" using assms(4,5) by simp
  obtain r f' w' where run: "lzoCompress lib level f src dst w = Some (r, f', w')" "may_cancel f f'"
    using lzo_codec.comp_total [OF ready assms(1-3), of f] by blast
  then show ?thesis using lzo_codec.comp_clean [OF ready assms(1-3) run(1)] by blast
qed

theorem lzoCompress_correct_witness:
  "\<exists>r f' w'. lzoCompress ex_lib ''wb6'' ex_file 3 4 (ex_fds [5, 6]) = Some (r, f', w') \<and>
    (CANCEL \<in> status f' \<or> r = 2 \<and> lzo_decode ex_lib 0 (data_of w' 4) = Some [5, 6])"
  using lzoCompress_correct [of "ex_fds [5, 6]" 4 3 ex_lib "''wb6''" ex_file] ex_lib_ok
  by (auto simp: ex_fds_world)

text \<open>
  The null module copies: compressing and decompressing return with any failures, and
  without failures the destination grows by the bytes of the source, unless compression is
  told to stop.
\<close>

theorem null_module_copies:
  assumes "world_ok w" and "at_end w dst" and "separate w src dst"
  shows "\<exists>r f' w1 r2 w2. nullCompress f src dst w = Some (r, f', w1) \<and> nullDecompress src dst w = Some (r2, w2) \<and>
    (clean w \<and> can_read w src \<longrightarrow>
       (CANCEL \<in> status f' \<or>
        r = int (length (rest_of w src)) \<and> data_of w1 dst = data_of w dst @ rest_of w src) \<and>
       r2 = int (length (rest_of w src)) \<and> data_of w2 dst = data_of w dst @ rest_of w src)"
proof -
  obtain r f' w1 where c: "nullCompress f src dst w = Some (r, f', w1)"
    using null_codec.comp_total [OF TrueI assms] by blast
  obtain r2 w2 where d: "nullDecompress src dst w = Some (r2, w2)"
    using null_codec.dec_total [OF assms] by blast
  show ?thesis
    using c d null_codec.comp_clean [OF TrueI assms c] null_codec.dec_clean [OF assms d]
      null_codec.dec_result [OF assms d] by auto
qed

theorem null_module_copies_witness:
  "\<exists>r2 w2. nullDecompress 3 4 (ex_fds [7, 8]) = Some (r2, w2) \<and> r2 = 2 \<and> data_of w2 4 = [7, 8]"
  using null_module_copies [of "ex_fds [7, 8]" 4 3 ex_file] by (auto simp: ex_fds_world)

end
