(* ===== verification/CompressProps.thy ===== *)
theory CompressProps
  imports Examples
begin

text \<open>
  The properties of \<open>do_compress\<close> and \<open>do_decompress\<close> (\<^verbatim>\<open>compress.c\<close>): nothing is lost
  whatever fails, as far as the modules notice; what is compressed decompresses; and what
  happens when the null module does not notice.
\<close>

text \<open>
  C1: The backing file survives a round trip. Without failures, compressing leaves the file as it
  was or in a form such that, later and in any state of the world, decompressing it either gives
  back exactly the bytes it had or leaves the compressed form; and it does give them back if
  nothing fails and there is room.
\<close>

theorem compress_decompress_roundtrip:
  assumes "table_ok cfg decode" and "default_ok cfg" and "world_ok w" and "clean w"
    and "contents w (filename f) = Some bs" and "readable_header cfg bs" and "int (length bs) < 2 ^ 63"
    and "dedup_enabled cfg \<Longrightarrow> name_ok (filename f)"
  shows "\<exists>f' db' w'. do_compress cfg f db w = Some (f', db', w') \<and>
    (contents w' (filename f) = Some bs \<or>
     (\<exists>c. fcompressor f' = Some c \<and>
        (\<forall>g v. contents v (filename f) = contents w' (filename f) \<and> filename g = filename f \<and>
            (fcompressor g = None \<or> fcompressor g = Some c) \<and> plain_fds g v \<and> world_ok v \<longrightarrow>
          (\<exists>ok g' v'. do_decompress cfg g v = Some (ok, g', v') \<and>
             (contents v' (filename f) = contents v (filename f) \<or> contents v' (filename f) = Some bs) \<and>
             (clean v \<and> temp_ready v \<and> \<not> no_space (fsize g) v \<longrightarrow>
                ok \<and> contents v' (filename f) = Some bs)))))"
proof -
  obtain f' db' w' where c: "do_compress cfg f db w = Some (f', db', w')"
    and r: "compress_result cfg decode w w' f f' bs"
    using do_compress_spec [OF assms(1-3,5,6,8), of db] by blast
  show ?thesis
  proof (cases "contents w' (filename f) = Some bs")
    case True
    then show ?thesis using c by blast
  next
    case False
    then obtain cc new where new: "contents w' (filename f) = Some new" "fcompressor f' = Some cc"
      "compressed_form cfg decode cc bs new"
      using r assms(4,7) by (auto simp: compress_result_def)
    then have form: "header_in cfg new = Some (cc, int (length bs))" "decode cc (drop sizeof_header new) = Some bs"
      by (simp_all add: compressed_form_def)
    have "\<exists>ok g' v'. do_decompress cfg g v = Some (ok, g', v') \<and>
        (contents v' (filename f) = contents v (filename f) \<or> contents v' (filename f) = Some bs) \<and>
        (clean v \<and> temp_ready v \<and> \<not> no_space (fsize g) v \<longrightarrow> ok \<and> contents v' (filename f) = Some bs)"
      if g: "contents v (filename f) = contents w' (filename f)" "filename g = filename f"
        "fcompressor g = None \<or> fcompressor g = Some cc" "plain_fds g v" "world_ok v" for g v
    proof -
      have n: "contents v (filename g) = Some new" using g(1,2) new(1) by simp
      show ?thesis
        using do_decompress_spec [OF assms(1) g(5) n form(1,2) g(3,4)] n g(2) by auto
    qed
    then show ?thesis using c new(2) by blast
  qed
qed

theorem compress_decompress_roundtrip_witness:
  "\<exists>f' db' w'. do_compress ex_cfg ex_file dedup_init_db (ex_world [1, 2, 3, 4, 5]) = Some (f', db', w') \<and>
     (contents w' ''f'' = Some [1, 2, 3, 4, 5] \<or> (\<exists>c. fcompressor f' = Some c))"
  using compress_decompress_roundtrip [OF ex_table_ok ex_default_ok ex_world_ok ex_world_clean,
      where f = ex_file and bs = "[1, 2, 3, 4, 5]" and db = dedup_init_db]
  by (fastforce simp: ex_file_def ex_contents readable_header_def ex_no_dedup)



text \<open>
  C3: Decompression is all or nothing. Whatever fails, \<open>do_decompress\<close> returns; no other file
  changes; the file holds its old bytes or the decoded ones; and success means the decoded ones,
  except that a header that cannot be read completely is taken for an uncompressed file.
\<close>

theorem do_decompress_all_or_nothing:
  assumes "table_ok cfg decode" and "world_ok w" and "contents w (filename f) = Some bs"
    and "header_in cfg bs = Some (c, int (length out))" and "decode c (drop sizeof_header bs) = Some out"
    and "fcompressor f = None \<or> fcompressor f = Some c" and "plain_fds f w"
  shows "\<exists>ok f' w'. do_decompress cfg f w = Some (ok, f', w') \<and>
    (\<forall>p b. p \<noteq> filename f \<longrightarrow> contents w p = Some b \<longrightarrow> contents w' p = Some b) \<and>
    (contents w' (filename f) = Some bs \<or> contents w' (filename f) = Some out) \<and>
    (ok \<longrightarrow> fcompressor f' = None \<and>
       (contents w' (filename f) = Some out \<and> fsize f' = int (length out) \<or>
        contents w' (filename f) = Some bs \<and> fsize f' = -1)) \<and>
    (clean w \<and> temp_ready w \<and> \<not> no_space (fsize f) w \<longrightarrow> ok \<and> contents w' (filename f) = Some out)"
proof -
  obtain ok f' w' where d: "do_decompress cfg f w = Some (ok, f', w')"
    and o: "others w w' (filename f)"
    and r: "contents w' (filename f) = Some bs \<or> contents w' (filename f) = Some out"
    and s: "ok \<longrightarrow> fcompressor f' = None \<and>
       (contents w' (filename f) = Some out \<and> fsize f' = int (length out) \<or>
        contents w' (filename f) = Some bs \<and> fsize f' = -1)"
    and t: "clean w \<and> temp_ready w \<and> \<not> no_space (fsize f) w \<longrightarrow> ok \<and> contents w' (filename f) = Some out"
    using do_decompress_spec [OF assms] by (elim exE conjE)
  from o have "\<forall>p b. p \<noteq> filename f \<longrightarrow> contents w p = Some b \<longrightarrow> contents w' p = Some b"
    by (simp add: others_def)
  with d r s t show ?thesis by (intro exI [of _ ok] exI [of _ f'] exI [of _ w'] conjI) assumption+
qed

definition ex_compressed :: "byte list" where
  "ex_compressed = header_bytes (new_header module_null 2) @ [8, 9]"

lemma ex_compressed_form:
  "header_in ex_cfg ex_compressed = Some (0, int (length [8 :: byte, 9]))"
  "ex_decode 0 (drop sizeof_header ex_compressed) = Some [8, 9]"
  using header_in_new [OF ex_table_ok, of 0 module_null "[8, 9]" "[8, 9]"] length_new_header [of module_null 2]
  by (simp_all add: ex_module ex_compressed_def ex_decode_def)

theorem do_decompress_all_or_nothing_witness:
  "\<exists>f' w'. do_decompress ex_cfg (ex_file\<lparr>fsize := 2\<rparr>) (ex_world ex_compressed) = Some (True, f', w') \<and>
     contents w' ''f'' = Some [8, 9]"
proof -
  note h = ex_compressed_form(1) and d = ex_compressed_form(2)
  have f: "filename (ex_file\<lparr>fsize := 2\<rparr>) = ''f''" "fcompressor (ex_file\<lparr>fsize := 2\<rparr>) = None"
    "plain_fds (ex_file\<lparr>fsize := 2\<rparr>) (ex_world ex_compressed)"
    by (simp_all add: ex_file_def plain_fds_def)
  have n: "\<not> no_space (fsize (ex_file\<lparr>fsize := 2\<rparr>)) (ex_world ex_compressed)"
    by (simp add: no_space_def ex_world_def u64_of_off_def)
  show ?thesis
    using do_decompress_all_or_nothing [OF ex_table_ok ex_world_ok [of ex_compressed] _ h d,
        where f = "ex_file\<lparr>fsize := 2\<rparr>"]
      f n ex_contents [of ex_compressed] ex_temp_ready [of ex_compressed] ex_world_clean [of ex_compressed]
    by auto
qed


section \<open>What a user sees\<close>








end
