(* ===== verification/DedupSave.thy ===== *)
theory DedupSave
  imports DedupDb Copying
begin

text \<open>
  The database on disk (\<^verbatim>\<open>dedup_save\<close>, \<^verbatim>\<open>dedup_load\<close> of \<^verbatim>\<open>dedup.c\<close>): a magic string, a
  version, and for every entry the length of its name, the name and the MD5 sum.

  \<open>stdio\<close> streams are modelled as unbuffered: a \<open>fread\<close> reads until it has what it was
  asked for, the end of the file or an error, and a \<open>fwrite\<close> or \<open>fputs\<close> is one write. The
  source compares the results of \<open>fwrite\<close>, which are counts, with EOF, so an error there
  is never seen; one of \<open>fputs\<close> is.
\<close>

section \<open>stdio\<close>

function fread :: "int \<Rightarrow> nat \<Rightarrow> world \<Rightarrow> byte list \<times> world" where
  "fread fd n w =
     (let ((r, bs), w1) = sys_read fd n w
      in if bs = [] \<or> length bs \<ge> n then (bs, w1)
         else (let (more_bs, w2) = fread fd (n - length bs) w1 in (bs @ more_bs, w2)))"
  by pat_completeness auto
termination
  by (relation "measure (\<lambda>(fd, n, w). n)") auto

declare fread.simps [simp del]

definition fwrite :: "int \<Rightarrow> byte list \<Rightarrow> world \<Rightarrow> world" where
  "fwrite fd bs w = snd (sys_write fd bs w)"

definition fputs :: "int \<Rightarrow> byte list \<Rightarrow> world \<Rightarrow> bool \<times> world" where
  "fputs fd bs w = (let (r, w1) = sys_write fd bs w in (r = int (length bs), w1))"

definition bytes_of :: "string \<Rightarrow> byte list" where
  "bytes_of s = map of_char s"

definition chars_of :: "byte list \<Rightarrow> string" where
  "chars_of bs = map (\<lambda>b. char_of (unat b)) bs"

lemma chars_of_bytes_of [simp]: "chars_of (bytes_of s) = s"
proof -
  have "char_of (unat (of_char c :: byte)) = c" for c
  proof -
    have "(of_char c :: byte) = of_nat (of_char c)" by (simp only: of_nat_of_char)
    then have "unat (of_char c :: byte) = of_char c"
      by (simp only: unat_of_nat) (simp add: mod_less)
    then show ?thesis by simp
  qed
  then show ?thesis by (simp add: chars_of_def bytes_of_def comp_def)
qed

section \<open>dedup_save\<close>

abbreviation DEDUP_DB_FILE :: string where
  "DEDUP_DB_FILE \<equiv> FUSECOMPRESS_PREFIX @ ''dedup_db''"

abbreviation DEDUP_VERSION :: nat where
  "DEDUP_VERSION \<equiv> 2"

definition dedup_db_write_header :: "int \<Rightarrow> world \<Rightarrow> world" where
  "dedup_db_write_header fd w = fwrite fd (le_bytes 2 DEDUP_VERSION) (fwrite fd (bytes_of ''DEDUP'') w)"

text \<open>The flag says that the entry was written, for all the caller can tell.\<close>

definition dedup_db_write_entry :: "int \<Rightarrow> string \<Rightarrow> byte list \<Rightarrow> world \<Rightarrow> bool \<times> world" where
  "dedup_db_write_entry fd fn md5 w =
     (let w1 = fwrite fd (le_bytes 4 (length fn)) w;
          (ok, w2) = fputs fd (bytes_of fn) w1
      in if \<not> ok then (False, w2) else (True, fwrite fd md5 w2))"

fun write_entries :: "int \<Rightarrow> dedup_t list \<Rightarrow> world \<Rightarrow> bool \<times> world" where
  "write_entries fd [] w = (True, w)"
| "write_entries fd (dp # rest) w =
     (let (ok, w1) = dedup_db_write_entry fd (dp_filename dp) (dp_md5 dp) w
      in if ok then write_entries fd rest w1 else (False, w1))"

definition entries_in_order :: "dedup_db \<Rightarrow> dedup_t list" where
  "entries_in_order db =
     concat (map (\<lambda>b. map (\<lambda>i. the (dps db i)) (head_filename db (of_nat b))) [0..<65536])"

definition dedup_save :: "dedup_db \<Rightarrow> world \<Rightarrow> world" where
  "dedup_save db w =
     (let (fd, w1) = sys_open DEDUP_DB_FILE {O_WRONLY, O_CREAT, O_TRUNC} 438 w
      in if fd = -1 then w1
         else
           (let w2 = dedup_db_write_header fd w1;
                (ok, w3) = write_entries fd (entries_in_order db) w2;
                w4 = snd (sys_close fd w3)
            in if ok then w4 else snd (sys_unlink DEDUP_DB_FILE w4)))"

section \<open>dedup_load\<close>

text \<open>
  The buffer for the name has \<open>filename_length + 1\<close> bytes, computed in 32 bits: for the
  largest length it would be empty, and the read that follows would overrun it (\<open>None\<close>).
  A name with a NUL in it is a shorter string in a longer buffer, and the hash is computed
  on the buffer.
\<close>

partial_function (option) load_entries ::
  "config \<Rightarrow> int \<Rightarrow> dedup_db \<Rightarrow> world \<Rightarrow> ((bool \<times> dedup_db) \<times> world) option" where
  [code]: "load_entries cfg fd db w =
     (let (lenb, w1) = fread fd 4 w
      in if length lenb \<noteq> 4 then Some ((True, db), w1)
         else if le_val lenb = 2 ^ 32 - 1 then None
         else
           (let (nm, w2) = fread fd (le_val lenb) w1
            in if length nm \<noteq> le_val lenb then Some ((False, db), w2)
               else
                 (let (md5, w3) = fread fd 16 w2;
                      buf = chars_of nm;
                      fn = takeWhile (\<lambda>c. c \<noteq> NUL) buf
                  in if length md5 \<noteq> 16 then Some ((False, db), w3)
                     else if is_excluded cfg fn then load_entries cfg fd db w3
                     else do {
                       (h, _) \<leftarrow> gethash_loop 0 0 (buf @ [NUL]);
                       load_entries cfg fd
                         (new_dp \<lparr>dp_filename = fn, dp_filename_hash = h, dp_md5 = md5\<rparr> db) w3
                     })))"

text \<open>Entries read before an error stay in the database; the file is removed in any case.\<close>

definition dedup_load :: "config \<Rightarrow> path \<Rightarrow> world \<Rightarrow> (dedup_db \<times> world) option" where
  "dedup_load cfg fn w =
     (let (fd, w1) = sys_open fn {} 0 w
      in if fd = -1 then Some (dedup_init_db, w1)
         else
           (let finish = (\<lambda>w. snd (sys_unlink fn (snd (sys_close fd w))));
                (hdr, w2) = fread fd 5 w1
            in if length hdr \<noteq> 5 \<or> hdr \<noteq> bytes_of ''DEDUP'' then Some (dedup_init_db, finish w2)
               else
                 (let (ver, w3) = fread fd 2 w2
                  in if length ver \<noteq> 2 \<or> le_val ver \<noteq> DEDUP_VERSION then Some (dedup_init_db, finish w3)
                     else do {
                       ((_, db), w4) \<leftarrow> load_entries cfg fd dedup_init_db w3;
                       Some (db, finish w4)
                     })))"

section \<open>What the file holds\<close>

definition entry_bytes :: "dedup_t \<Rightarrow> byte list" where
  "entry_bytes dp = le_bytes 4 (length (dp_filename dp)) @ bytes_of (dp_filename dp) @ dp_md5 dp"

definition db_bytes :: "dedup_t list \<Rightarrow> byte list" where
  "db_bytes es = bytes_of ''DEDUP'' @ le_bytes 2 DEDUP_VERSION @ concat (map entry_bytes es)"

lemma distinct_concat_map:
  assumes "distinct xs" and "\<And>x. distinct (f x)"
    and "\<And>x y. x \<in> set xs \<Longrightarrow> y \<in> set xs \<Longrightarrow> x \<noteq> y \<Longrightarrow> set (f x) \<inter> set (f y) = {}"
  shows "distinct (concat (map f xs))"
  using assms
proof (induction xs)
  case Nil
  then show ?case by simp
next
  case (Cons x xs)
  have "set (f x) \<inter> set (f y) = {}" if "y \<in> set xs" for y
    using Cons.prems(3) [of x y] Cons.prems(1) that by auto
  then show ?case using Cons by auto
qed

lemma mset_entries_in_order:
  assumes "dedup_ok db"
  shows "mset (map pair_of (entries_in_order db)) = pairs db"
proof -
  let ?ids = "concat (map (\<lambda>b. head_filename db (of_nat b)) [0..<65536])"
  have e: "entries_in_order db = map (\<lambda>i. the (dps db i)) ?ids"
    by (simp add: entries_in_order_def map_concat comp_def)
  have b: "\<exists>b < 65536. (of_nat b :: u16) = x" for x :: u16
    by (rule exI [of _ "unat x"]) (use unsigned_less [of x] in simp)
  have "i \<in> set ?ids \<longleftrightarrow> i \<in> dom (dps db)" for i
  proof
    assume "i \<in> set ?ids"
    then show "i \<in> dom (dps db)" using dedup_okD(3) [OF assms] by auto
  next
    assume "i \<in> dom (dps db)"
    then obtain dp where dp: "dps db i = Some dp" by auto
    obtain b where b: "b < 65536" "(of_nat b :: u16) = name_bucket (dp_filename_hash dp)" using b by blast
    have "i \<in> set (head_filename db (of_nat b))" using dp b dedup_okD(3) [OF assms] by auto
    then show "i \<in> set ?ids" using b(1) by auto
  qed
  then have s: "set ?ids = dom (dps db)" by blast
  have "distinct ?ids"
  proof (rule distinct_concat_map)
    show "distinct (head_filename db (of_nat b))" for b by (rule dedup_okD(1) [OF assms])
    show "set (head_filename db (of_nat b)) \<inter> set (head_filename db (of_nat c)) = {}"
      if "b \<in> set [0..<65536]" "c \<in> set [0..<65536]" "b \<noteq> c" for b c
    proof -
      have "(of_nat b :: u16) \<noteq> of_nat c"
        using that by (simp add: word_unat_eq_iff unat_of_nat)
      then show ?thesis using dedup_okD(3) [OF assms] by fastforce
    qed
  qed simp
  then have m: "mset ?ids = mset_set (dom (dps db))"
    using s by (metis mset_set_set)
  have "mset (map pair_of (entries_in_order db)) = image_mset (\<lambda>i. pair_of (the (dps db i))) (mset ?ids)"
    unfolding e by (simp add: comp_def image_mset.compositionality)
  then show ?thesis using m by (simp add: pairs_def)
qed

section \<open>Saving without faults\<close>

lemma fread_clean:
  assumes "clean w" and "can_read w fd"
  shows "\<exists>w'. fread fd n w = (take n (rest_of w fd), w') \<and> clean w' \<and> can_read w' fd \<and>
    rest_of w' fd = drop n (rest_of w fd) \<and> repositioned fd w w'"
  using assms
proof (induction n arbitrary: w rule: less_induct)
  case (less n)
  obtain r bs w1 where rd: "sys_read fd n w = ((r, bs), w1)" by (metis prod.collapse)
  note c = sys_read_clean [OF rd less(2,3)]
  note rep = sys_read_rest(1) [OF rd]
  show ?case
  proof (cases "bs = [] \<or> length bs \<ge> n")
    case True
    then show ?thesis using rd c rep by (subst fread.simps) auto
  next
    case False
    then have "n - length bs < n" by (cases bs) auto
    from less(1) [OF this c(3,5)] obtain w' where
      l: "fread fd (n - length bs) w1 = (take (n - length bs) (rest_of w1 fd), w')" "clean w'" "can_read w' fd"
        "rest_of w' fd = drop (n - length bs) (rest_of w1 fd)" "repositioned fd w1 w'" by blast
    have short: "rest_of w1 fd = []" "bs = rest_of w fd" using False c(1,4) by auto
    have "fread fd n w = (bs @ take (n - length bs) (rest_of w1 fd), w')"
      using rd False l(1) by (subst fread.simps) simp
    then show ?thesis
      using l short False repositioned_trans [OF rep l(5)] by (intro exI [of _ w']) auto
  qed
qed

lemma fwrite_clean: "clean w \<Longrightarrow> at_end w fd \<Longrightarrow> fwrite fd bs w = append_fd fd bs w"
  by (simp add: fwrite_def sys_write_appends)

lemma fputs_clean: "clean w \<Longrightarrow> at_end w fd \<Longrightarrow> fputs fd bs w = (True, append_fd fd bs w)"
  by (simp add: fputs_def sys_write_appends)

lemma length_bytes_of [simp]: "length (bytes_of s) = length s"
  by (simp add: bytes_of_def)

lemma append_fd_nil: "at_end w fd \<Longrightarrow> data_of (append_fd fd [] w) fd = data_of w fd"
  by (simp add: append_fd_data)

lemma write_entries_clean:
  assumes "clean w" and "at_end w fd"
  shows "\<exists>w'. write_entries fd es w = (True, w') \<and> clean w' \<and> at_end w' fd \<and>
    data_of w' fd = data_of w fd @ concat (map entry_bytes es) \<and> names w' = names w \<and> fdtab w' = fdtab w \<and>
    ino_of w' fd = ino_of w fd"
  using assms
proof (induction es arbitrary: w)
  case Nil
  then show ?case by simp
next
  case (Cons dp es)
  let ?w1 = "append_fd fd (entry_bytes dp) w"
  have e: "dedup_db_write_entry fd (dp_filename dp) (dp_md5 dp) w = (True, ?w1)"
    using Cons.prems
    by (simp add: dedup_db_write_entry_def Let_def fwrite_clean fputs_clean append_fd_append entry_bytes_def)
  have i: "ino_of ?w1 fd = ino_of w fd"
    using Cons.prems(2)
    by (auto simp: ino_of_def append_fd_def fd_ofile_def set_ofile_def set_inode_def split: option.splits)
  obtain w' where "write_entries fd es ?w1 = (True, w')" "clean w'" "at_end w' fd"
    "data_of w' fd = data_of ?w1 fd @ concat (map entry_bytes es)" "names w' = names ?w1" "fdtab w' = fdtab ?w1"
    "ino_of w' fd = ino_of ?w1 fd"
    using Cons.IH [of ?w1] Cons.prems by auto
  then show ?case using e i append_fd_data [OF Cons.prems(2), of "entry_bytes dp"] by auto
qed

text \<open>Creating or truncating a file.\<close>

lemma sys_open_create:
  assumes "clean w" and "world_ok w" and "sys_open p {O_WRONLY, O_CREAT, O_TRUNC} m w = (fd, w1)"
  shows "fd \<noteq> -1 \<and> clean w1 \<and> at_end w1 fd \<and> data_of w1 fd = [] \<and> names w1 p = ino_of w1 fd \<and> ino_of w1 fd \<noteq> None"
proof (cases "names w p")
  case None
  then show ?thesis
    using assms(1,3)
    by (auto simp: sys_open_def syscall_clean Let_def new_inode_def new_fd_def at_end_def data_of_def
        fd_ofile_def fd_inode_def ino_of_def writable_def)
next
  case (Some n)
  then obtain i where "inodes w n = Some i" using world_ok_names [OF assms(2)] by blast
  then show ?thesis
    using assms(1,3) Some
    by (auto simp: sys_open_def syscall_clean Let_def new_fd_def at_end_def data_of_def
        fd_ofile_def fd_inode_def ino_of_def writable_def)
qed

lemma dedup_save_clean:
  assumes "clean w" and "world_ok w"
  shows "contents (dedup_save db w) DEDUP_DB_FILE = Some (db_bytes (entries_in_order db))"
    and "clean (dedup_save db w)"
proof -
  obtain fd w1 where op: "sys_open DEDUP_DB_FILE {O_WRONLY, O_CREAT, O_TRUNC} 438 w = (fd, w1)" by fastforce
  note o = sys_open_create [OF assms op]
  let ?w2 = "append_fd fd (bytes_of ''DEDUP'' @ le_bytes 2 DEDUP_VERSION) w1"
  have h: "dedup_db_write_header fd w1 = ?w2"
    using o by (simp add: dedup_db_write_header_def fwrite_clean append_fd_append)
  have i2: "ino_of ?w2 fd = ino_of w1 fd"
    using o by (auto simp: ino_of_def append_fd_def fd_ofile_def set_ofile_def set_inode_def split: option.splits)
  obtain w3 where e: "write_entries fd (entries_in_order db) ?w2 = (True, w3)" "clean w3" "at_end w3 fd"
    "data_of w3 fd = data_of ?w2 fd @ concat (map entry_bytes (entries_in_order db))" "names w3 = names ?w2"
    "ino_of w3 fd = ino_of ?w2 fd"
    using write_entries_clean [of ?w2 fd "entries_in_order db"] o by auto
  obtain c w4 where cl: "sys_close fd w3 = (c, w4)" by fastforce
  have save: "dedup_save db w = w4"
    using op o h e(1) cl by (simp add: dedup_save_def Let_def)
  have "contents w3 DEDUP_DB_FILE = Some (data_of w3 fd)"
    by (rule contents_fd [OF _ e(3)]) (use e o i2 in simp)
  moreover have "data_of w3 fd = db_bytes (entries_in_order db)"
    using e(4) o append_fd_data [of w1 fd] by (simp add: db_bytes_def)
  moreover have "contents w4 DEDUP_DB_FILE = contents w3 DEDUP_DB_FILE"
    using sys_close_spec [OF cl] by (auto simp: contents_def file_of_def agree_iff)
  ultimately show "contents (dedup_save db w) DEDUP_DB_FILE = Some (db_bytes (entries_in_order db))"
    using save by simp
  show "clean (dedup_save db w)"
    unfolding save using cl e(2) by (auto simp: sys_close_def next_outcome_clean fail_def split: if_splits)
qed

section \<open>Loading what was saved\<close>

text \<open>Entries that fit the format.\<close>

definition savable :: "dedup_t \<Rightarrow> bool" where
  "savable dp \<longleftrightarrow> dp_ok dp \<and> length (dp_filename dp) < 2 ^ 32 - 1 \<and> length (dp_md5 dp) = 16"

lemma load_entries_clean:
  assumes "clean w" and "can_read w fd" and "rest_of w fd = concat (map entry_bytes es)"
    and "\<forall>dp \<in> set es. savable dp" and "dedup_ok db"
  shows "\<exists>db' w'. load_entries cfg fd db w = Some ((True, db'), w') \<and> dedup_ok db' \<and>
    pairs db' = pairs db + filter_mset (\<lambda>p. \<not> is_excluded cfg (fst p)) (mset (map pair_of es)) \<and>
    clean w' \<and> repositioned fd w w'"
  using assms
proof (induction es arbitrary: db w)
  case Nil
  obtain w' where "fread fd 4 w = ([], w')" "clean w'" "repositioned fd w w'"
    using fread_clean [OF Nil(1,2), of 4] Nil(3) by auto
  then show ?case using Nil(5) by (subst load_entries.simps) simp
next
  case (Cons dp es)
  let ?n = "length (dp_filename dp)"
  have sv: "savable dp" using Cons.prems(4) by simp
  have rest: "rest_of w fd = le_bytes 4 ?n @ bytes_of (dp_filename dp) @ dp_md5 dp @ concat (map entry_bytes es)"
    using Cons.prems(3) by (simp add: entry_bytes_def [of dp])
  obtain w1 where 1: "fread fd 4 w = (le_bytes 4 ?n, w1)" "clean w1" "can_read w1 fd"
    "rest_of w1 fd = bytes_of (dp_filename dp) @ dp_md5 dp @ concat (map entry_bytes es)" "repositioned fd w w1"
    using fread_clean [OF Cons.prems(1,2), of 4] rest by auto
  have len: "le_val (le_bytes 4 ?n) = ?n"
    using sv by (simp add: le_val_bytes savable_def)
  obtain w2 where 2: "fread fd ?n w1 = (bytes_of (dp_filename dp), w2)" "clean w2" "can_read w2 fd"
    "rest_of w2 fd = dp_md5 dp @ concat (map entry_bytes es)" "repositioned fd w1 w2"
    using fread_clean [OF 1(2,3), of ?n] 1(4) by auto
  obtain w3 where 3: "fread fd 16 w2 = (dp_md5 dp, w3)" "clean w3" "can_read w3 fd"
    "rest_of w3 fd = concat (map entry_bytes es)" "repositioned fd w2 w3"
    using fread_clean [OF 2(2,3), of 16] 2(4) sv by (auto simp: savable_def)
  have rep: "repositioned fd w w3"
    by (rule repositioned_trans [OF repositioned_trans [OF 1(5) 2(5)] 3(5)])
  have nul: "NUL \<notin> set (dp_filename dp)" and ne: "dp_filename dp \<noteq> []"
    using sv by (simp_all add: savable_def dp_ok_def name_ok_def)
  then have tw: "takeWhile (\<lambda>c. c \<noteq> NUL) (dp_filename dp) = dp_filename dp"
    by (auto simp: takeWhile_eq_all_conv)
  have gh: "gethash_loop 0 0 (dp_filename dp @ [NUL]) = Some (dp_filename_hash dp, ?n + 1)"
    using gethash_eq [OF ne nul] sv by (simp add: gethash_def savable_def dp_ok_def)
  have dp: "\<lparr>dp_filename = dp_filename dp, dp_filename_hash = dp_filename_hash dp, dp_md5 = dp_md5 dp\<rparr> = dp"
    by simp
  have lt: "?n \<noteq> 2 ^ 32 - 1" using sv by (simp add: savable_def)
  have svs: "\<forall>dp \<in> set es. savable dp" using Cons.prems(4) by simp
  show ?case
  proof (cases "is_excluded cfg (dp_filename dp)")
    case True
    have run: "load_entries cfg fd db w = load_entries cfg fd db w3"
      by (subst load_entries.simps)
        (use 1(1) 2(1) 3(1) len lt True sv in \<open>simp add: savable_def Let_def tw\<close>)
    obtain db' w' where "load_entries cfg fd db w3 = Some ((True, db'), w')" "dedup_ok db'"
      "pairs db' = pairs db + filter_mset (\<lambda>p. \<not> is_excluded cfg (fst p)) (mset (map pair_of es))"
      "clean w'" "repositioned fd w3 w'"
      using Cons.IH [OF 3(2,3,4) svs Cons.prems(5)] by blast
    then show ?thesis
      using run True repositioned_trans [OF rep] by (auto simp: pair_of_def [of dp])
  next
    case False
    have dpo: "dp_ok dp" using sv by (simp add: savable_def)
    note new = dedup_ok_new [OF Cons.prems(5) dpo]
    have run: "load_entries cfg fd db w = load_entries cfg fd (new_dp dp db) w3"
      by (subst load_entries.simps)
        (use 1(1) 2(1) 3(1) len lt False sv gh in \<open>simp add: savable_def Let_def tw dp\<close>)
    obtain db' w' where "load_entries cfg fd (new_dp dp db) w3 = Some ((True, db'), w')" "dedup_ok db'"
      "pairs db' = pairs (new_dp dp db) + filter_mset (\<lambda>p. \<not> is_excluded cfg (fst p)) (mset (map pair_of es))"
      "clean w'" "repositioned fd w3 w'"
      using Cons.IH [OF 3(2,3,4) svs new(1)] by blast
    then show ?thesis
      using run False new(2) repositioned_trans [OF rep] by (auto simp: pair_of_def [of dp])
  qed
qed

text \<open>Opening an existing file for reading.\<close>

lemma sys_open_read:
  assumes "clean w" and "world_ok w" and "contents w p = Some bs" and "sys_open p flags m w = (fd, w1)"
    and "O_TRUNC \<notin> flags" and "O_WRONLY \<notin> flags"
  shows "fd \<noteq> -1 \<and> clean w1 \<and> can_read w1 fd \<and> rest_of w1 fd = bs \<and> names w1 = names w \<and> inodes w1 = inodes w"
proof -
  obtain n i where n: "names w p = Some n" "inodes w n = Some i" "idata i = bs"
    using assms(3) by (auto simp: contents_def file_of_def bind_eq_Some_conv)
  then show ?thesis
    using assms
    by (auto simp: sys_open_def syscall_clean new_fd_def can_read_def rest_of_def fd_ofile_def fd_inode_def
        readable_def)
qed

lemma dedup_load_clean:
  assumes "clean w" and "world_ok w" and "contents w fn = Some (db_bytes es)" and "\<forall>dp \<in> set es. savable dp"
  shows "\<exists>db' w'. dedup_load cfg fn w = Some (db', w') \<and> dedup_ok db' \<and>
    pairs db' = filter_mset (\<lambda>p. \<not> is_excluded cfg (fst p)) (mset (map pair_of es)) \<and> names w' fn = None"
proof -
  obtain fd w1 where op: "sys_open fn {} 0 w = (fd, w1)" by fastforce
  have o: "fd \<noteq> -1" "clean w1" "can_read w1 fd" "rest_of w1 fd = db_bytes es" "names w1 = names w"
    using sys_open_read [OF assms(1-3) op] by auto
  obtain w2 where 1: "fread fd 5 w1 = (bytes_of ''DEDUP'', w2)" "clean w2" "can_read w2 fd"
    "rest_of w2 fd = le_bytes 2 DEDUP_VERSION @ concat (map entry_bytes es)" "repositioned fd w1 w2"
    using fread_clean [OF o(2,3), of 5] o(4) by (auto simp: db_bytes_def bytes_of_def)
  obtain w3 where 2: "fread fd 2 w2 = (le_bytes 2 DEDUP_VERSION, w3)" "clean w3" "can_read w3 fd"
    "rest_of w3 fd = concat (map entry_bytes es)" "repositioned fd w2 w3"
    using fread_clean [OF 1(2,3), of 2] 1(4) by auto
  have ver: "le_val (le_bytes 2 DEDUP_VERSION) = DEDUP_VERSION" by (simp add: le_val_bytes)
  obtain db' w4 where 3: "load_entries cfg fd dedup_init_db w3 = Some ((True, db'), w4)" "dedup_ok db'"
    "pairs db' = pairs dedup_init_db + filter_mset (\<lambda>p. \<not> is_excluded cfg (fst p)) (mset (map pair_of es))"
    "clean w4" "repositioned fd w3 w4"
    using load_entries_clean [OF 2(2,3,4) assms(4) conjunct1 [OF dedup_ok_init]] by blast
  obtain c w5 where cl: "sys_close fd w4 = (c, w5)" by fastforce
  have c5: "clean w5" "names w5 = names w4"
    using cl 3(4) by (auto simp: sys_close_def next_outcome_clean fail_def split: if_splits)
  obtain u w6 where ul: "sys_unlink fn w5 = (u, w6)" by fastforce
  have "names w5 fn \<noteq> None"
    using c5 repositioned_same(1) [OF 3(5)] repositioned_same(1) [OF 2(5)] repositioned_same(1) [OF 1(5)] o(5)
      assms(3) by (auto simp: contents_def file_of_def bind_eq_Some_conv)
  then have "names w6 fn = None"
    using ul c5(1) by (auto simp: sys_unlink_def syscall_clean)
  moreover have "dedup_load cfg fn w = Some (db', w6)"
    using op o(1) 1(1) 2(1) 3(1) ver cl ul by (simp add: dedup_load_def Let_def)
  ultimately show ?thesis using 3(2,3) dedup_ok_init by auto
qed

end
