(* ===== verification/DedupProps.thy ===== *)
theory DedupProps
  imports Examples DedupSave
begin

text \<open>
  The properties of the deduplication database (\<^verbatim>\<open>dedup.c\<close>), in memory and on disk. The
  database stands for the multiset \<open>pairs\<close> of names and sums it holds.
\<close>

definition ex_ddb :: dedup_db where
  "ex_ddb = the (dedup_add (replicate 16 7) ''f'' dedup_init_db)"

lemma ex_ddb: "dedup_ok ex_ddb" "pairs ex_ddb = {#(''f'', replicate 16 7)#}"
proof -
  have "name_ok ''f''" by (simp add: name_ok_def)
  with dedup_add_spec [of dedup_init_db "''f''" "replicate 16 7"] dedup_ok_init
  show "dedup_ok ex_ddb" "pairs ex_ddb = {#(''f'', replicate 16 7)#}" by (auto simp: ex_ddb_def)
qed

text \<open>
  C16: Adding a name with its sum to the database puts that pair in and nothing else: both lookups
  (by sum, and by the hash of a name) answer accordingly, and the two hash tables and the count
  stay consistent.
\<close>

theorem dedup_add_lookup:
  assumes "dedup_ok db" and "name_ok fn"
  shows "\<exists>db'. dedup_add md5 fn db = Some db' \<and> dedup_ok db' \<and> pairs db' = add_mset (fn, md5) (pairs db) \<and>
    (\<forall>m. dedup_db_has_md5 m db' \<longleftrightarrow> m = md5 \<or> dedup_db_has_md5 m db) \<and>
    (\<forall>h. dedup_db_has_filehash h db' \<longleftrightarrow> h = hash_of fn \<or> dedup_db_has_filehash h db)"
proof -
  obtain db' where db': "dedup_add md5 fn db = Some db'" "dedup_ok db'" "pairs db' = add_mset (fn, md5) (pairs db)"
    using dedup_add_spec [OF assms] by blast
  then show ?thesis
    using has_md5_iff [OF assms(1)] has_md5_iff [OF db'(2)] has_filehash_iff [OF assms(1)] has_filehash_iff [OF db'(2)]
    by (intro exI [of _ db']) auto
qed

theorem dedup_add_lookup_witness:
  "\<exists>db'. dedup_add [1, 2] ''g'' ex_ddb = Some db' \<and> dedup_db_has_md5 [1, 2] db'"
  using dedup_add_lookup [OF ex_ddb(1), of "''g''" "[1, 2]"] by (auto simp: name_ok_def)

text \<open>
  C17: Discarding a modified file undoes the addition of its name: if the name was not in the
  database before, the database has exactly the pairs it had, and the file counts as not
  deduplicated.
\<close>

theorem dedup_add_discard:
  assumes "dedup_ok db" and "name_ok (filename f)" and "deduped f"
    and "\<forall>m. (filename f, m) \<notin># pairs db"
  shows "\<exists>db1 db2. dedup_add md5 (filename f) db = Some db1 \<and>
    dedup_discard f db1 = Some (f\<lparr>deduped := False\<rparr>, db2) \<and> dedup_ok db2 \<and> pairs db2 = pairs db \<and>
    dedup_discard f db2 = Some (f\<lparr>deduped := False\<rparr>, db2)"
proof -
  obtain db1 where db1: "dedup_add md5 (filename f) db = Some db1" "dedup_ok db1"
    "pairs db1 = add_mset (filename f, md5) (pairs db)"
    using dedup_add_spec [OF assms(1,2)] by blast
  then have "\<exists>m. (filename f, m) \<in># pairs db1" by auto
  then obtain db2 m where db2: "dedup_discard f db1 = Some (f\<lparr>deduped := False\<rparr>, db2)" "dedup_ok db2"
    "pairs db1 = add_mset (filename f, m) (pairs db2)"
    using dedup_discard_spec [OF db1(2) assms(2)] assms(3) by auto
  have "m = md5"
  proof (rule ccontr)
    assume "m \<noteq> md5"
    then have "(filename f, m) \<in># pairs db" using db1(3) db2(3) by (metis insert_noteq_member prod.inject)
    then show False using assms(4) by blast
  qed
  then have p: "pairs db2 = pairs db" using db1(3) db2(3) by simp
  obtain db3 where "dedup_discard f db2 = Some (f\<lparr>deduped := False\<rparr>, db3)" "db3 = db2"
    using dedup_discard_spec [OF db2(2) assms(2)] p assms(4) by auto
  with db1(1) db2(1,2) p show ?thesis by blast
qed

theorem dedup_add_discard_witness:
  "\<exists>db1 db2. dedup_add [1] ''f'' dedup_init_db = Some db1 \<and>
    dedup_discard ex_file db1 = Some (ex_file\<lparr>deduped := False\<rparr>, db2) \<and> pairs db2 = {#}"
  using dedup_add_discard [of dedup_init_db ex_file "[1]"] dedup_ok_init
  by (auto simp: ex_file_def name_ok_def)

text \<open>
  C18: Renaming a file in the database: an entry of the overwritten name is discarded, the entry
  of the old name gets the new name and keeps its sum, and all others stay.
\<close>

theorem dedup_rename_moves:
  assumes "dedup_ok db" and "name_ok (filename from)" and "name_ok (filename to)"
    and "filename_hash from = hash_of (filename from)" and "filename_hash to = hash_of (filename to)"
    and "deduped to" and "filename from \<noteq> filename to"
    and "pairs db = add_mset (filename from, md5) (rest + old)"
    and "\<forall>m. (filename from, m) \<notin># rest" and "\<forall>m. (filename to, m) \<notin># rest"
    and "old = {#} \<or> (\<exists>m. old = {#(filename to, m)#})"
  shows "\<exists>db'. dedup_rename from to db = Some (to\<lparr>deduped := deduped from\<rparr>, db') \<and> dedup_ok db' \<and>
    pairs db' = add_mset (filename to, md5) rest"
proof -
  obtain db1 db' where d: "dedup_discard to db = Some (to\<lparr>deduped := False\<rparr>, db1)"
    and r: "dedup_rename from to db = Some (to\<lparr>deduped := deduped from\<rparr>, db')" "dedup_ok db'"
    and p: "if \<exists>m. (filename from, m) \<in># pairs db1
      then \<exists>m rest. pairs db1 = add_mset (filename from, m) rest \<and> pairs db' = add_mset (filename to, m) rest
      else db' = db1"
    using dedup_rename_spec [OF assms(1,3,2,5,4)] by blast
  have p1: "pairs db1 = add_mset (filename from, md5) rest"
  proof (cases "old = {#}")
    case True
    then have "\<not> (\<exists>m. (filename to, m) \<in># pairs db)" using assms(7,8,10) by auto
    then have "db1 = db" using dedup_discard_spec [OF assms(1,3)] d assms(6) by (auto split: if_splits)
    then show ?thesis using True assms(8) by simp
  next
    case False
    then obtain m where m: "old = {#(filename to, m)#}" using assms(11) by blast
    then have "\<exists>m. (filename to, m) \<in># pairs db" using assms(8) by auto
    then obtain m' where m': "pairs db = add_mset (filename to, m') (pairs db1)"
      using dedup_discard_spec [OF assms(1,3)] d assms(6) by auto
    then have "(filename to, m') \<in># pairs db" by simp
    then have "m' = m" using assms(7,8,10) m by auto
    then show ?thesis using m' m assms(8) by simp
  qed
  then have "\<exists>m. (filename from, m) \<in># pairs db1" by auto
  with p obtain m r2 where m: "pairs db1 = add_mset (filename from, m) r2" "pairs db' = add_mset (filename to, m) r2"
    by auto
  have "m = md5"
  proof (rule ccontr)
    assume "m \<noteq> md5"
    then have "(filename from, m) \<in># rest" using p1 m(1) by (metis insert_noteq_member prod.inject)
    then show False using assms(9) by blast
  qed
  with m p1 r show ?thesis by auto
qed

theorem dedup_rename_moves_witness:
  "\<exists>db'. dedup_rename ex_file (ex_file\<lparr>filename := ''g'', filename_hash := 103\<rparr>) ex_ddb =
      Some (ex_file\<lparr>filename := ''g'', filename_hash := 103\<rparr>, db') \<and>
    pairs db' = {#(''g'', replicate 16 7)#}"
proof -
  have "hash_of ''f'' = 102" "hash_of ''g'' = 103" by code_simp+
  then show ?thesis
    using dedup_rename_moves [OF ex_ddb(1), of ex_file "ex_file\<lparr>filename := ''g'', filename_hash := 103\<rparr>"
        "replicate 16 7" "{#}" "{#}"] ex_ddb(2)
    by (auto simp: ex_file_def name_ok_def)
qed

lemma entries_in_order_mem:
  assumes "dedup_ok db" and "dp \<in> set (entries_in_order db)"
  shows "\<exists>i. dps db i = Some dp"
  using assms(2) dedup_okD(3) [OF assms(1)] by (auto simp: entries_in_order_def) (metis option.sel)

text \<open>
  C19: The database survives an unmount: what \<open>dedup_save\<close> writes without failures is loaded
  again by \<open>dedup_load\<close>, as the same pairs without those of names excluded meanwhile, and the
  file is gone then, so that a crash does not find a stale one.
\<close>

theorem dedup_save_load:
  assumes "dedup_ok db" and "clean w" and "world_ok w"
    and "\<forall>i dp. dps db i = Some dp \<longrightarrow> length (dp_filename dp) < 2 ^ 32 - 1 \<and> length (dp_md5 dp) = 16"
    and "clean v" and "world_ok v" and "contents v DEDUP_DB_FILE = contents (dedup_save db w) DEDUP_DB_FILE"
  shows "\<exists>db' v'. dedup_load cfg DEDUP_DB_FILE v = Some (db', v') \<and> dedup_ok db' \<and>
    pairs db' = filter_mset (\<lambda>p. \<not> is_excluded cfg (fst p)) (pairs db) \<and>
    contents v' DEDUP_DB_FILE = None"
proof -
  have "savable dp" if "dp \<in> set (entries_in_order db)" for dp
    using entries_in_order_mem [OF assms(1) that] assms(4) dedup_okD(5) [OF assms(1)]
    by (auto simp: savable_def)
  then have "\<forall>dp \<in> set (entries_in_order db). savable dp" by blast
  moreover have "contents v DEDUP_DB_FILE = Some (db_bytes (entries_in_order db))"
    using assms(7) dedup_save_clean(1) [OF assms(2,3)] by simp
  ultimately obtain db' v' where "dedup_load cfg DEDUP_DB_FILE v = Some (db', v')" "dedup_ok db'"
    "pairs db' = filter_mset (\<lambda>p. \<not> is_excluded cfg (fst p)) (mset (map pair_of (entries_in_order db)))"
    "names v' DEDUP_DB_FILE = None"
    using dedup_load_clean [OF assms(5,6)] by blast
  then show ?thesis
    using mset_entries_in_order [OF assms(1)] by (auto simp: contents_def file_of_def)
qed

definition ex_remounted :: world where
  "ex_remounted = (ex_world (db_bytes (entries_in_order ex_ddb)))\<lparr>names := [DEDUP_DB_FILE \<mapsto> 0]\<rparr>"

theorem dedup_save_load_witness:
  "\<exists>db' v'. dedup_load ex_cfg DEDUP_DB_FILE ex_remounted = Some (db', v') \<and>
    pairs db' = filter_mset (\<lambda>p. \<not> is_excluded ex_cfg (fst p)) {#(''f'', replicate 16 7)#}"
proof -
  have fits: "length (dp_filename dp) < 2 ^ 32 - 1 \<and> length (dp_md5 dp) = 16" if "dps ex_ddb i = Some dp" for i dp
  proof -
    have "pair_of dp \<in># pairs ex_ddb"
      using that mem_pairs [OF dedup_ok_finite [OF ex_ddb(1)]] by blast
    then show ?thesis by (simp add: ex_ddb(2) pair_of_def)
  qed
  have v: "clean ex_remounted" "world_ok ex_remounted"
    "contents ex_remounted DEDUP_DB_FILE = Some (db_bytes (entries_in_order ex_ddb))"
    by (auto simp: ex_remounted_def ex_world_def ex_inode_def world_ok_def contents_def file_of_def)
  then have "contents ex_remounted DEDUP_DB_FILE = contents (dedup_save ex_ddb (ex_world [])) DEDUP_DB_FILE"
    using dedup_save_clean(1) [OF ex_world_clean ex_world_ok] by simp
  from dedup_save_load [OF ex_ddb(1) ex_world_clean ex_world_ok _ v(1,2) this, of ex_cfg] fits ex_ddb(2)
  show ?thesis by auto
qed

end
