(* ===== verification/LibModules.thy ===== *)
theory LibModules
  imports Modules
begin

text \<open>
  The modules over libraries that are not part of the repository: \<^verbatim>\<open>compress_gz.c\<close> over zlib and
  \<^verbatim>\<open>compress_bz2.c\<close> over libbz2. The library is a parameter, the record of the four calls that work
  on a file descriptor; its streams are opaque values. A library that keeps the contract
  \<open>stream_library\<close> makes the module keep \<open>codec_module\<close>.
\<close>

section \<open>A library\<close>

text \<open>
  \<open>gzdopen\<close>, \<open>gzread\<close>, \<open>gzwrite\<close>, \<open>gzclose\<close>; \<open>BZ2_bzdopen\<close>, \<open>BZ2_bzread\<close>, \<open>BZ2_bzwrite\<close>,
  \<open>BZ2_bzclose\<close> (whose result is not used).
\<close>

record ext_lib =
  dopen :: "int \<Rightarrow> string \<Rightarrow> world \<Rightarrow> nat list option \<times> world"
  dread :: "nat list \<Rightarrow> nat \<Rightarrow> world \<Rightarrow> (int \<times> byte list \<times> nat list) \<times> world"
  dwrite :: "nat list \<Rightarrow> byte list \<Rightarrow> world \<Rightarrow> (int \<times> nat list) \<times> world"
  dclose :: "nat list \<Rightarrow> world \<Rightarrow> int \<times> world"

abbreviation ext_open :: "ext_lib \<Rightarrow> int \<Rightarrow> string \<Rightarrow> world \<Rightarrow> (nat list option \<times> world) option" where
  "ext_open lib \<equiv> \<lambda>fd mode w. Some (dopen lib fd mode w)"

abbreviation ext_read :: "ext_lib \<Rightarrow> nat list \<Rightarrow> world \<Rightarrow> ((int \<times> byte list \<times> nat list) \<times> world) option" where
  "ext_read lib \<equiv> \<lambda>s w. Some (dread lib s 4096 w)"

abbreviation ext_write :: "ext_lib \<Rightarrow> nat list \<Rightarrow> byte list \<Rightarrow> world \<Rightarrow> ((int \<times> nat list) \<times> world) option" where
  "ext_write lib \<equiv> \<lambda>s bs w. Some (dwrite lib s bs w)"

section \<open>compress_gz.c\<close>

text \<open>\<open>Z_OK\<close> is 0; every other result of \<open>gzclose\<close> becomes -1.\<close>

definition gzClose :: "ext_lib \<Rightarrow> nat list \<Rightarrow> world \<Rightarrow> int \<times> world" where
  "gzClose lib fd_gz w =
     (let (res, w1) = dclose lib fd_gz w in if res \<noteq> 0 then (-1, w1) else (0, w1))"

definition gzCompress :: "ext_lib \<Rightarrow> string \<Rightarrow> file_t \<Rightarrow> int \<Rightarrow> int \<Rightarrow> world \<Rightarrow> (off \<times> file_t \<times> world) option" where
  "gzCompress lib level cookie fd_source fd_dest w =
     (let (dup_fd, w1) = sys_dup fd_dest w
      in if dup_fd = -1 then Some (FAIL, cookie, w1)
         else (case dopen lib dup_fd level w1 of
             (None, w2) \<Rightarrow> do { (_, w3) \<leftarrow> file_close dup_fd w2; Some (FAIL, cookie, w3) }
           | (Some fd_gz, w2) \<Rightarrow> do {
               ((size, fd_gz', cookie'), w3) \<leftarrow>
                 compress_loop (ext_write lib) (\<lambda>wr. wr = -1) fd_gz cookie fd_source 0 w2;
               let (_, w4) = gzClose lib fd_gz' w3;
               Some (size, cookie', w4)
             }))"

definition gzDecompress :: "ext_lib \<Rightarrow> int \<Rightarrow> int \<Rightarrow> world \<Rightarrow> (off \<times> world) option" where
  "gzDecompress lib fd_source fd_dest w =
     (let (dup_fd, w1) = sys_dup fd_source w
      in if dup_fd = -1 then Some (FAIL, w1)
         else (case dopen lib dup_fd ''rb'' w1 of
             (None, w2) \<Rightarrow> do { (_, w3) \<leftarrow> file_close dup_fd w2; Some (FAIL, w3) }
           | (Some fd_gz, w2) \<Rightarrow> do {
               ((size, fd_gz'), w3) \<leftarrow> copy_loop (ext_read lib) fd_gz fd_dest 0 w2;
               let (_, w4) = gzClose lib fd_gz' w3;
               Some (size, w4)
             }))"

definition module_gzip :: "ext_lib \<Rightarrow> string \<Rightarrow> compressor_t" where
  "module_gzip lib level =
     \<lparr>ctype = 2, cname = ''gz'', compress = gzCompress lib level, decompress = gzDecompress lib,
      copen = (\<lambda>fd mode w. let (h, w') = dopen lib fd mode w in Some (map_option HExt h, w')),
      cclose = (\<lambda>h w. case h of HExt s \<Rightarrow> Some (gzClose lib s w) | _ \<Rightarrow> None),
      cread = (\<lambda>h n w. case h of
         HExt s \<Rightarrow> (let ((r, bs, s'), w') = dread lib s n w in Some ((r, bs, HExt s'), w'))
       | _ \<Rightarrow> None),
      cwrite = (\<lambda>h bs w. case h of
         HExt s \<Rightarrow> (let ((r, s'), w') = dwrite lib s bs w in Some ((r, HExt s'), w'))
       | _ \<Rightarrow> None)\<rparr>"

section \<open>compress_bz2.c\<close>

definition bz2Close :: "ext_lib \<Rightarrow> nat list \<Rightarrow> world \<Rightarrow> int \<times> world" where
  "bz2Close lib fd_bz2 w = (0, snd (dclose lib fd_bz2 w))"

definition bz2Compress :: "ext_lib \<Rightarrow> string \<Rightarrow> file_t \<Rightarrow> int \<Rightarrow> int \<Rightarrow> world \<Rightarrow> (off \<times> file_t \<times> world) option" where
  "bz2Compress lib level cookie fd_source fd_dest w =
     (let (dup_fd, w1) = sys_dup fd_dest w
      in if dup_fd = -1 then Some (FAIL, cookie, w1)
         else (case dopen lib dup_fd level w1 of
             (None, w2) \<Rightarrow> do { (_, w3) \<leftarrow> file_close dup_fd w2; Some (FAIL, cookie, w3) }
           | (Some fd_bz2, w2) \<Rightarrow> do {
               ((size, fd_bz2', cookie'), w3) \<leftarrow>
                 compress_loop (ext_write lib) (\<lambda>wr. wr = -1) fd_bz2 cookie fd_source 0 w2;
               let (_, w4) = dclose lib fd_bz2' w3;
               Some (size, cookie', w4)
             }))"

definition bz2Decompress :: "ext_lib \<Rightarrow> int \<Rightarrow> int \<Rightarrow> world \<Rightarrow> (off \<times> world) option" where
  "bz2Decompress lib fd_source fd_dest w =
     (let (dup_fd, w1) = sys_dup fd_source w
      in if dup_fd = -1 then Some (-1, w1)
         else (case dopen lib dup_fd ''rb'' w1 of
             (None, w2) \<Rightarrow> do { (_, w3) \<leftarrow> file_close dup_fd w2; Some (-1, w3) }
           | (Some fd_bz2, w2) \<Rightarrow> do {
               ((size, fd_bz2'), w3) \<leftarrow> copy_loop (ext_read lib) fd_bz2 fd_dest 0 w2;
               let (_, w4) = dclose lib fd_bz2' w3;
               Some (size, w4)
             }))"

definition module_bz2 :: "ext_lib \<Rightarrow> string \<Rightarrow> compressor_t" where
  "module_bz2 lib level =
     \<lparr>ctype = 1, cname = ''bz2'', compress = bz2Compress lib level, decompress = bz2Decompress lib,
      copen = (\<lambda>fd mode w. let (h, w') = dopen lib fd mode w in Some (map_option HExt h, w')),
      cclose = (\<lambda>h w. case h of HExt s \<Rightarrow> Some (bz2Close lib s w) | _ \<Rightarrow> None),
      cread = (\<lambda>h n w. case h of
         HExt s \<Rightarrow> (let ((r, bs, s'), w') = dread lib s n w in Some ((r, bs, HExt s'), w'))
       | _ \<Rightarrow> None),
      cwrite = (\<lambda>h bs w. case h of
         HExt s \<Rightarrow> (let ((r, s'), w') = dwrite lib s bs w in Some ((r, HExt s'), w'))
       | _ \<Rightarrow> None)\<rparr>"

section \<open>Both are modules over a stream library\<close>

lemma gzCompress_stream:
  "gzCompress lib level =
    stream_compress (ext_open lib) (ext_write lib) (\<lambda>wr. wr = -1) (\<lambda>s w. Some (gzClose lib s w)) level"
  by (simp add: fun_eq_iff gzCompress_def stream_compress_def split_beta Let_def split: option.split)

lemma gzDecompress_stream:
  "gzDecompress lib = stream_decompress (ext_open lib) (ext_read lib) (\<lambda>s w. Some (gzClose lib s w))"
  by (simp add: fun_eq_iff gzDecompress_def stream_decompress_def split_beta Let_def split: option.split)

lemma bz2Compress_stream:
  "bz2Compress lib level =
    stream_compress (ext_open lib) (ext_write lib) (\<lambda>wr. wr = -1) (\<lambda>s w. Some (dclose lib s w)) level"
  by (simp add: fun_eq_iff bz2Compress_def stream_compress_def split_beta Let_def split: option.split)

lemma bz2Decompress_stream:
  "bz2Decompress lib = stream_decompress (ext_open lib) (ext_read lib) (\<lambda>s w. Some (dclose lib s w))"
  by (simp add: fun_eq_iff bz2Decompress_def stream_decompress_def split_beta Let_def split: option.split)

end
