(* ===== verification/Lzma.thy ===== *)
theory Lzma
  imports StreamModule
begin

text \<open>
  \<^verbatim>\<open>compress_lzma.c\<close>, the module over liblzma. The library is a parameter: \<open>lzma_code\<close> takes the
  state, what to do, the input at hand and the room for output, and gives back its result, how
  many bytes it took, what it put out, and the new state. \<open>easy_encoder\<close> is the macro
  \<open>LZMA_EASY_ENCODER\<close>; \<open>lzma_end\<close> frees memory and is left out.

  The loops around \<open>lzma_code\<close> end only if the library gets on, so they are partial functions;
  \<open>encoder_ok\<close> and \<open>decoder_ok\<close> state what liblzma documents.
\<close>

datatype lzma_action = LZMA_RUN | LZMA_FINISH

record lzma_lib =
  easy_encoder :: "int \<Rightarrow> int \<times> nat list"
  auto_decoder :: "int \<times> nat list"
  lzma_code :: "nat list \<Rightarrow> lzma_action \<Rightarrow> byte list \<Rightarrow> nat \<Rightarrow> int \<times> nat \<times> byte list \<times> nat list"

definition LZMA_OK :: int where "LZMA_OK = 0"
definition LZMA_STREAM_END :: int where "LZMA_STREAM_END = 1"

section \<open>lzmaCompress\<close>

text \<open>
  The inner loop: what was read is given to the encoder, and what the encoder puts out is written.
  \<open>wr\<close> is unsigned, so that the -1 of a failed write passes the test.
\<close>

partial_function (option) lzma_push ::
  "lzma_lib \<Rightarrow> nat list \<Rightarrow> int \<Rightarrow> byte list \<Rightarrow> world \<Rightarrow> ((bool \<times> nat list) \<times> world) option" where
  [code]: "lzma_push lib st dup_fd inp w =
     (if inp = [] then Some ((True, st), w)
      else (let (ret, k, out, st') = lzma_code lib st LZMA_RUN inp 4096
            in if ret \<noteq> LZMA_OK then Some ((False, st'), w)
               else (let (wr, w1) = sys_write dup_fd out w
                     in if unat (word_of_int wr :: u32) < length out then Some ((False, st'), w1)
                        else lzma_push lib st' dup_fd (drop k inp) w1)))"

text \<open>The inner loop as a write function: the outer loop is that of the other modules.\<close>

definition lzma_write :: "lzma_lib \<Rightarrow> nat list \<times> int \<Rightarrow> byte list \<Rightarrow> world \<Rightarrow> ((int \<times> nat list \<times> int) \<times> world) option" where
  "lzma_write lib s bs w = do {
     ((b, st'), w1) \<leftarrow> lzma_push lib (fst s) (snd s) bs w;
     Some ((if b then int (length bs) else -1, st', snd s), w1)
   }"

text \<open>
  The last loop. \<open>Some r\<close>: the function returns \<open>r\<close> at once, which is the encoder's result and not
  FAIL when a write fails. A short write is not noticed.
\<close>

partial_function (option) lzma_tail ::
  "lzma_lib \<Rightarrow> nat list \<Rightarrow> int \<Rightarrow> world \<Rightarrow> (off option \<times> world) option" where
  [code]: "lzma_tail lib st dup_fd w =
     (let (ret, k, out, st') = lzma_code lib st LZMA_FINISH [] 4096
      in if ret \<noteq> LZMA_OK \<and> ret \<noteq> LZMA_STREAM_END then Some (Some FAIL, w)
         else (let (wr, w1) = sys_write dup_fd out w
               in if wr < 0 then Some (Some ret, w1)
                  else if ret = LZMA_STREAM_END then Some (None, w1)
                  else lzma_tail lib st' dup_fd w1))"

text \<open>\<open>compresslevel[2] - '0'\<close>; a shorter string would be read past its end.\<close>

definition level_digit :: "string \<Rightarrow> int option" where
  "level_digit level = (if length level \<le> 2 then None else Some (of_char (level ! 2) - of_char CHR ''0''))"

definition lzmaCompress :: "lzma_lib \<Rightarrow> string \<Rightarrow> file_t \<Rightarrow> int \<Rightarrow> int \<Rightarrow> world \<Rightarrow> (off \<times> file_t \<times> world) option" where
  "lzmaCompress lib level cookie fd_source fd_dest w =
     (let (dup_fd, w1) = sys_dup fd_dest w
      in if dup_fd = -1 then Some (FAIL, cookie, w1)
         else do {
           n \<leftarrow> level_digit level;
           let (ret, st) = easy_encoder lib n;
           if ret \<noteq> LZMA_OK then Some (FAIL, cookie, snd (sys_close dup_fd w1))
           else do {
             ((size, (st', _), cookie'), w2) \<leftarrow>
               compress_loop (lzma_write lib) (\<lambda>wr. wr = -1) (st, dup_fd) cookie fd_source 0 w1;
             if size = -1 then Some (FAIL, cookie', snd (sys_close dup_fd w2))
             else do {
               (r, w3) \<leftarrow> lzma_tail lib st' dup_fd w2;
               Some (case r of None \<Rightarrow> size | Some v \<Rightarrow> v, cookie', snd (sys_close dup_fd w3))
             }
           }
         })"

section \<open>lzmaDecompress\<close>

text \<open>The inner loop; the flag tells that the stream has ended. No result: FAIL.\<close>

partial_function (option) lzma_pull ::
  "lzma_lib \<Rightarrow> nat list \<Rightarrow> int \<Rightarrow> byte list \<Rightarrow> off \<Rightarrow> world \<Rightarrow> ((off \<times> bool \<times> nat list) option \<times> world) option" where
  [code]: "lzma_pull lib st fd_dest inp sz w =
     (if inp = [] then Some (Some (sz, False, st), w)
      else (let (ret, k, out, st') = lzma_code lib st LZMA_RUN inp 4096
            in if ret \<noteq> LZMA_OK \<and> ret \<noteq> LZMA_STREAM_END then Some (None, w)
               else (let (wr, w1) = sys_write fd_dest out w
                     in if wr = -1 then Some (None, w1)
                        else if ret = LZMA_STREAM_END then Some (Some (sz + wr, True, st'), w1)
                        else lzma_pull lib st' fd_dest (drop k inp) (sz + wr) w1)))"

partial_function (option) lzma_copy ::
  "lzma_lib \<Rightarrow> nat list \<Rightarrow> int \<Rightarrow> int \<Rightarrow> off \<Rightarrow> world \<Rightarrow> (off \<times> world) option" where
  [code]: "lzma_copy lib st dup_fd fd_dest sz w =
     (let ((rd, bs), w1) = sys_read dup_fd 4096 w
      in if rd > 0 then do {
           (res, w2) \<leftarrow> lzma_pull lib st fd_dest bs sz w1;
           case res of
             None \<Rightarrow> Some (FAIL, w2)
           | Some (sz', ended, st') \<Rightarrow>
               (if ended then Some (sz', w2) else lzma_copy lib st' dup_fd fd_dest sz' w2)
         }
         else Some (if rd = -1 then FAIL else sz, w1))"

definition lzmaDecompress :: "lzma_lib \<Rightarrow> int \<Rightarrow> int \<Rightarrow> world \<Rightarrow> (off \<times> world) option" where
  "lzmaDecompress lib fd_source fd_dest w =
     (let (dup_fd, w1) = sys_dup fd_source w
      in if dup_fd = -1 then Some (FAIL, w1)
         else (let (ret, st) = auto_decoder lib
               in if ret \<noteq> LZMA_OK then Some (FAIL, snd (sys_close dup_fd w1))
                  else do {
                    (size, w2) \<leftarrow> lzma_copy lib st dup_fd fd_dest 0 w1;
                    Some (size, snd (sys_close dup_fd w2))
                  }))"

section \<open>Streams\<close>

text \<open>An empty mode string would be read past its end.\<close>

definition lzmaOpen :: "lzma_lib \<Rightarrow> int \<Rightarrow> string \<Rightarrow> world \<Rightarrow> (lzmafile option \<times> world) option" where
  "lzmaOpen lib fd mode w = do {
     assert (mode \<noteq> []);
     (ret, st) \<leftarrow> (if mode ! 0 = CHR ''r'' then Some (auto_decoder lib)
                   else map_option (easy_encoder lib) (level_digit mode));
     Some (if ret \<noteq> LZMA_OK then None else Some \<lparr>l_str = st, l_in = [], l_fd = fd, l_mode = mode ! 0\<rparr>, w)
   }"

partial_function (option) lzma_flush ::
  "lzma_lib \<Rightarrow> nat list \<Rightarrow> int \<Rightarrow> world \<Rightarrow> (bool \<times> world) option" where
  [code]: "lzma_flush lib st fd w =
     (let (ret, k, out, st') = lzma_code lib st LZMA_FINISH [] 4096
      in if ret \<noteq> LZMA_STREAM_END \<and> ret \<noteq> LZMA_OK then Some (False, w)
         else (let (wr, w1) = sys_write fd out w
               in if wr \<noteq> int (length out) then Some (False, w1)
                  else if ret = LZMA_STREAM_END then Some (True, w1)
                  else lzma_flush lib st' fd w1))"

text \<open>When the flush fails, the descriptor stays open.\<close>

definition lzmaClose :: "lzma_lib \<Rightarrow> lzmafile \<Rightarrow> world \<Rightarrow> (int \<times> world) option" where
  "lzmaClose lib file w = do {
     (b, w1) \<leftarrow> (if l_mode file = CHR ''w'' then lzma_flush lib (l_str file) (l_fd file) w else Some (True, w));
     Some (if \<not> b then (-1, w1) else sys_close (l_fd file) w1)
   }"

partial_function (option) lzmaWrite_loop ::
  "lzma_lib \<Rightarrow> nat \<Rightarrow> nat list \<Rightarrow> int \<Rightarrow> byte list \<Rightarrow> world \<Rightarrow> ((bool \<times> nat list \<times> byte list) \<times> world) option" where
  [code]: "lzmaWrite_loop lib len st fd inp w =
     (if inp = [] then Some ((True, st, []), w)
      else (let (ret, k, out, st') = lzma_code lib st LZMA_RUN inp len
            in if ret \<noteq> LZMA_OK then Some ((False, st', drop k inp), w)
               else (let (wr, w1) = sys_write fd out w
                     in if wr \<noteq> int (length out) then Some ((False, st', drop k inp), w1)
                        else lzmaWrite_loop lib len st' fd (drop k inp) w1)))"

definition lzmaWrite :: "lzma_lib \<Rightarrow> lzmafile \<Rightarrow> byte list \<Rightarrow> world \<Rightarrow> ((int \<times> lzmafile) \<times> world) option" where
  "lzmaWrite lib file buf w =
     (if l_mode file \<noteq> CHR ''w'' then Some ((-1, file), w)
      else do {
        ((b, st, inp), w1) \<leftarrow> lzmaWrite_loop lib (length buf) (l_str file) (l_fd file) buf w;
        Some ((if b then int (length buf) else -1, file\<lparr>l_str := st, l_in := inp\<rparr>), w1)
      })"

text \<open>\<open>out\<close> is what is in the buffer, \<open>room\<close> what is left of it.\<close>

partial_function (option) lzmaRead_loop ::
  "lzma_lib \<Rightarrow> lzmafile \<Rightarrow> nat \<Rightarrow> byte list \<Rightarrow> world \<Rightarrow> ((int \<times> byte list \<times> lzmafile) \<times> world) option" where
  [code]: "lzmaRead_loop lib f room buf w =
     (if room = 0 then Some ((int (length buf), buf, f), w)
      else (let ((r, bs), w1) = (if l_in f = [] then sys_read (l_fd f) 4096 w else ((1, l_in f), w))
            in if r < 0 then Some ((r, [], f), w1)
               else if r = 0 then Some ((int (length buf), buf, f), w1)
               else (let (ret, k, out, st') = lzma_code lib (l_str f) LZMA_RUN bs room;
                         f' = f\<lparr>l_str := st', l_in := drop k bs\<rparr>
                     in if ret \<noteq> LZMA_OK \<and> ret \<noteq> LZMA_STREAM_END then Some ((-1, [], f'), w1)
                        else if ret = LZMA_STREAM_END then Some ((int (length (buf @ out)), buf @ out, f'), w1)
                        else lzmaRead_loop lib f' (room - length out) (buf @ out) w1)))"

definition lzmaRead :: "lzma_lib \<Rightarrow> lzmafile \<Rightarrow> nat \<Rightarrow> world \<Rightarrow> ((int \<times> byte list \<times> lzmafile) \<times> world) option" where
  "lzmaRead lib file len w =
     (if l_mode file \<noteq> CHR ''r'' then Some ((-1, [], file), w) else lzmaRead_loop lib file len [] w)"

definition module_lzma :: "lzma_lib \<Rightarrow> string \<Rightarrow> compressor_t" where
  "module_lzma lib level =
     \<lparr>ctype = 4, cname = ''lzma'', compress = lzmaCompress lib level, decompress = lzmaDecompress lib,
      copen = (\<lambda>fd mode w. map_option (\<lambda>(f, w'). (map_option HLzma f, w')) (lzmaOpen lib fd mode w)),
      cclose = (\<lambda>h w. case h of HLzma f \<Rightarrow> lzmaClose lib f w | _ \<Rightarrow> None),
      cread = (\<lambda>h n w. case h of
         HLzma f \<Rightarrow> do { ((r, bs, f'), w') \<leftarrow> lzmaRead lib f n w; Some ((r, bs, HLzma f'), w') }
       | _ \<Rightarrow> None),
      cwrite = (\<lambda>h bs w. case h of
         HLzma f \<Rightarrow> do { ((r, f'), w') \<leftarrow> lzmaWrite lib f bs w; Some ((r, HLzma f'), w') }
       | _ \<Rightarrow> None)\<rparr>"

end
