(* ===== verification/LzmaFacts.thy ===== *)
theory LzmaFacts
  imports Lzma
begin

text \<open>
  Correctness of \<^verbatim>\<open>compress_lzma.c\<close>, given what liblzma documents: both routines return whatever
  fails and change the destination only; without faults \<open>lzmaCompress\<close> writes a stream that decodes
  to the source, and \<open>lzmaDecompress\<close> turns a complete stream back into its data.
\<close>

section \<open>The library\<close>

text \<open>
  \<open>fed st data bytes\<close>: the encoder in state \<open>st\<close> has been given \<open>data\<close> and has put out \<open>bytes\<close>.
  \<open>work\<close> measures what is left to do: each call that returns \<open>LZMA_OK\<close> takes or gives something, or
  is one of the few that liblzma allows to do neither.
\<close>

definition code_ok :: "lzma_lib \<Rightarrow> (nat list \<Rightarrow> bool) \<Rightarrow> (nat list \<Rightarrow> nat \<Rightarrow> nat) \<Rightarrow> bool" where
  "code_ok lib ok work \<longleftrightarrow>
     (\<forall>st a inp n ret k out st'. ok st \<longrightarrow> 0 < n \<longrightarrow> (a = LZMA_RUN \<longrightarrow> inp \<noteq> []) \<longrightarrow>
        lzma_code lib st a inp n = (ret, k, out, st') \<longrightarrow>
        ok st' \<and> length out \<le> n \<and> (ret = LZMA_OK \<longrightarrow> work st' (length inp - k) < work st (length inp)))"

definition encoder_ok ::
  "lzma_lib \<Rightarrow> (nat list \<Rightarrow> bool) \<Rightarrow> (nat list \<Rightarrow> nat \<Rightarrow> nat) \<Rightarrow> (nat list \<Rightarrow> byte list \<Rightarrow> byte list \<Rightarrow> bool) \<Rightarrow>
   (byte list \<Rightarrow> byte list option) \<Rightarrow> int \<Rightarrow> bool" where
  "encoder_ok lib ok work fed decode level \<longleftrightarrow>
     code_ok lib ok work \<and>
     (\<exists>st. easy_encoder lib level = (LZMA_OK, st) \<and> ok st \<and> fed st [] []) \<and>
     (\<forall>st data bytes inp n ret k out st'. ok st \<longrightarrow> fed st data bytes \<longrightarrow> 0 < n \<longrightarrow> inp \<noteq> [] \<longrightarrow>
        lzma_code lib st LZMA_RUN inp n = (ret, k, out, st') \<longrightarrow>
        ret = LZMA_OK \<and> fed st' (data @ take k inp) (bytes @ out)) \<and>
     (\<forall>st data bytes n ret k out st'. ok st \<longrightarrow> fed st data bytes \<longrightarrow> 0 < n \<longrightarrow>
        lzma_code lib st LZMA_FINISH [] n = (ret, k, out, st') \<longrightarrow>
        ret = LZMA_OK \<and> fed st' data (bytes @ out) \<or> ret = LZMA_STREAM_END \<and> decode (bytes @ out) = Some data)"

text \<open>
  \<open>left st bytes\<close>: what the decoder in state \<open>st\<close> will still put out when it is given \<open>bytes\<close>, if they
  complete its stream; then it says so with \<open>LZMA_STREAM_END\<close>, so nothing completes without input.
\<close>

definition decoder_ok ::
  "lzma_lib \<Rightarrow> (nat list \<Rightarrow> bool) \<Rightarrow> (nat list \<Rightarrow> nat \<Rightarrow> nat) \<Rightarrow> (nat list \<Rightarrow> byte list \<Rightarrow> byte list option) \<Rightarrow>
   (byte list \<Rightarrow> byte list option) \<Rightarrow> bool" where
  "decoder_ok lib ok work left decode \<longleftrightarrow>
     code_ok lib ok work \<and>
     (\<exists>st. auto_decoder lib = (LZMA_OK, st) \<and> ok st \<and> left st = decode) \<and>
     (\<forall>st. ok st \<longrightarrow> left st [] = None) \<and>
     (\<forall>st inp n rest all ret k out st'. ok st \<longrightarrow> 0 < n \<longrightarrow> inp \<noteq> [] \<longrightarrow> left st (inp @ rest) = Some all \<longrightarrow>
        lzma_code lib st LZMA_RUN inp n = (ret, k, out, st') \<longrightarrow>
        ret = LZMA_STREAM_END \<and> out = all \<or>
        ret = LZMA_OK \<and> (\<exists>all'. all = out @ all' \<and> left st' (drop k inp @ rest) = Some all'))"

lemma code_okD:
  assumes "code_ok lib ok work" and "ok st" and "0 < n" and "a = LZMA_RUN \<Longrightarrow> inp \<noteq> []"
    and "lzma_code lib st a inp n = (ret, k, out, st')"
  shows "ok st'" and "length out \<le> n" and "ret = LZMA_OK \<Longrightarrow> work st' (length inp - k) < work st (length inp)"
  using assms unfolding code_ok_def by blast+

lemma LZMA_results [simp]: "LZMA_OK \<noteq> LZMA_STREAM_END" "LZMA_STREAM_END \<noteq> LZMA_OK"
  by (simp_all add: LZMA_OK_def LZMA_STREAM_END_def)

section \<open>The encoder's loops\<close>

lemma lzma_push_total:
  assumes "code_ok lib ok work" and "ok st"
  shows "\<exists>b st' w'. lzma_push lib st fd inp w = Some ((b, st'), w') \<and> ok st' \<and> appends src fd w w'"
  using assms(2)
proof (induction "work st (length inp)" arbitrary: st inp w rule: less_induct)
  case less
  show ?case
  proof (cases "inp = []")
    case True
    then show ?thesis using less(2) by (auto simp: lzma_push.simps intro: exI [of _ True])
  next
    case False
    obtain ret k out st' where c: "lzma_code lib st LZMA_RUN inp 4096 = (ret, k, out, st')" by (metis prod.exhaust)
    obtain r w1 where wr: "sys_write fd out w = (r, w1)" by fastforce
    note co = code_okD [OF assms(1) less(2) _ _ c]
    have ap: "appends src fd w w1" by (rule appends_sys_write [OF wr])
    show ?thesis
    proof (cases "ret = LZMA_OK \<and> \<not> unat (word_of_int r :: u32) < length out")
      case True
      have "\<exists>b st'' w'. lzma_push lib st' fd (drop k inp) w1 = Some ((b, st''), w') \<and> ok st'' \<and> appends src fd w1 w'"
        by (rule less(1)) (use co False True in simp_all)
      then show ?thesis using c wr True False appends_trans [OF ap] by (subst lzma_push.simps) auto
    next
      case stop: False
      then show ?thesis using c wr False ap co(1) by (subst lzma_push.simps) auto
    qed
  qed
qed

lemma lzma_push_clean:
  assumes "encoder_ok lib ok work fed decode level" and "ok st" and "fed st data bytes"
    and "clean w" and "at_end w fd"
  shows "\<exists>st' w' new. lzma_push lib st fd inp w = Some ((True, st'), w') \<and> clean w' \<and> at_end w' fd \<and>
    data_of w' fd = data_of w fd @ new \<and> fed st' (data @ inp) (bytes @ new)"
  using assms(2-5)
proof (induction "work st (length inp)" arbitrary: st inp w data bytes rule: less_induct)
  case less
  have code: "code_ok lib ok work" using assms(1) by (simp add: encoder_ok_def)
  show ?case
  proof (cases "inp = []")
    case True
    then show ?thesis using less by (simp add: lzma_push.simps)
  next
    case False
    obtain ret k out st' where c: "lzma_code lib st LZMA_RUN inp 4096 = (ret, k, out, st')" by (metis prod.exhaust)
    note co = code_okD [OF code less(2) _ _ c]
    have f: "ret = LZMA_OK" "fed st' (data @ take k inp) (bytes @ out)"
      using assms(1) less(2,3) c False unfolding encoder_ok_def by (metis zero_less_numeral)+
    let ?w1 = "append_fd fd out w"
    have wr: "sys_write fd out w = (int (length out), ?w1)" by (rule sys_write_appends [OF less(4,5)])
    have len: "length out \<le> 4096" using co(2) False by simp
    have go: "\<not> unat (word_of_int (int (length out)) :: u32) < length out"
      using len by (simp add: unat_of_nat take_bit_eq_mod flip: of_nat_nat)
    have "\<exists>st'' w' new. lzma_push lib st' fd (drop k inp) ?w1 = Some ((True, st''), w') \<and> clean w' \<and> at_end w' fd \<and>
        data_of w' fd = data_of ?w1 fd @ new \<and> fed st'' ((data @ take k inp) @ drop k inp) ((bytes @ out) @ new)"
      by (rule less(1)) (use co f False less(4,5) append_fd_at_end in simp_all)
    then show ?thesis
      using c wr f(1) go False append_fd_data [OF less(5)] by (subst lzma_push.simps) auto
  qed
qed

lemma lzma_tail_total:
  assumes "code_ok lib ok work" and "ok st"
  shows "\<exists>r w'. lzma_tail lib st fd w = Some (r, w') \<and> appends src fd w w' \<and>
    (clean w \<and> at_end w fd \<longrightarrow> clean w')"
  using assms(2)
proof (induction "work st 0" arbitrary: st w rule: less_induct)
  case less
  obtain ret k out st' where c: "lzma_code lib st LZMA_FINISH [] 4096 = (ret, k, out, st')" by (metis prod.exhaust)
  obtain r w1 where wr: "sys_write fd out w = (r, w1)" by fastforce
  note co = code_okD [OF assms(1) less(2) _ _ c]
  have ap: "appends src fd w w1" by (rule appends_sys_write [OF wr])
  have cl: "clean w1 \<and> at_end w1 fd" if "clean w" "at_end w fd"
    using wr sys_write_appends [OF that] append_fd_at_end [OF that(2)] that(1) by auto
  show ?case
  proof (cases "ret = LZMA_OK \<and> \<not> r < 0")
    case True
    have "\<exists>r w'. lzma_tail lib st' fd w1 = Some (r, w') \<and> appends src fd w1 w' \<and>
        (clean w1 \<and> at_end w1 fd \<longrightarrow> clean w')"
      by (rule less(1)) (use co True in simp_all)
    then show ?thesis using c wr True appends_trans [OF ap] cl by (subst lzma_tail.simps) auto
  next
    case False
    then show ?thesis using c wr ap cl by (subst lzma_tail.simps) auto
  qed
qed

lemma lzma_tail_clean:
  assumes "encoder_ok lib ok work fed decode level" and "ok st" and "fed st data bytes"
    and "clean w" and "at_end w fd"
  shows "\<exists>w' new. lzma_tail lib st fd w = Some (None, w') \<and> clean w' \<and>
    data_of w' fd = data_of w fd @ new \<and> decode (bytes @ new) = Some data"
  using assms(2-5)
proof (induction "work st 0" arbitrary: st w bytes rule: less_induct)
  case less
  have code: "code_ok lib ok work" using assms(1) by (simp add: encoder_ok_def)
  obtain ret k out st' where c: "lzma_code lib st LZMA_FINISH [] 4096 = (ret, k, out, st')" by (metis prod.exhaust)
  note co = code_okD [OF code less(2) _ _ c]
  have f: "ret = LZMA_OK \<and> fed st' data (bytes @ out) \<or> ret = LZMA_STREAM_END \<and> decode (bytes @ out) = Some data"
    using assms(1) less(2,3) c unfolding encoder_ok_def by (metis zero_less_numeral)
  let ?w1 = "append_fd fd out w"
  have wr: "sys_write fd out w = (int (length out), ?w1)" by (rule sys_write_appends [OF less(4,5)])
  note d1 = append_fd_data [OF less(5)]
  show ?case
  proof (cases "ret = LZMA_OK")
    case True
    have "\<exists>w' new. lzma_tail lib st' fd ?w1 = Some (None, w') \<and> clean w' \<and>
        data_of w' fd = data_of ?w1 fd @ new \<and> decode ((bytes @ out) @ new) = Some data"
      by (rule less(1)) (use co f True less(4,5) append_fd_at_end in simp_all)
    then show ?thesis using c wr True d1 by (subst lzma_tail.simps) auto
  next
    case False
    then show ?thesis using c wr f d1 less(4) by (subst lzma_tail.simps) auto
  qed
qed

lemma lzma_sink:
  assumes "encoder_ok lib ok work fed decode level"
  shows "sink_stream (lzma_write lib) (\<lambda>s. ok (fst s)) snd (\<lambda>s. fed (fst s))"
proof
  have code: "code_ok lib ok work" using assms by (simp add: encoder_ok_def)
  fix s :: "nat list \<times> int" and s' bs w w' r src
  assume s: "ok (fst s)"
  show "\<exists>r s' w'. lzma_write lib s bs w = Some ((r, s'), w') \<and> ok (fst s') \<and> snd s' = snd s"
    using lzma_push_total [OF code s, of "snd s" bs w] by (fastforce simp: lzma_write_def)
  assume wr: "lzma_write lib s bs w = Some ((r, s'), w')"
  show "appends src (snd s) w w'"
    using lzma_push_total [OF code s, of "snd s" bs w src] wr by (auto simp: lzma_write_def)
  show "r = int (length bs) \<and> clean w' \<and>
      (\<exists>new. data_of w' (snd s) = data_of w (snd s) @ new \<and> fed (fst s') (data @ bs) (bytes @ new))"
    if "clean w" "at_end w (snd s)" "fed (fst s) data bytes" for data bytes
    using lzma_push_clean [OF assms s that(3,1,2), of bs] wr by (auto simp: lzma_write_def)
qed

section \<open>The decoder's loops\<close>

lemma lzma_pull_total:
  assumes "code_ok lib ok work" and "ok st"
  shows "\<exists>res w'. lzma_pull lib st fd inp sz w = Some (res, w') \<and> appends src fd w w' \<and>
    (\<forall>z e st'. res = Some (z, e, st') \<longrightarrow> ok st')"
  using assms(2)
proof (induction "work st (length inp)" arbitrary: st inp sz w rule: less_induct)
  case less
  show ?case
  proof (cases "inp = []")
    case True
    then show ?thesis using less(2) by (auto simp: lzma_pull.simps)
  next
    case False
    obtain ret k out st' where c: "lzma_code lib st LZMA_RUN inp 4096 = (ret, k, out, st')" by (metis prod.exhaust)
    obtain r w1 where wr: "sys_write fd out w = (r, w1)" by fastforce
    note co = code_okD [OF assms(1) less(2) _ _ c]
    have ap: "appends src fd w w1" by (rule appends_sys_write [OF wr])
    show ?thesis
    proof (cases "ret = LZMA_OK \<and> r \<noteq> -1")
      case True
      have "\<exists>res w'. lzma_pull lib st' fd (drop k inp) (sz + r) w1 = Some (res, w') \<and> appends src fd w1 w' \<and>
        (\<forall>z e st'. res = Some (z, e, st') \<longrightarrow> ok st')"
        by (rule less(1)) (use co False True in simp_all)
      then show ?thesis using c wr True False appends_trans [OF ap] by (subst lzma_pull.simps) auto
    next
      case stop: False
      then show ?thesis using c wr False ap co(1) by (subst lzma_pull.simps) auto
    qed
  qed
qed

lemma lzma_pull_clean:
  assumes "decoder_ok lib ok work left decode" and "ok st" and "left st (inp @ rest) = Some all"
    and "clean w" and "at_end w fd"
  shows "\<exists>e st' w' new. lzma_pull lib st fd inp sz w = Some (Some (sz + int (length new), e, st'), w') \<and>
    clean w' \<and> data_of w' fd = data_of w fd @ new \<and>
    (e \<and> new = all \<or> \<not> e \<and> ok st' \<and> (\<exists>all'. all = new @ all' \<and> left st' rest = Some all'))"
  using assms(2-5)
proof (induction "work st (length inp)" arbitrary: st inp sz w all rule: less_induct)
  case less
  have code: "code_ok lib ok work" using assms(1) by (simp add: decoder_ok_def)
  show ?case
  proof (cases "inp = []")
    case True
    then show ?thesis using less by (auto simp: lzma_pull.simps)
  next
    case False
    obtain ret k out st' where c: "lzma_code lib st LZMA_RUN inp 4096 = (ret, k, out, st')" by (metis prod.exhaust)
    note co = code_okD [OF code less(2) _ _ c]
    have f: "ret = LZMA_STREAM_END \<and> out = all \<or>
        ret = LZMA_OK \<and> (\<exists>all'. all = out @ all' \<and> left st' (drop k inp @ rest) = Some all')"
      using assms(1) less(2,3) c False unfolding decoder_ok_def by (metis zero_less_numeral)
    let ?w1 = "append_fd fd out w"
    have wr: "sys_write fd out w = (int (length out), ?w1)" by (rule sys_write_appends [OF less(4,5)])
    note d1 = append_fd_data [OF less(5)]
    show ?thesis
    proof (cases "ret = LZMA_OK")
      case True
      then obtain all' where l: "all = out @ all'" "left st' (drop k inp @ rest) = Some all'" using f by auto
      have "\<exists>e st'' w' new. lzma_pull lib st' fd (drop k inp) (sz + int (length out)) ?w1 =
            Some (Some (sz + int (length out) + int (length new), e, st''), w') \<and>
          clean w' \<and> data_of w' fd = data_of ?w1 fd @ new \<and>
          (e \<and> new = all' \<or> \<not> e \<and> ok st'' \<and> (\<exists>a. all' = new @ a \<and> left st'' rest = Some a))"
        by (rule less(1)) (use co l True False less(4,5) append_fd_at_end in simp_all)
      then obtain e st'' w' new where
        "lzma_pull lib st' fd (drop k inp) (sz + int (length out)) ?w1 =
          Some (Some (sz + int (length (out @ new)), e, st''), w')"
        "clean w'" "data_of w' fd = data_of w fd @ (out @ new)"
        "e \<and> out @ new = all \<or> \<not> e \<and> ok st'' \<and> (\<exists>a. all = (out @ new) @ a \<and> left st'' rest = Some a)"
        using d1 l(1) by (auto simp: add.assoc)
      moreover from this(1) have "lzma_pull lib st fd inp sz w = Some (Some (sz + int (length (out @ new)), e, st''), w')"
        using c wr True False by (subst lzma_pull.simps) simp
      ultimately show ?thesis by blast
    next
      case end_reached: False
      then show ?thesis
        using c wr f d1 less(4) False by (subst lzma_pull.simps) auto
    qed
  qed
qed

lemma lzma_copy_total:
  assumes "code_ok lib ok work" and "ok st" and "at_end w dst" and "separate w d dst"
  shows "\<exists>r w'. lzma_copy lib st d dst sz w = Some (r, w') \<and>
    io_only (set_option (ino_of w dst)) w w' \<and> at_end w' dst"
  using assms(2-4)
proof (induction "length (rest_of w d)" arbitrary: st sz w rule: less_induct)
  case less
  obtain rd bs w1 where rd: "sys_read d 4096 w = ((rd, bs), w1)" by (metis prod.collapse)
  note sr = sys_read_rest [OF rd]
  note ae = repositioned_at_end [OF sr(1) less(4) less(3)]
  let ?D = "set_option (ino_of w dst)"
  have io1: "io_only ?D w w1" by (rule io_only_repositioned [OF sr(1)])
  show ?case
  proof (cases "rd > 0")
    case False
    then show ?thesis using rd io1 ae by (subst lzma_copy.simps) simp
  next
    case True
    obtain res w2 where p: "lzma_pull lib st dst bs sz w1 = Some (res, w2)" "appends d dst w1 w2"
      "\<forall>z e st'. res = Some (z, e, st') \<longrightarrow> ok st'"
      using lzma_pull_total [OF assms(1) less(2)] by blast
    have sep1: "separate w1 d dst" using io_only_separate [OF io1] less(4) by simp
    have ap: "io_only ?D w1 w2" "at_end w2 dst" "rest_of w2 d = rest_of w1 d"
      using p(2) ae sep1 io_only_ino_of [OF io1] by (auto simp: appends_def)
    have io2: "io_only ?D w w2" by (rule io_only_trans [OF io1 ap(1)])
    show ?thesis
    proof (cases "\<exists>z st'. res = Some (z, False, st')")
      case False
      then show ?thesis using rd True p(1) io2 ap(2) by (subst lzma_copy.simps) (auto split: option.split)
    next
      case go: True
      then obtain z st' where res: "res = Some (z, False, st')" by blast
      have ok': "ok st'" using p(3) res by blast
      have "length (rest_of w2 d) < length (rest_of w d)" using sr(2) True ap(3) by auto
      then have "\<exists>r w'. lzma_copy lib st' d dst z w2 = Some (r, w') \<and>
          io_only (set_option (ino_of w2 dst)) w2 w' \<and> at_end w' dst"
        by (rule less(1)) (use ok' ap(2) io_only_separate [OF io2] less(4) in simp_all)
      then show ?thesis
        using rd True p(1) res io_only_ino_of [OF io2] io_only_trans [OF io2] by (subst lzma_copy.simps) auto
    qed
  qed
qed

lemma lzma_copy_clean:
  assumes "decoder_ok lib ok work left decode" and "ok st" and "at_end w dst" and "separate w d dst"
    and "clean w" and "can_read w d" and "left st (rest_of w d) = Some all"
  shows "\<exists>w'. lzma_copy lib st d dst sz w = Some (sz + int (length all), w') \<and> clean w' \<and>
    data_of w' dst = data_of w dst @ all"
  using assms(2-7)
proof (induction "length (rest_of w d)" arbitrary: st sz w all rule: less_induct)
  case less
  have code: "code_ok lib ok work" using assms(1) by (simp add: decoder_ok_def)
  obtain rd bs w1 where rd: "sys_read d 4096 w = ((rd, bs), w1)" by (metis prod.collapse)
  note sr = sys_read_rest [OF rd]
  note cl = sys_read_clean [OF rd less(5,6)]
  note ae = repositioned_at_end [OF sr(1) less(4) less(3)]
  let ?D = "set_option (ino_of w dst)"
  have io1: "io_only ?D w w1" by (rule io_only_repositioned [OF sr(1)])
  have "rest_of w d \<noteq> []" using assms(1) less(2,7) by (auto simp: decoder_ok_def)
  then have pos: "rd > 0" using cl(1,2) by auto
  have split: "rest_of w d = bs @ rest_of w1 d" using cl(1,4) by (auto simp: min_def)
  obtain e st' w2 new where p: "lzma_pull lib st dst bs sz w1 = Some (Some (sz + int (length new), e, st'), w2)"
    "clean w2" "data_of w2 dst = data_of w1 dst @ new"
    "e \<and> new = all \<or> \<not> e \<and> ok st' \<and> (\<exists>all'. all = new @ all' \<and> left st' (rest_of w1 d) = Some all')"
    using lzma_pull_clean [OF assms(1) less(2) _ cl(3) ae(1), of bs "rest_of w1 d" all sz] less(7) split by auto
  have sep1: "separate w1 d dst" using io_only_separate [OF io1] less(4) by simp
  have "appends d dst w1 w2"
    using lzma_pull_total [OF code less(2), of dst bs sz w1 d] p(1) by auto
  then have ap: "io_only ?D w1 w2" "at_end w2 dst" "rest_of w2 d = rest_of w1 d"
    using ae sep1 io_only_ino_of [OF io1] by (auto simp: appends_def)
  have io2: "io_only ?D w w2" by (rule io_only_trans [OF io1 ap(1)])
  show ?case
  proof (cases e)
    case True
    then show ?thesis using rd pos p ae(2) by (subst lzma_copy.simps) auto
  next
    case False
    then obtain all' where a: "ok st'" "all = new @ all'" "left st' (rest_of w2 d) = Some all'" using p(4) ap(3) by auto
    have "bs \<noteq> []" using pos cl(2) by auto
    then have "length (rest_of w2 d) < length (rest_of w d)" using split ap(3) by simp
    then have "\<exists>w'. lzma_copy lib st' d dst (sz + int (length new)) w2 =
          Some (sz + int (length new) + int (length all'), w') \<and> clean w' \<and> data_of w' dst = data_of w2 dst @ all'"
      by (rule less(1))
        (use a ap(2) p(2) io_only_separate [OF io2] less(4,6) io_only_can_read [OF io2] in simp_all)
    then show ?thesis using rd pos p(1,3) False a(2) ae(2) by (subst lzma_copy.simps) (auto simp: add.assoc)
  qed
qed

section \<open>The module\<close>

lemma lzmaCompress_spec:
  assumes "encoder_ok lib ok work fed decode n" and "level_digit level = Some n"
    and "world_ok w" and "at_end w dst" and "separate w src dst"
  shows "\<exists>r g' w'. lzmaCompress lib level g src dst w = Some (r, g', w') \<and> may_cancel g g' \<and>
    io_only (set_option (ino_of w dst)) w w' \<and> at_end w' dst \<and>
    (clean w \<and> can_read w src \<longrightarrow> clean w' \<and>
      (CANCEL \<in> status g' \<or>
       r = int (length (rest_of w src)) \<and>
       (\<exists>enc. data_of w' dst = data_of w dst @ enc \<and> decode enc = Some (rest_of w src))))"
proof -
  have code: "code_ok lib ok work" using assms(1) by (simp add: encoder_ok_def)
  note sink = lzma_sink [OF assms(1)]
  obtain d w1 where du: "sys_dup dst w = (d, w1)" by fastforce
  obtain st where st: "easy_encoder lib n = (LZMA_OK, st)" "ok st" "fed st [] []"
    using assms(1) by (auto simp: encoder_ok_def)
  let ?D = "set_option (ino_of w dst)"
  note c1 = sys_dup_clean [OF _ _ du]
  show ?thesis
  proof (cases "d = -1")
    case True
    then have a: "agree w1 w" using sys_dup_spec [OF du] by auto
    show ?thesis
      using du True io_only_agree [OF a] agree_views(1) [OF a] assms(4) c1 separate_fds [OF assms(5)]
      by (auto simp: lzmaCompress_def)
  next
    case False
    note dd = dup_dest [OF du False assms(3-5)]
    obtain r st' g' w2 where l: "compress_loop (lzma_write lib) (\<lambda>wr. wr = -1) (st, d) g src 0 w1 = Some ((r, (st', d), g'), w2)"
      "ok st'" "may_cancel g g'" "io_only ?D w1 w2" "at_end w2 d"
      using sink_stream.compress_loop_total [OF sink, of "(st, d)" w1 src "\<lambda>wr. wr = -1" g 0] st(2) dd(1,2,5)
      by auto
    have run: "clean w2 \<and> (CANCEL \<in> status g' \<or> r = int (length (rest_of w src)) \<and>
        (\<exists>new. data_of w2 d = data_of w dst @ new \<and> fed st' (rest_of w src) new))"
      if "clean w" "can_read w src"
    proof -
      have "clean w1" using c1 that(1) separate_fds [OF assms(5)] by auto
      then have "\<exists>r s' f' w' new. compress_loop (lzma_write lib) (\<lambda>wr. wr = -1) (st, d) g src 0 w1 = Some ((r, s', f'), w') \<and>
          clean w' \<and> (CANCEL \<in> status f' \<or> r = 0 + int (length (rest_of w1 src)) \<and>
            data_of w' (snd (st, d)) = data_of w1 (snd (st, d)) @ new \<and>
            fed (fst s') ([] @ rest_of w1 src) ([] @ new))"
        by (intro sink_stream.compress_loop_clean [OF sink]) (use st dd that(2) in simp_all)
      then show ?thesis using l(1) dd(3,4) by auto
    qed
    show ?thesis
    proof (cases "r = -1")
      case True
      obtain c w3 where cl: "sys_close d w2 = (c, w3)" by fastforce
      have "lzmaCompress lib level g src dst w = Some (FAIL, g', w3)"
        using du False assms(2) st(1) l(1) True cl by (simp add: lzmaCompress_def)
      moreover have "clean w3 \<and> CANCEL \<in> status g'" if "clean w" "can_read w src"
        using run [OF that] True sys_close_clean [OF _ cl] by auto
      ultimately show ?thesis using l(3) dd(7) [OF l(4,5) fd_closed_sys_close [OF cl]] by auto
    next
      case go: False
      obtain t w3 where t: "lzma_tail lib st' d w2 = Some (t, w3)" "appends src d w2 w3"
        "clean w2 \<and> at_end w2 d \<longrightarrow> clean w3"
        using lzma_tail_total [OF code l(2)] by blast
      have s2: "separate w2 src d" using io_only_separate [OF l(4)] dd(2) by simp
      have a3: "io_only ?D w2 w3" "at_end w3 d"
        using t(2) l(5) s2 io_only_ino_of [OF l(4)] dd(5) by (simp_all add: appends_def)
      obtain c w4 where cl: "sys_close d w3 = (c, w4)" by fastforce
      note d4 = dd(7) [OF io_only_trans [OF l(4) a3(1)] a3(2) fd_closed_sys_close [OF cl]]
      have comp: "lzmaCompress lib level g src dst w = Some (case t of None \<Rightarrow> r | Some v \<Rightarrow> v, g', w4)"
        using du False assms(2) st(1) l(1) go t(1) cl by (simp add: lzmaCompress_def)
      have "clean w4 \<and> (CANCEL \<in> status g' \<or> t = None \<and> r = int (length (rest_of w src)) \<and>
          (\<exists>enc. data_of w4 dst = data_of w dst @ enc \<and> decode enc = Some (rest_of w src)))"
        if c: "clean w" "can_read w src"
      proof -
        note rn = run [OF c]
        have c4: "clean w4" using rn t(3) l(5) sys_close_clean [OF _ cl] by blast
        show ?thesis
        proof (cases "CANCEL \<in> status g'")
          case False
          then obtain new where n: "r = int (length (rest_of w src))" "data_of w2 d = data_of w dst @ new"
            "fed st' (rest_of w src) new" using rn by blast
          obtain w3' new2 where "lzma_tail lib st' d w2 = Some (None, w3')" "data_of w3' d = data_of w2 d @ new2"
            "decode (new @ new2) = Some (rest_of w src)"
            using lzma_tail_clean [OF assms(1) l(2) n(3) conjunct1 [OF rn] l(5)] by blast
          then show ?thesis using c4 n t(1) d4 by auto
        qed (use c4 in simp)
      qed
      then show ?thesis using comp d4 l(3) by auto
    qed
  qed
qed

lemma lzmaDecompress_spec:
  assumes "decoder_ok lib ok work left decode"
    and "world_ok w" and "at_end w dst" and "separate w src dst"
  shows "\<exists>r w'. lzmaDecompress lib src dst w = Some (r, w') \<and>
    io_only (set_option (ino_of w dst)) w w' \<and> at_end w' dst \<and>
    (clean w \<and> can_read w src \<longrightarrow> (\<forall>out. decode (rest_of w src) = Some out \<longrightarrow>
        r = int (length out) \<and> clean w' \<and> data_of w' dst = data_of w dst @ out))"
proof -
  have code: "code_ok lib ok work" using assms(1) by (simp add: decoder_ok_def)
  obtain st where st: "auto_decoder lib = (LZMA_OK, st)" "ok st" "left st = decode"
    using assms(1) unfolding decoder_ok_def by blast
  obtain d w1 where du: "sys_dup src w = (d, w1)" by fastforce
  note c1 = sys_dup_clean [OF _ _ du]
  show ?thesis
  proof (cases "d = -1")
    case True
    then have a: "agree w1 w" using sys_dup_spec [OF du] by auto
    show ?thesis
      using du True io_only_agree [OF a] agree_views(1) [OF a] assms(3) c1 separate_fds [OF assms(4)]
      by (auto simp: lzmaDecompress_def)
  next
    case False
    note dd = dup_source [OF du False assms(2-4)]
    obtain r w2 where l: "lzma_copy lib st d dst 0 w1 = Some (r, w2)" "io_only (set_option (ino_of w dst)) w1 w2"
      "at_end w2 dst"
      using lzma_copy_total [OF code st(2) dd(1,2), of 0] dd(5) by auto
    obtain c w3 where cl: "sys_close d w2 = (c, w3)" by fastforce
    note d3 = dd(7) [OF l(2,3) fd_closed_sys_close [OF cl]]
    have run: "lzmaDecompress lib src dst w = Some (r, w3)"
      using du False st(1) l(1) cl by (simp add: lzmaDecompress_def)
    have "r = int (length out) \<and> clean w3 \<and> data_of w3 dst = data_of w dst @ out"
      if "clean w" "can_read w src" "decode (rest_of w src) = Some out" for out
    proof -
      have "clean w1" using c1 that(1) separate_fds [OF assms(4)] by auto
      moreover have "can_read w1 d" "left st (rest_of w1 d) = Some out" using dd(3,6) st(3) that by simp_all
      ultimately obtain w2' where "lzma_copy lib st d dst 0 w1 = Some (0 + int (length out), w2')" "clean w2'"
        "data_of w2' dst = data_of w1 dst @ out"
        using lzma_copy_clean [OF assms(1) st(2) dd(1,2), of out 0] by blast
      then show ?thesis using l(1) d3 dd(4) sys_close_clean [OF _ cl] by auto
    qed
    then show ?thesis using run d3 by blast
  qed
qed

end
