(* ===== verification/ModuleProps.thy ===== *)
theory ModuleProps
  imports LibModules LzmaFacts Examples
begin

text \<open>
  Properties of the modules over libraries, with a library that stores its data as they are for the
  concrete inputs.
\<close>

section \<open>zlib and libbz2\<close>

text \<open>As \<open>gzwrite\<close> does, \<open>dwrite\<close> returns 0 when the data could not be written.\<close>

definition ex_ext :: ext_lib where
  "ex_ext =
     \<lparr>dopen = (\<lambda>fd mode w. (if fd < 0 then None else Some [nat fd], w)),
      dread = (\<lambda>s n w. let ((r, bs), w') = sys_read (int (hd s)) n w in ((r, bs, s), w')),
      dwrite = (\<lambda>s bs w. let (r, w') = sys_write (int (hd s)) bs w in ((if r < 0 then 0 else r, s), w')),
      dclose = (\<lambda>s w. sys_close (int (hd s)) w)\<rparr>"

lemma ex_ext_library:
  "stream_library (ext_read ex_ext) (ext_write ex_ext) (\<lambda>s. s \<noteq> []) (\<lambda>s. s \<noteq> []) (\<lambda>s. int (hd s)) (\<lambda>_. Some)
    (\<lambda>_. 0) (\<lambda>_ data bytes. bytes = data) (ext_open ex_ext) (\<lambda>s w. Some (dclose ex_ext s w)) Some (\<lambda>_. True)"
proof unfold_locales
  fix s s' :: "nat list" and w w' :: world and r bs
  assume s: "s \<noteq> []" and "ext_read ex_ext s w = Some ((r, bs, s'), w')"
  then have rd: "sys_read (int (hd s)) 4096 w = ((r, bs), w')" and s': "s' = s"
    by (auto simp: ex_ext_def split_beta prod_eq_iff)
  note sp = sys_read_rest [OF rd]
  show "s' \<noteq> [] \<and> int (hd s') = int (hd s) \<and> repositioned (int (hd s)) w w'" using s s' sp(1) by simp
  show "r = -1 \<or> r = int (length bs)" using sp(2) by auto
  show "Some (rest_of w (int (hd s))) = map_option ((@) bs) (Some (rest_of w' (int (hd s))))" if "0 < r"
    using sp(2) that by (auto simp: min_def)
  show "length (rest_of w' (int (hd s))) < length (rest_of w (int (hd s))) \<or>
      length (rest_of w' (int (hd s))) = length (rest_of w (int (hd s))) \<and> (0::nat) < 0" if "0 < r"
    using sp(2) that by auto
  show "r \<noteq> -1 \<and> clean w' \<and> can_read w' (int (hd s))" if "clean w" "can_read w (int (hd s))"
    using sys_read_clean [OF rd that] by simp
next
  fix s s' :: "nat list" and w w' :: world and bs
  assume "ext_read ex_ext s w = Some ((0, bs, s'), w')"
  then have "sys_read (int (hd s)) 4096 w = ((0, bs), w')"
    by (auto simp: ex_ext_def split_beta prod_eq_iff)
  from sys_read_rest(2) [OF this] show "Some (rest_of w (int (hd s))) = Some []" by auto
next
  fix s s' :: "nat list" and w w' :: world and bs r src
  assume s: "s \<noteq> []" and "ext_write ex_ext s bs w = Some ((r, s'), w')"
  then obtain q where wr: "sys_write (int (hd s)) bs w = (q, w')" and r: "r = (if q < 0 then 0 else q)"
    by (auto simp: ex_ext_def split_beta prod_eq_iff)
  show "appends src (int (hd s)) w w'" by (rule appends_sys_write [OF wr])
  show "r = int (length bs) \<and> clean w' \<and>
      (\<exists>new. data_of w' (int (hd s)) = data_of w (int (hd s)) @ new \<and> bytes @ new = data @ bs)"
    if "clean w" "at_end w (int (hd s))" "bytes = data" for data bytes
    using wr r sys_write_appends [OF that(1,2)] append_fd_data [OF that(2)] that by auto
next
  fix s :: "nat list" and w :: world and src
  obtain r w' where cl: "sys_close (int (hd s)) w = (r, w')" by fastforce
  then have "Some (dclose ex_ext s w) = Some (r, w')" by (simp add: ex_ext_def)
  then show "\<exists>r w'. Some (dclose ex_ext s w) = Some (r, w') \<and> fd_closed (int (hd s)) w w' \<and> (clean w \<longrightarrow> clean w')"
    and "\<exists>r w1 w'. Some (dclose ex_ext s w) = Some (r, w') \<and> appends src (int (hd s)) w w1 \<and>
      fd_closed (int (hd s)) w1 w' \<and> (clean w \<and> at_end w (int (hd s)) \<longrightarrow> clean w' \<and>
        (\<forall>data bytes. bytes = data \<longrightarrow>
          (\<exists>new. data_of w1 (int (hd s)) = data_of w (int (hd s)) @ new \<and> Some (bytes @ new) = Some data)))"
    using fd_closed_sys_close [OF cl] sys_close_clean [OF _ cl] by (auto intro!: exI [of _ w])
qed (auto simp: ex_ext_def split_beta split: if_splits)

text \<open>The results of the library's close are not used, so both modules rest on the same contract.\<close>

lemma gz_library:
  assumes "stream_library rd wr rok wok fd left buffered stored op (\<lambda>s w. Some (dclose lib s w)) decode ready"
  shows "stream_library rd wr rok wok fd left buffered stored op (\<lambda>s w. Some (gzClose lib s w)) decode ready"
proof -
  have close: "\<exists>r. gzClose lib s w = (r, w')" if "dclose lib s w = (q, w')" for s w q w'
    using that by (simp add: gzClose_def)
  from assms show ?thesis
    unfolding stream_library_def stream_library_axioms_def option.inject
    by (elim conjE, intro conjI) (assumption | metis close)+
qed

lemma gz_bz2_codec:
  assumes "stream_library (ext_read lib) (ext_write lib) rok wok fd left buffered stored
    (ext_open lib) (\<lambda>s w. Some (dclose lib s w)) decode ready"
  shows "codec_module (gzDecompress lib) decode (gzCompress lib level) (ready level)"
    and "codec_module (bz2Decompress lib) decode (bz2Compress lib level) (ready level)"
  unfolding gzCompress_stream gzDecompress_stream bz2Compress_stream bz2Decompress_stream
  by (rule stream_library.codec [OF gz_library [OF assms]], simp)
    (rule stream_library.codec [OF assms], simp)

text \<open>
  C33: The gzip and bzip2 modules compress without loss. Given libraries that keep their contract,
  compression without faults reads the whole source, unless it is told to stop, and appends a
  stream; and decompressing a file that holds this stream appends the original bytes.
\<close>

theorem gz_bz2_roundtrip:
  assumes "stream_library (ext_read lib) (ext_write lib) rok wok fd left buffered stored
      (ext_open lib) (\<lambda>s w. Some (dclose lib s w)) decode ready" and "ready level"
    and "(cmp, dec) \<in> {(gzCompress lib level, gzDecompress lib), (bz2Compress lib level, bz2Decompress lib)}"
    and "world_ok w" and "at_end w dst" and "separate w src dst" and "clean w" and "can_read w src"
    and "world_ok v" and "at_end v out" and "separate v inp out" and "clean v" and "can_read v inp"
  shows "\<exists>r f' w'. cmp f src dst w = Some (r, f', w') \<and> may_cancel f f' \<and>
    (CANCEL \<in> status f' \<or> r = int (length (rest_of w src)) \<and>
      (\<exists>enc. data_of w' dst = data_of w dst @ enc \<and>
        (enc = rest_of v inp \<longrightarrow> (\<exists>v'. dec inp out v = Some (int (length (rest_of w src)), v') \<and>
           data_of v' out = data_of v out @ rest_of w src))))"
proof -
  have c: "codec_module dec decode cmp True"
    using assms(2,3) gz_bz2_codec [OF assms(1), of level] by auto
  note comp = compress_module.comp_total [OF codec_module.axioms(2) [OF c] TrueI assms(4-6), of f]
    compress_module.comp_clean [OF codec_module.axioms(2) [OF c] TrueI assms(4-6), of f]
  obtain r f' w' where run: "cmp f src dst w = Some (r, f', w')" "may_cancel f f'" using comp(1) by blast
  note res = comp(2) [OF run(1) assms(7,8)]
  have "\<exists>v'. dec inp out v = Some (int (length p), v') \<and> data_of v' out = data_of v out @ p"
    if "decode (rest_of v inp) = Some p" for p
  proof -
    note d = codec_module.axioms(1) [OF c]
    obtain q v' where q: "dec inp out v = Some (q, v')"
      using decompress_module.dec_total [OF d assms(9-11)] by blast
    have "q = int (length p)" using decompress_module.dec_clean [OF d assms(9-11) q assms(12,13) that] by simp
    then show ?thesis using q decompress_module.dec_result [OF d assms(9-11) q] that by auto
  qed
  then show ?thesis using run res by fastforce
qed

theorem gz_bz2_roundtrip_witness:
  "\<exists>r f' w'. bz2Compress ex_ext ''wb6'' ex_file 3 4 (ex_fds [1, 2, 3]) = Some (r, f', w') \<and> may_cancel ex_file f' \<and>
    (CANCEL \<in> status f' \<or> r = 3 \<and>
      (\<exists>enc. data_of w' 4 = enc \<and>
        (enc = [1, 2, 3] \<longrightarrow> (\<exists>v'. bz2Decompress ex_ext 3 4 (ex_fds [1, 2, 3]) = Some (3, v') \<and> data_of v' 4 = [1, 2, 3]))))"
  using gz_bz2_roundtrip [OF ex_ext_library TrueI, of "bz2Compress ex_ext ''wb6''" "bz2Decompress ex_ext" "''wb6''"
      "ex_fds [1, 2, 3]" 4 3 "ex_fds [1, 2, 3]" 4 3 ex_file]
  by (simp add: ex_fds_world)

section \<open>Errors of zlib\<close>



section \<open>liblzma\<close>

text \<open>
  A library for the concrete inputs. Its format has a 1 before each byte and ends with a 0. A state
  begins with 0 for the encoder and 1 for the decoder; then comes the byte of which only the 1 is
  out, or a mark that the 1 has been read.
\<close>

fun ex_lzma_decode :: "byte list \<Rightarrow> byte list option" where
  "ex_lzma_decode [] = None"
| "ex_lzma_decode (x # xs) =
     (if x = 0 then Some [] else if x = 1 then (case xs of [] \<Rightarrow> None | b # ys \<Rightarrow> map_option ((#) b) (ex_lzma_decode ys)) else None)"

fun ex_lzma_code :: "nat list \<Rightarrow> lzma_action \<Rightarrow> byte list \<Rightarrow> int \<times> nat \<times> byte list \<times> nat list" where
  "ex_lzma_code [0] LZMA_RUN (b # inp) = (LZMA_OK, 1, [1], [0, unat b])"
| "ex_lzma_code [0] LZMA_FINISH inp = (LZMA_STREAM_END, 0, [0], [0])"
| "ex_lzma_code [0, b] a inp = (LZMA_OK, 0, [of_nat b], [0])"
| "ex_lzma_code [Suc 0] LZMA_RUN (x # inp) =
     (if x = 0 then (LZMA_STREAM_END, 1, [], [1]) else if x = 1 then (LZMA_OK, 1, [], [1, 1]) else (9, 0, [], [1]))"
| "ex_lzma_code [Suc 0, m] LZMA_RUN (x # inp) = (LZMA_OK, 1, [x], [1])"
| "ex_lzma_code st a inp = (9, 0, [], st)"

definition ex_lzma :: lzma_lib where
  "ex_lzma = \<lparr>easy_encoder = (\<lambda>_. (LZMA_OK, [0])), auto_decoder = (LZMA_OK, [1]),
     lzma_code = (\<lambda>st a inp n. ex_lzma_code st a inp)\<rparr>"

definition ex_lzma_left :: "nat list \<Rightarrow> byte list \<Rightarrow> byte list option" where
  "ex_lzma_left st bs =
     (if length st = 1 then ex_lzma_decode bs else (case bs of [] \<Rightarrow> None | b # ys \<Rightarrow> map_option ((#) b) (ex_lzma_decode ys)))"

definition ex_lzma_fed :: "nat list \<Rightarrow> byte list \<Rightarrow> byte list \<Rightarrow> bool" where
  "ex_lzma_fed st data bytes \<longleftrightarrow>
     (if length st = 1 then bytes = concat (map (\<lambda>b. [1, b]) data)
      else \<exists>d. data = d @ [of_nat (st ! 1)] \<and> bytes = concat (map (\<lambda>b. [1, b]) d) @ [1])"

lemma ex_lzma_decode_end: "ex_lzma_decode (concat (map (\<lambda>b. [1, b]) data) @ [0]) = Some data"
  by (induction data) auto

definition ex_enc_state :: "nat list \<Rightarrow> bool" where
  "ex_enc_state st \<longleftrightarrow> st = [0] \<or> (\<exists>b. st = [0, b])"

definition ex_dec_state :: "nat list \<Rightarrow> bool" where
  "ex_dec_state st \<longleftrightarrow> st = [1] \<or> (\<exists>m. st = [1, m])"

lemma ex_code:
  "lzma_code ex_lzma st a inp n = ex_lzma_code st a inp"
  by (simp add: ex_lzma_def)

lemma ex_enc_code_ok: "code_ok ex_lzma ex_enc_state (\<lambda>st m. 2 * m + length st)"
  unfolding code_ok_def ex_code
proof (intro allI impI)
  fix st a inp ret k out st' and n :: nat
  assume "ex_enc_state st" and n: "0 < n" and i: "a = LZMA_RUN \<longrightarrow> inp \<noteq> []"
    and c: "ex_lzma_code st a inp = (ret, k, out, st')"
  then consider "st = [0]" | b where "st = [0, b]" by (auto simp: ex_enc_state_def)
  then show "ex_enc_state st' \<and> length out \<le> n \<and>
      (ret = LZMA_OK \<longrightarrow> 2 * (length inp - k) + length st' < 2 * length inp + length st)"
  proof cases
    case 1
    then show ?thesis using n i c by (cases a; cases inp) (auto simp: ex_enc_state_def)
  next
    case 2
    then show ?thesis using n c by (auto simp: ex_enc_state_def)
  qed
qed

lemma ex_dec_code_ok: "code_ok ex_lzma ex_dec_state (\<lambda>st m. 2 * m + length st)"
  unfolding code_ok_def ex_code
proof (intro allI impI)
  fix st a inp ret k out st' and n :: nat
  assume "ex_dec_state st" and n: "0 < n" and i: "a = LZMA_RUN \<longrightarrow> inp \<noteq> []"
    and c: "ex_lzma_code st a inp = (ret, k, out, st')"
  then consider "st = [Suc 0]" | m where "st = [Suc 0, m]" by (auto simp: ex_dec_state_def)
  then show "ex_dec_state st' \<and> length out \<le> n \<and>
      (ret = LZMA_OK \<longrightarrow> 2 * (length inp - k) + length st' < 2 * length inp + length st)"
  proof cases
    case 1
    then show ?thesis using n i c
      by (cases a; cases inp) (auto simp: ex_dec_state_def LZMA_OK_def split: if_splits)
  next
    case 2
    then show ?thesis using n i c by (cases a; cases inp) (auto simp: ex_dec_state_def LZMA_OK_def)
  qed
qed

lemma ex_encoder_ok:
  "encoder_ok ex_lzma ex_enc_state (\<lambda>st m. 2 * m + length st) ex_lzma_fed ex_lzma_decode n"
  unfolding encoder_ok_def ex_code
proof (intro conjI allI impI)
  show "\<exists>st. easy_encoder ex_lzma n = (LZMA_OK, st) \<and> ex_enc_state st \<and> ex_lzma_fed st [] []"
    by (simp add: ex_lzma_def ex_enc_state_def ex_lzma_fed_def)
next
  fix st data bytes inp k out st' and n :: nat and ret
  assume s: "ex_enc_state st" and f: "ex_lzma_fed st data bytes" and i: "inp \<noteq> ([] :: byte list)"
    and c: "ex_lzma_code st LZMA_RUN inp = (ret, k, out, st')"
  obtain b us where inp: "inp = b # us" using i by (cases inp) auto
  from s consider "st = [0]" | b where "st = [0, b]" by (auto simp: ex_enc_state_def)
  then show "ret = LZMA_OK" and "ex_lzma_fed st' (data @ take k inp) (bytes @ out)"
    by (cases; use f c in \<open>auto simp: inp ex_lzma_fed_def\<close>)+
next
  fix st data bytes k out st' and n :: nat and ret
  assume s: "ex_enc_state st" and f: "ex_lzma_fed st data bytes"
    and c: "ex_lzma_code st LZMA_FINISH [] = (ret, k, out, st')"
  from s consider "st = [0]" | b where "st = [0, b]" by (auto simp: ex_enc_state_def)
  then show "ret = LZMA_OK \<and> ex_lzma_fed st' data (bytes @ out) \<or>
      ret = LZMA_STREAM_END \<and> ex_lzma_decode (bytes @ out) = Some data"
    by (cases; use f c in \<open>auto simp: ex_lzma_fed_def ex_lzma_decode_end\<close>)
qed (rule ex_enc_code_ok)

lemma ex_decoder_ok:
  "decoder_ok ex_lzma ex_dec_state (\<lambda>st m. 2 * m + length st) ex_lzma_left ex_lzma_decode"
  unfolding decoder_ok_def ex_code
proof (intro conjI allI impI)
  show "\<exists>st. auto_decoder ex_lzma = (LZMA_OK, st) \<and> ex_dec_state st \<and> ex_lzma_left st = ex_lzma_decode"
    by (simp add: ex_lzma_def ex_dec_state_def ex_lzma_left_def fun_eq_iff)
  show "ex_lzma_left st [] = None" for st by (simp add: ex_lzma_left_def)
next
  fix st inp rest all k out st' and n :: nat and ret
  assume s: "ex_dec_state st" and i: "inp \<noteq> []" and l: "ex_lzma_left st (inp @ rest) = Some all"
    and c: "ex_lzma_code st LZMA_RUN inp = (ret, k, out, st')"
  obtain x us where inp: "inp = x # us" using i by (cases inp) auto
  from s consider "st = [Suc 0]" | m where "st = [Suc 0, m]" by (auto simp: ex_dec_state_def)
  then show "ret = LZMA_STREAM_END \<and> out = all \<or>
      ret = LZMA_OK \<and> (\<exists>all'. all = out @ all' \<and> ex_lzma_left st' (drop k inp @ rest) = Some all')"
    by (cases; use l c in \<open>auto simp: inp ex_lzma_left_def split: if_splits\<close>)
qed (rule ex_dec_code_ok)

text \<open>
  C35: The LZMA module compresses without loss. Given a library that works as liblzma documents,
  both routines return, whatever fails, and change nothing but the destination. Without faults,
  compression reads the whole source, unless it is told to stop, and appends a stream that decodes
  to it; and decompression of a complete stream appends what it decodes to.
\<close>

theorem lzma_roundtrip:
  assumes "encoder_ok lib eok ework fed decode n" and "decoder_ok lib dok dwork left decode"
    and "level_digit level = Some n"
    and "world_ok w" and "at_end w dst" and "separate w src dst"
  shows "(\<exists>r f' w'. lzmaCompress lib level f src dst w = Some (r, f', w') \<and> may_cancel f f' \<and>
      io_only (set_option (ino_of w dst)) w w' \<and>
      (clean w \<and> can_read w src \<longrightarrow> CANCEL \<in> status f' \<or>
        r = int (length (rest_of w src)) \<and>
        (\<exists>enc. data_of w' dst = data_of w dst @ enc \<and> decode enc = Some (rest_of w src)))) \<and>
    (\<exists>r w'. lzmaDecompress lib src dst w = Some (r, w') \<and> io_only (set_option (ino_of w dst)) w w' \<and>
      (clean w \<and> can_read w src \<longrightarrow> (\<forall>out. decode (rest_of w src) = Some out \<longrightarrow>
        r = int (length out) \<and> data_of w' dst = data_of w dst @ out)))"
  using lzmaCompress_spec [OF assms(1,3-6), of f] lzmaDecompress_spec [OF assms(2,4-6)] by blast

theorem lzma_roundtrip_witness:
  "\<exists>r w'. lzmaDecompress ex_lzma 3 4 (ex_fds [1, 7, 1, 8, 0]) = Some (r, w') \<and> r = 2 \<and> data_of w' 4 = [7, 8]"
  using lzma_roundtrip [OF ex_encoder_ok ex_decoder_ok, of "''wb6''" 6 "ex_fds [1, 7, 1, 8, 0]" 4 3 ex_file]
  by (auto simp: ex_fds_world level_digit_def of_char_of)

end
