(* ===== verification/Direct.thy ===== *)
theory Direct
  imports Compress "HOL-Library.Signed_Division"
begin

text \<open>
  Reading and writing an open file through its compressor (\<open>direct_decompress\<close> and
  \<open>direct_compress\<close> of \<^verbatim>\<open>direct_compress.c\<close>).

  A descriptor is named by its \<open>d_id\<close>, which stands for its address; it lives in the list
  \<open>head\<close> of its file. The user's buffer is the list of bytes put into it so far. \<open>None\<close>: a
  failed assertion, an access outside the cache's table, a copy of bytes of a page that were never
  written, more bytes than the user's buffer holds, or a wait for a decompression to end
  (\<open>do_decompress\<close> keeps the file's lock, so nobody ever finds DECOMPRESSING set).
\<close>

section \<open>Descriptors\<close>

definition find_desc :: "nat \<Rightarrow> file_t \<Rightarrow> descriptor_t option" where
  "find_desc d f = find (\<lambda>x. d_id x = d) (head f)"

definition put_desc :: "descriptor_t \<Rightarrow> file_t \<Rightarrow> file_t" where
  "put_desc x f = f\<lparr>head := map (\<lambda>y. if d_id y = d_id x then x else y) (head f)\<rparr>"

section \<open>The cache of decompressed pages\<close>

abbreviation page_size :: int where
  "page_size \<equiv> int DC_PAGE_SIZE"

definition page_no :: "off \<Rightarrow> nat" where
  "page_no offset = nat (offset div page_size)"

text \<open>\<open>file->cache && file->cache_size > offset / DC_PAGE_SIZE && file->cache[offset / DC_PAGE_SIZE]\<close>\<close>

definition page_cached :: "file_t \<Rightarrow> off \<Rightarrow> bool" where
  "page_cached f offset =
     (case cache f of
        None \<Rightarrow> False
      | Some ps \<Rightarrow> page_no offset < length ps \<and> ps ! page_no offset \<noteq> None)"

text \<open>
  The loop that serves pages from the cache and frees them: \<open>n\<close> pages are wanted, from page \<open>i\<close>
  on. It does not look at the size of the table.
\<close>

fun serve_pages :: "nat \<Rightarrow> nat \<Rightarrow> byte list \<Rightarrow> file_t \<Rightarrow> world \<Rightarrow> (nat \<times> nat \<times> byte list \<times> file_t \<times> world) option" where
  "serve_pages 0 i buf f w = Some (0, i, buf, f, w)"
| "serve_pages (Suc n) i buf f w = do {
     ps \<leftarrow> cache f;
     assert (i < length ps);
     case ps ! i of
       None \<Rightarrow> Some (Suc n, i, buf, f, w)
     | Some page \<Rightarrow> do {
         assert (length page = DC_PAGE_SIZE);
         serve_pages n (i + 1) (buf @ page) (f\<lparr>cache := Some (ps[i := None])\<rparr>)
           (w\<lparr>decomp_cache_size := decomp_cache_size w - page_size\<rparr>)
       }
   }"

section \<open>direct_decompress\<close>

definition bytes_to_skip :: "off \<Rightarrow> off \<Rightarrow> off" where
  "bytes_to_skip cur req = (if req \<ge> cur then req - cur else req)"

definition must_fall_back :: "config \<Rightarrow> bool \<Rightarrow> file_t \<Rightarrow> descriptor_t \<Rightarrow> off \<Rightarrow> world \<Rightarrow> bool" where
  "must_fall_back cfg caching f x offset w \<longleftrightarrow>
     ftype f \<noteq> READ \<or>
     (\<not> caching \<or> decomp_cache_size w \<ge> max_decomp_cache_size cfg \<or>
      bytes_to_skip (d_offset x) offset > max_decomp_cache_size cfg - decomp_cache_size w) \<and>
     \<not> read_only cfg \<and>
     skipped f + bytes_to_skip (d_offset x) offset > fsize f \<and> fsize f > 131072 \<and> offset \<noteq> d_offset x"

text \<open>The file is decompressed and read with \<open>pread\<close>.\<close>

definition decompress_fallback ::
  "config \<Rightarrow> file_t \<Rightarrow> nat \<Rightarrow> byte list \<Rightarrow> nat \<Rightarrow> off \<Rightarrow> world \<Rightarrow> (int \<times> byte list \<times> file_t \<times> world) option" where
  "decompress_fallback cfg f d buf len0 offset w = do {
     (ok, f, w) \<leftarrow> do_decompress cfg f w;
     if \<not> ok then Some (FAIL, buf, f, w)
     else do {
       let f = f\<lparr>fsize := -1, skipped := 0\<rparr>;
       x \<leftarrow> find_desc d f;
       let ((ret, bs), w) = sys_pread (d_fd x) len0 offset w;
       if ret < 0 then Some (ret, buf, f, w)
       else Some (int (length buf) + ret, buf @ bs, f, w)
     }
   }"

text \<open>
  Going back: the stream is closed and the descriptor put after the header. The result says
  whether that worked.
\<close>

definition rewind_stream ::
  "compressor_t \<Rightarrow> descriptor_t \<Rightarrow> off \<Rightarrow> world \<Rightarrow> (bool \<times> descriptor_t \<times> world) option" where
  "rewind_stream m x offset w =
     (if offset < d_offset x then do {
        h \<leftarrow> d_handle x;
        (ret, w) \<leftarrow> cclose m h w;
        if ret < 0 then Some (False, x, w)
        else do {
          let x = x\<lparr>d_offset := 0, d_handle := None\<rparr>;
          let (ret, w) = sys_lseek (d_fd x) (int sizeof_header) SEEK_SET w;
          Some (ret = int sizeof_header, x, w)
        }
      }
      else Some (True, x, w))"

definition open_stream :: "compressor_t \<Rightarrow> descriptor_t \<Rightarrow> world \<Rightarrow> (bool \<times> descriptor_t \<times> world) option" where
  "open_stream m x w =
     (case d_handle x of
        Some h \<Rightarrow> Some (True, x, w)
      | None \<Rightarrow> do {
          assert (d_offset x = 0);
          let (fd, w) = sys_dup (d_fd x) w;
          (h, w) \<leftarrow> copen m fd ''rb'' w;
          Some (h \<noteq> None, x\<lparr>d_handle := h\<rparr>, w)
        })"

text \<open>
  Skipping: \<open>toread\<close> bytes are read, into new pages of the cache or into the user's buffer, which
  has room for \<open>room\<close> bytes. A result inside is the value to return at once.
\<close>

definition EIO_FAIL :: "world \<Rightarrow> world" where
  "EIO_FAIL w = w\<lparr>errno := EIO\<rparr>"

text \<open>Whether the next piece goes to a new page: \<open>None\<close> if the table of pages has no such entry.\<close>

definition caches_here :: "config \<Rightarrow> bool \<Rightarrow> file_t \<Rightarrow> off \<Rightarrow> world \<Rightarrow> bool option" where
  "caches_here cfg caching f offset w =
     (if \<not> caching then Some False
      else do {
        ps \<leftarrow> cache f;
        assert (page_no offset < length ps);
        Some (ps ! page_no offset = None \<and> decomp_cache_size w < max_decomp_cache_size cfg)
      })"

definition cache_page :: "off \<Rightarrow> byte list \<Rightarrow> file_t \<Rightarrow> file_t" where
  "cache_page offset bs f = f\<lparr>cache := map_option (\<lambda>ps. ps[page_no offset := Some bs]) (cache f)\<rparr>"

partial_function (option) skip_loop ::
  "config \<Rightarrow> compressor_t \<Rightarrow> bool \<Rightarrow> nat \<Rightarrow> handle \<Rightarrow> off \<Rightarrow> nat \<Rightarrow> file_t \<Rightarrow> world \<Rightarrow>
   ((int option \<times> handle \<times> off \<times> file_t) \<times> world) option" where
  [code]: "skip_loop cfg m caching room h offset toread f w =
     (if toread = 0 then Some ((None, h, offset, f), w)
      else do {
        let readsize = min toread DC_PAGE_SIZE;
        new \<leftarrow> caches_here cfg caching f offset w;
        let w = (if new then w\<lparr>decomp_cache_size := decomp_cache_size w + page_size\<rparr> else w);
        ((len, bs, h), w) \<leftarrow> cread m h readsize w;
        assert (new \<or> length bs \<le> room);
        if len < 0 then Some ((Some (-1), h, offset, f), EIO_FAIL w)
        else if len < int readsize \<and> (fsize f = -1 \<or> offset + len < fsize f)
        then Some ((Some (-1), h, offset, f), EIO_FAIL w)
        else if len = 0 then Some ((Some 0, h, offset, f), w)
        else do {
          let f = (if new then cache_page offset bs f else f\<lparr>skipped := skipped f + len\<rparr>);
          skip_loop cfg m caching room h (offset + len) (toread - nat len) f w
        }
      })"

text \<open>
  The division of a negative size truncates; a negative number of pages fails to be allocated,
  which is not modelled (\<open>nat\<close> makes it an empty table).
\<close>

definition alloc_cache :: "file_t \<Rightarrow> file_t" where
  "alloc_cache f =
     (if cache f = None
      then f\<lparr>cache := Some (replicate (nat (fsize f sdiv page_size + 1)) None)\<rparr>
      else f)"

definition skip_forward ::
  "config \<Rightarrow> compressor_t \<Rightarrow> bool \<Rightarrow> nat \<Rightarrow> handle \<Rightarrow> off \<Rightarrow> off \<Rightarrow> file_t \<Rightarrow> world \<Rightarrow>
   ((int option \<times> handle \<times> off \<times> file_t) \<times> world) option" where
  "skip_forward cfg m caching room h cur offset f w =
     (if offset > cur then do {
        let caching = (caching \<and> \<not> offset - cur > max_decomp_cache_size cfg - decomp_cache_size w);
        let f = (if caching then alloc_cache f else f);
        skip_loop cfg m caching room h cur (nat (offset - cur)) f w
      }
      else Some ((None, h, cur, f), w))"

text \<open>How much to read: up to the end of the file, in the unsigned arithmetic of C.\<close>

definition clamp_size :: "off \<Rightarrow> off \<Rightarrow> nat \<Rightarrow> nat" where
  "clamp_size fsz cur len0 =
     (if fsz \<noteq> -1 \<and> u64_of_off cur + of_nat len0 > u64_of_off fsz
      then unat (u64_of_off (fsz - cur)) else len0)"

text \<open>From the closing of the stream on; \<open>x\<close> is the descriptor.\<close>

definition read_stream ::
  "config \<Rightarrow> compressor_t \<Rightarrow> bool \<Rightarrow> file_t \<Rightarrow> descriptor_t \<Rightarrow> byte list \<Rightarrow> nat \<Rightarrow> off \<Rightarrow> world \<Rightarrow>
   (int \<times> byte list \<times> file_t \<times> world) option" where
  "read_stream cfg m caching f x buf len0 offset w = do {
     (ok, x, w) \<leftarrow> rewind_stream m x offset w;
     if \<not> ok then Some (FAIL, buf, put_desc x f, w)
     else do {
       (ok, x, w) \<leftarrow> open_stream m x w;
       if \<not> ok then Some (FAIL, buf, put_desc x f, w)
       else do {
         h \<leftarrow> d_handle x;
         ((ret, h, cur, f), w) \<leftarrow> skip_forward cfg m caching len0 h (d_offset x) offset f w;
         let x = x\<lparr>d_handle := Some h, d_offset := cur\<rparr>;
         case ret of
           Some r \<Rightarrow> Some (r, buf, put_desc x f, w)
         | None \<Rightarrow> do {
             let n = clamp_size (fsize f) cur len0;
             ((len, bs, h), w) \<leftarrow> cread m h n w;
             assert (length bs \<le> len0);
             let x = x\<lparr>d_handle := Some h\<rparr>;
             if len < int n then Some (-1, buf, put_desc x f, EIO_FAIL w)
             else Some (len + int (length buf), buf @ bs, put_desc (x\<lparr>d_offset := cur + len\<rparr>) f, w)
           }
       }
     }
   }"

definition direct_decompress ::
  "config \<Rightarrow> file_t \<Rightarrow> nat \<Rightarrow> nat \<Rightarrow> off \<Rightarrow> world \<Rightarrow> (int \<times> byte list \<times> file_t \<times> world) option" where
  "direct_decompress cfg f d len0 offset w = do {
     c \<leftarrow> fcompressor f;
     m \<leftarrow> module_of cfg c;
     x \<leftarrow> find_desc d f;
     assert (d_fd x \<noteq> -1);
     assert (DECOMPRESSING \<notin> status f);
     let caching = (cache_decompressed_data cfg \<and> offset mod page_size = 0 \<and> len0 mod DC_PAGE_SIZE = 0);
     let f = (if ftype f = TYPE_NONE then f\<lparr>ftype := READ\<rparr> else f);
     (n, i, buf, f, w) \<leftarrow>
       (if caching \<and> ftype f = READ \<and> page_cached f offset
        then serve_pages (len0 div DC_PAGE_SIZE) (page_no offset) [] f w
        else Some (1, 0, [], f, w));
     let len0 = len0 - length buf;
     let offset = offset + int (length buf);
     if n = 0 then Some (int (length buf), buf, f, w)
     else if must_fall_back cfg caching f x offset w
     then decompress_fallback cfg f d buf len0 offset w
     else read_stream cfg m caching f x buf len0 offset w
   }"

section \<open>direct_compress\<close>

definition compress_fallback ::
  "config \<Rightarrow> file_t \<Rightarrow> nat \<Rightarrow> byte list \<Rightarrow> off \<Rightarrow> world \<Rightarrow> (int \<times> file_t \<times> world) option" where
  "compress_fallback cfg f d buf offset w = do {
     (ok, f, w) \<leftarrow> do_decompress cfg f w;
     if \<not> ok then Some (FAIL, f, w)
     else do {
       let f = f\<lparr>fsize := -1\<rparr>;
       x \<leftarrow> find_desc d f;
       let (ret, w) = sys_pwrite (d_fd x) buf offset w;
       Some (ret, f, w)
     }
   }"

text \<open>The first write: the header, and a new stream after it.\<close>

definition start_stream ::
  "config \<Rightarrow> compressor_t \<Rightarrow> file_t \<Rightarrow> descriptor_t \<Rightarrow> world \<Rightarrow> (bool \<times> descriptor_t \<times> world) option" where
  "start_stream cfg m f x w =
     (case d_handle x of
        Some h \<Rightarrow> Some (True, x, w)
      | None \<Rightarrow> do {
          assert (fsize f = 0);
          assert (d_offset x = 0);
          let (r, w) = sys_lseek (d_fd x) 0 SEEK_SET w;
          if r < 0 then Some (False, x, w)
          else do {
            (ret, w) \<leftarrow> file_write_header (d_fd x) m (fsize f) w;
            if ret = FAIL then Some (False, x, w)
            else do {
              let (fd, w) = sys_dup (d_fd x) w;
              (h, w) \<leftarrow> copen m fd (compresslevel cfg) w;
              Some (h \<noteq> None, x\<lparr>d_handle := h\<rparr>, w)
            }
          }
        })"

definition write_stream ::
  "compressor_t \<Rightarrow> file_t \<Rightarrow> descriptor_t \<Rightarrow> byte list \<Rightarrow> world \<Rightarrow> (int \<times> file_t \<times> world) option" where
  "write_stream m f x buf w = do {
     h \<leftarrow> d_handle x;
     ((len, h), w) \<leftarrow> cwrite m h buf w;
     let x = x\<lparr>d_handle := Some h\<rparr>;
     if len = FAIL then Some (FAIL, put_desc x f, w)
     else do {
       let x = x\<lparr>d_offset := d_offset x + len\<rparr>;
       let f = put_desc x (f\<lparr>fsize := d_offset x\<rparr>);
       let (r, w) = sys_lseek (d_fd x) 0 SEEK_SET w;
       if r = FAIL then Some (FAIL, f, w)
       else do {
         (ret, w) \<leftarrow> file_write_header (d_fd x) m (fsize f) w;
         if ret = FAIL then Some (FAIL, f, w)
         else do {
           let (r, w) = sys_lseek (d_fd x) 0 SEEK_END w;
           if r = FAIL then Some (FAIL, f, w) else Some (len, f, w)
         }
       }
     }
   }"

definition direct_compress ::
  "config \<Rightarrow> file_t \<Rightarrow> nat \<Rightarrow> byte list \<Rightarrow> off \<Rightarrow> world \<Rightarrow> (int \<times> file_t \<times> world) option" where
  "direct_compress cfg f d buf offset w = do {
     c \<leftarrow> fcompressor f;
     m \<leftarrow> module_of cfg c;
     x \<leftarrow> find_desc d f;
     assert (d_fd x \<noteq> -1);
     assert (\<not> read_only cfg);
     let (f, w) = flush_file_cache f w;
     assert (DECOMPRESSING \<notin> status f);
     let f = (if ftype f = TYPE_NONE then f\<lparr>ftype := WRITE\<rparr> else f);
     if d_offset x \<noteq> fsize f \<or> d_offset x \<noteq> offset \<or> ftype f \<noteq> WRITE \<or> accesses f > 1
     then compress_fallback cfg f d buf offset w
     else do {
       (ok, x, w) \<leftarrow> start_stream cfg m f x w;
       if \<not> ok then Some (FAIL, put_desc x f, w)
       else write_stream m f x buf w
     }
   }"

end
