(* ===== verification/DirectRead.thy ===== *)
theory DirectRead
  imports Direct Modules
begin

text \<open>
  Reading through a compressor. The locale \<open>stream_reader\<close> is what \<open>direct_decompress\<close> relies on
  in a compression module; it is interpreted on the null and LZO modules. Inside it: skipping,
  rewinding and reading deliver the bytes the stream stands for, and the cache never holds
  anything else than pages of them.
\<close>

section \<open>Frames\<close>

text \<open>What reading may do to the world: move one position, and count pages.\<close>

definition read_frame :: "int \<Rightarrow> world \<Rightarrow> world \<Rightarrow> bool" where
  "read_frame fd w w' \<longleftrightarrow> (\<exists>k. repositioned fd (w\<lparr>decomp_cache_size := k\<rparr>) w')"

lemma agree_cache: "agree w w' \<Longrightarrow> agree (w\<lparr>decomp_cache_size := k\<rparr>) (w'\<lparr>decomp_cache_size := k\<rparr>)"
  by (simp add: agree_iff)

lemma repositioned_cache:
  assumes "repositioned fd w w'"
  shows "repositioned fd (w\<lparr>decomp_cache_size := k\<rparr>) (w'\<lparr>decomp_cache_size := k\<rparr>)"
  using assms unfolding repositioned_def by (simp add: agree_iff cong: option.case_cong)

lemma read_frame_refl [simp]: "read_frame fd w w"
  unfolding read_frame_def by (rule exI [of _ "decomp_cache_size w"]) simp

lemma read_frame_cache: "read_frame fd w (w\<lparr>decomp_cache_size := k\<rparr>)"
  unfolding read_frame_def by (rule exI [of _ k]) simp

lemma read_frame_repositioned: "repositioned fd w w' \<Longrightarrow> read_frame fd w w'"
  unfolding read_frame_def by (rule exI [of _ "decomp_cache_size w"]) simp

lemma read_frame_errno: "read_frame fd w w' \<Longrightarrow> read_frame fd w (w'\<lparr>errno := e\<rparr>)"
  unfolding read_frame_def
  using repositioned_trans [OF _ repositioned_agree [of "w'\<lparr>errno := e\<rparr>" w']] by auto

lemma read_frame_trans [trans]:
  assumes "read_frame fd w1 w2" and "read_frame fd w2 w3"
  shows "read_frame fd w1 w3"
proof -
  obtain j k where 1: "repositioned fd (w1\<lparr>decomp_cache_size := j\<rparr>) w2"
    and 2: "repositioned fd (w2\<lparr>decomp_cache_size := k\<rparr>) w3"
    using assms unfolding read_frame_def by blast
  have "repositioned fd (w1\<lparr>decomp_cache_size := k\<rparr>) (w2\<lparr>decomp_cache_size := k\<rparr>)"
    using repositioned_cache [OF 1, of k] by simp
  then show ?thesis using repositioned_trans [OF _ 2] unfolding read_frame_def by blast
qed

lemma cache_views [simp]:
  "fd_ofile (w\<lparr>decomp_cache_size := k\<rparr>) fd = fd_ofile w fd" "fd_inode (w\<lparr>decomp_cache_size := k\<rparr>) fd = fd_inode w fd"
  "rest_of (w\<lparr>decomp_cache_size := k\<rparr>) fd = rest_of w fd" "can_read (w\<lparr>decomp_cache_size := k\<rparr>) fd = can_read w fd"
  "data_of (w\<lparr>decomp_cache_size := k\<rparr>) fd = data_of w fd" "world_ok (w\<lparr>decomp_cache_size := k\<rparr>) = world_ok w"
  by (simp_all add: rest_of_def can_read_def data_of_def fd_ofile_def fd_inode_def world_ok_def cong: option.case_cong)

lemma repositioned_data:
  assumes "repositioned fd w w'"
  shows "data_of w' x = data_of w x"
proof (cases "fd_ofile w x")
  case None
  have n: "ofiles w k = None \<Longrightarrow> ofiles w' k = None" for k
    using assms by (auto simp: repositioned_def dest: spec [of _ k])
  have "fd_ofile w' x = None"
    using None n repositioned_same(3) [OF assms] by (cases "fdtab w x") (simp_all add: fd_ofile_def)
  then show ?thesis using None by (simp add: data_of_def fd_inode_def)
next
  case (Some d)
  then obtain k where k: "fdtab w x = Some k" "ofiles w k = Some d" by (auto simp: fd_ofile_def bind_eq_Some_conv)
  then obtain p where "ofiles w' k = Some (d\<lparr>o_pos := p\<rparr>)" using repositioned_ofile [OF assms] by blast
  then show ?thesis
    using k Some repositioned_same(2,3) [OF assms] by (simp add: data_of_def fd_inode_def fd_ofile_def)
qed

lemma read_frameD:
  assumes "read_frame fd w w'"
  shows "data_of w' x = data_of w x" "can_read w x \<Longrightarrow> can_read w' x" "fdtab w' = fdtab w"
    "world_ok w \<Longrightarrow> world_ok w'" "names w' = names w" "inodes w' = inodes w"
proof -
  obtain k where k: "repositioned fd (w\<lparr>decomp_cache_size := k\<rparr>) w'" using assms by (auto simp: read_frame_def)
  show "data_of w' x = data_of w x" using repositioned_data [OF k] by simp
  show "can_read w x \<Longrightarrow> can_read w' x" using repositioned_can_read [OF k] by simp
  show "fdtab w' = fdtab w" "names w' = names w" "inodes w' = inodes w" using repositioned_same [OF k] by simp_all
  show "world_ok w \<Longrightarrow> world_ok w'" using repositioned_world_ok [OF k] by simp
qed

section \<open>The cache\<close>

text \<open>A complete page of the contents.\<close>

definition is_page :: "byte list \<Rightarrow> nat \<Rightarrow> byte list \<Rightarrow> bool" where
  "is_page content i page \<longleftrightarrow>
     length page = DC_PAGE_SIZE \<and> page = take DC_PAGE_SIZE (drop (DC_PAGE_SIZE * i) content)"

text \<open>Every cached page is the page of the contents it stands for, and the table covers the file.\<close>

definition pages_ok :: "byte list \<Rightarrow> file_t \<Rightarrow> bool" where
  "pages_ok content f \<longleftrightarrow>
     (\<forall>ps. cache f = Some ps \<longrightarrow>
        length content div DC_PAGE_SIZE < length ps \<and>
        (\<forall>i page. i < length ps \<longrightarrow> ps ! i = Some page \<longrightarrow> is_page content i page))"

text \<open>What serving or skipping may change in the file.\<close>

definition cache_only :: "file_t \<Rightarrow> file_t \<Rightarrow> bool" where
  "cache_only f f' \<longleftrightarrow> f'\<lparr>cache := cache f, skipped := skipped f\<rparr> = f"

lemma cache_only_refl [simp]: "cache_only f f"
  by (simp add: cache_only_def)

lemma cache_only_update [simp]:
  "cache_only f (f\<lparr>cache := c\<rparr>)" "cache_only f (f\<lparr>skipped := s\<rparr>)"
  by (simp_all add: cache_only_def)

lemma cache_only_trans [trans]: "cache_only f g \<Longrightarrow> cache_only g h \<Longrightarrow> cache_only f h"
proof -
  assume fg: "cache_only f g" and gh: "cache_only g h"
  have "h\<lparr>cache := cache f, skipped := skipped f\<rparr> =
      h\<lparr>cache := cache g, skipped := skipped g\<rparr>\<lparr>cache := cache f, skipped := skipped f\<rparr>" by simp
  also have "\<dots> = f" using fg gh unfolding cache_only_def by simp
  finally show "cache_only f h" unfolding cache_only_def .
qed

lemma cache_onlyD:
  assumes "cache_only f g"
  shows "fsize g = fsize f" "head g = head f" "ftype g = ftype f" "fcompressor g = fcompressor f"
    "filename g = filename f" "status g = status f" "accesses g = accesses f"
proof -
  have e: "g\<lparr>cache := cache f, skipped := skipped f\<rparr> = f" using assms unfolding cache_only_def .
  show "fsize g = fsize f" using arg_cong [OF e, of fsize] by simp
  show "head g = head f" using arg_cong [OF e, of head] by simp
  show "ftype g = ftype f" using arg_cong [OF e, of ftype] by simp
  show "fcompressor g = fcompressor f" using arg_cong [OF e, of fcompressor] by simp
  show "filename g = filename f" using arg_cong [OF e, of filename] by simp
  show "status g = status f" using arg_cong [OF e, of status] by simp
  show "accesses g = accesses f" using arg_cong [OF e, of accesses] by simp
qed

lemma pages_okD:
  "pages_ok content f \<Longrightarrow> cache f = Some ps \<Longrightarrow> i < length ps \<Longrightarrow> ps ! i = Some page \<Longrightarrow> is_page content i page"
  unfolding pages_ok_def by blast

lemma pages_ok_table: "pages_ok content f \<Longrightarrow> cache f = Some ps \<Longrightarrow> length content div DC_PAGE_SIZE < length ps"
  unfolding pages_ok_def by blast

lemma pages_okI:
  assumes "cache f = Some ps" and "length content div DC_PAGE_SIZE < length ps"
    and "\<And>i page. i < length ps \<Longrightarrow> ps ! i = Some page \<Longrightarrow> is_page content i page"
  shows "pages_ok content f"
  unfolding pages_ok_def using assms by auto

lemma pages_ok_update:
  assumes "pages_ok content f" and "cache f = Some ps"
    and "\<And>page. p = Some page \<Longrightarrow> is_page content i page"
  shows "pages_ok content (f\<lparr>cache := Some (ps[i := p])\<rparr>)"
proof (rule pages_okI [where ps = "ps[i := p]"])
  show "length content div DC_PAGE_SIZE < length (ps[i := p])" using pages_ok_table [OF assms(1,2)] by simp
  fix j page assume j: "j < length (ps[i := p])" "ps[i := p] ! j = Some page"
  show "is_page content j page"
    using j assms(3) pages_okD [OF assms(1,2)] by (cases "j = i") simp_all
qed simp

text \<open>
  Serving pages, when the request ends inside the table: what it delivers are the bytes of the
  file from the first page on, and it stops at a page that is not cached.
\<close>

lemma serve_pages_spec:
  assumes "pages_ok content f" and "cache f = Some ps" and "i + n \<le> length ps"
  shows "\<exists>n' buf' f' w'. serve_pages n i buf f w = Some (n', i + (n - n'), buf @ buf', f', w') \<and> n' \<le> n \<and>
    length buf' = DC_PAGE_SIZE * (n - n') \<and> buf' = take (DC_PAGE_SIZE * (n - n')) (drop (DC_PAGE_SIZE * i) content) \<and>
    pages_ok content f' \<and> cache_only f f' \<and> skipped f' = skipped f \<and> cache f' \<noteq> None \<and>
    read_frame fd w w' \<and> script w' = script w"
  using assms
proof (induction n arbitrary: i buf f ps w)
  case 0
  then show ?case
    by (intro exI [of _ 0] exI [of _ "[]"] exI [of _ f] exI [of _ w]) simp
next
  case (Suc n)
  have i: "i < length ps" using Suc.prems(3) by simp
  show ?case
  proof (cases "ps ! i")
    case None
    then show ?thesis using Suc.prems i
      by (intro exI [of _ "Suc n"] exI [of _ "[]"] exI [of _ f] exI [of _ w]) simp
  next
    case (Some page)
    have pg: "length page = DC_PAGE_SIZE" "page = take DC_PAGE_SIZE (drop (DC_PAGE_SIZE * i) content)"
      using pages_okD [OF Suc.prems(1,2) i Some] unfolding is_page_def by blast+
    let ?f = "f\<lparr>cache := Some (ps[i := None])\<rparr>" and ?w = "w\<lparr>decomp_cache_size := decomp_cache_size w - page_size\<rparr>"
    obtain n' buf' f' w' where IH: "serve_pages n (i + 1) (buf @ page) ?f ?w = Some (n', i + 1 + (n - n'), (buf @ page) @ buf', f', w')"
      "n' \<le> n" "length buf' = DC_PAGE_SIZE * (n - n')"
      "buf' = take (DC_PAGE_SIZE * (n - n')) (drop (DC_PAGE_SIZE * (i + 1)) content)"
      "pages_ok content f'" "cache_only ?f f'" "skipped f' = skipped ?f" "cache f' \<noteq> None" "read_frame fd ?w w'" "script w' = script ?w"
      using Suc.IH [of ?f "ps[i := None]" "i + 1" "buf @ page" ?w] pages_ok_update [OF Suc.prems(1,2), of None i] Suc.prems(3) by auto
    have "take (DC_PAGE_SIZE * (Suc n - n')) (drop (DC_PAGE_SIZE * i) content) =
        take DC_PAGE_SIZE (drop (DC_PAGE_SIZE * i) content) @
        take (DC_PAGE_SIZE * (n - n')) (drop (DC_PAGE_SIZE * (i + 1)) content)"
      using IH(2) take_add [of DC_PAGE_SIZE "DC_PAGE_SIZE * (n - n')" "drop (DC_PAGE_SIZE * i) content"]
      by (simp add: Suc_diff_le algebra_simps)
    then have "page @ buf' = take (DC_PAGE_SIZE * (Suc n - n')) (drop (DC_PAGE_SIZE * i) content)"
      using pg(2) IH(4) by simp
    moreover have "length (page @ buf') = DC_PAGE_SIZE * (Suc n - n')"
      using pg(1) IH(2,3) by (simp add: Suc_diff_le)
    moreover have "serve_pages (Suc n) i buf f w = Some (n', i + (Suc n - n'), buf @ page @ buf', f', w')"
      using Suc.prems(2) i Some pg(1) IH(1,2) by (simp add: Suc_diff_le)
    moreover have "cache_only f f'" using cache_only_trans [OF _ IH(6)] by simp
    moreover have "read_frame fd w w'" by (rule read_frame_trans [OF read_frame_cache IH(9)])
    moreover have "skipped f' = skipped f" "script w' = script w" using IH(7,10) by simp_all
    ultimately show ?thesis using IH(2,5,8)
      by (intro exI [of _ n'] exI [of _ "page @ buf'"] exI [of _ f'] exI [of _ w'] conjI) simp_all
  qed
qed

lemma skip_loop_step:
  assumes "toread \<noteq> 0" and "caches_here cfg caching f p w = Some new" and "n = min toread DC_PAGE_SIZE"
    and "v = (if new then w\<lparr>decomp_cache_size := decomp_cache_size w + page_size\<rparr> else w)"
    and "cread m h n v = Some ((r, bs, h1), w1)" and "new \<or> length bs \<le> room"
  shows "skip_loop cfg m caching room h p toread f w =
      (if r < 0 then Some ((Some (-1), h1, p, f), EIO_FAIL w1)
       else if r < int n \<and> (fsize f = -1 \<or> p + r < fsize f) then Some ((Some (-1), h1, p, f), EIO_FAIL w1)
       else if r = 0 then Some ((Some 0, h1, p, f), w1)
       else skip_loop cfg m caching room h1 (p + r) (toread - nat r)
              (if new then cache_page p bs f else f\<lparr>skipped := skipped f + r\<rparr>) w1)"
proof -
  have "assert (new \<or> length bs \<le> room) = Some ()" using assms(6) by simp
  then show ?thesis
    unfolding skip_loop.simps [of cfg m caching room h p toread f w] Let_def assms(3) [symmetric]
    by (simp only: assms(1,2) bind.bind_lunit if_False assms(4) [symmetric] assms(5) prod.case)
qed

section \<open>What a module's stream promises\<close>

lemma serve_pages_world:
  "serve_pages n i buf f w = Some (left, i', buf', f', w') \<Longrightarrow> \<exists>k. w' = w\<lparr>decomp_cache_size := k\<rparr>"
proof (induction n arbitrary: i buf f w)
  case 0
  then show ?case by (auto intro: exI [of _ "decomp_cache_size w"])
next
  case (Suc n)
  then obtain ps where ps: "cache f = Some ps" by (auto simp: bind_eq_Some_conv)
  show ?case
  proof (cases "ps ! i")
    case None
    then show ?thesis using Suc.prems ps by (auto simp: bind_eq_Some_conv intro: exI [of _ "decomp_cache_size w"])
  next
    case (Some page)
    let ?w = "w\<lparr>decomp_cache_size := decomp_cache_size w - page_size\<rparr>"
    have "serve_pages n (i + 1) (buf @ page) (f\<lparr>cache := Some (ps[i := None])\<rparr>) ?w = Some (left, i', buf', f', w')"
      using Suc.prems ps Some by (auto simp: bind_eq_Some_conv)
    then obtain k where "w' = ?w\<lparr>decomp_cache_size := k\<rparr>" using Suc.IH by blast
    then show ?thesis by (intro exI [of _ k]) simp
  qed
qed

text \<open>Where the kernel's requests fall: on whole pages, none after the one the file ends in.\<close>

definition page_request :: "byte list \<Rightarrow> off \<Rightarrow> nat \<Rightarrow> bool" where
  "page_request content offset n \<longleftrightarrow>
     offset mod page_size = 0 \<and> n mod DC_PAGE_SIZE = 0 \<and>
     nat offset + n \<le> DC_PAGE_SIZE * (length content div DC_PAGE_SIZE + 1)"

lemma serve_request:
  assumes "pages_ok content f" and "page_cached f offset" and "0 \<le> offset" and "page_request content offset n"
  shows "\<exists>left i' buf' f' w'. serve_pages (n div DC_PAGE_SIZE) (page_no offset) [] f w = Some (left, i', buf', f', w') \<and>
    n - length buf' = DC_PAGE_SIZE * left \<and> buf' = take (length buf') (drop (nat offset) content) \<and> length buf' \<le> n \<and>
    pages_ok content f' \<and> cache_only f f' \<and> (\<exists>k. w' = w\<lparr>decomp_cache_size := k\<rparr>)"
proof -
  obtain ps where ps: "cache f = Some ps" using assms(2) by (auto simp: page_cached_def split: option.splits)
  have a: "offset mod page_size = 0" "n mod DC_PAGE_SIZE = 0"
    "nat offset + n \<le> DC_PAGE_SIZE * (length content div DC_PAGE_SIZE + 1)"
    using assms(4) unfolding page_request_def by blast+
  have "offset = page_size * (offset div page_size)" using a(1) by (metis mult_div_mod_eq add.right_neutral)
  then have "nat offset = nat (page_size * (offset div page_size))" by simp
  also have "\<dots> = DC_PAGE_SIZE * page_no offset" by (subst nat_mult_distrib) (simp_all add: page_no_def)
  finally have o: "nat offset = DC_PAGE_SIZE * page_no offset" .
  have n: "n = DC_PAGE_SIZE * (n div DC_PAGE_SIZE)" using a(2) by (metis mult_div_mod_eq add.right_neutral)
  have "DC_PAGE_SIZE * (page_no offset + n div DC_PAGE_SIZE) \<le> DC_PAGE_SIZE * (length content div DC_PAGE_SIZE + 1)"
    using a(3) n o by (metis distrib_left)
  then have "page_no offset + n div DC_PAGE_SIZE \<le> length content div DC_PAGE_SIZE + 1" by simp
  then have "page_no offset + n div DC_PAGE_SIZE \<le> length ps" using pages_ok_table [OF assms(1) ps] by linarith
  from serve_pages_spec [OF assms(1) ps this, of "[]" w 0, unfolded append_Nil]
  obtain left buf' f' w' where s: "serve_pages (n div DC_PAGE_SIZE) (page_no offset) [] f w =
      Some (left, page_no offset + (n div DC_PAGE_SIZE - left), buf', f', w')" "left \<le> n div DC_PAGE_SIZE"
    "length buf' = DC_PAGE_SIZE * (n div DC_PAGE_SIZE - left)"
    "buf' = take (DC_PAGE_SIZE * (n div DC_PAGE_SIZE - left)) (drop (DC_PAGE_SIZE * page_no offset) content)"
    "pages_ok content f'" "cache_only f f'"
    by blast
  have "length buf' + DC_PAGE_SIZE * left = n"
    using s(2,3) n by (metis add_mult_distrib2 le_add_diff_inverse2)
  then have "n - length buf' = DC_PAGE_SIZE * left" "length buf' \<le> n" by linarith+
  moreover have "buf' = take (length buf') (drop (nat offset) content)" using s(3,4) o by metis
  moreover have "\<exists>k. w' = w\<lparr>decomp_cache_size := k\<rparr>" by (rule serve_pages_world [OF s(1)])
  ultimately show ?thesis using s(1,5,6) by blast
qed

section \<open>Descriptors\<close>

lemma find_put_desc:
  assumes "find_desc d f = Some x" and "d_id y = d"
  shows "find_desc d (put_desc y f) = Some y"
proof -
  have "find (\<lambda>z. d_id z = d) (map (\<lambda>z. if d_id z = d then y else z) ds) = Some y"
    if "find (\<lambda>z. d_id z = d) ds = Some x" for ds
    using that assms(2) by (induction ds) (auto split: if_split_asm)
  then show ?thesis using assms by (simp add: find_desc_def put_desc_def)
qed

lemma find_desc_head: "head g = head f \<Longrightarrow> find_desc d g = find_desc d f"
  by (simp add: find_desc_def)

lemma find_desc_id: "find_desc d f = Some x \<Longrightarrow> d_id x = d"
  by (auto simp: find_desc_def find_Some_iff)

lemma put_desc_same [simp]:
  "fsize (put_desc x f) = fsize f" "cache (put_desc x f) = cache f" "ftype (put_desc x f) = ftype f"
  "pages_ok content (put_desc x f) = pages_ok content f"
  by (simp_all add: put_desc_def pages_ok_def)

text \<open>How much is read at the end of a file, where nothing wraps around.\<close>

lemma clamp_size_eq:
  assumes "p \<le> len" and "len < 2 ^ 62" and "n < 2 ^ 62"
  shows "clamp_size (int len) (int p) n = min n (len - p)"
proof -
  have w: "u64_of_off (int a) = of_nat a" for a by (simp add: u64_of_off_def)
  have u: "unat (of_nat a :: u64) = a" if "a < 2 ^ 63" for a
    using that by (simp add: unat_of_nat)
  have lt: "(of_nat len :: u64) < of_nat p + of_nat n \<longleftrightarrow> len < p + n"
  proof -
    have "(of_nat p + of_nat n :: u64) = of_nat (p + n)" by simp
    moreover have "p + n < 2 ^ 63" "len < 2 ^ 63" using assms by simp_all
    ultimately show ?thesis using u [of "p + n"] u [of len] by (simp only: word_less_nat_alt)
  qed
  have e: "int len - int p = int (len - p)" using assms(1) by simp
  have d: "unat (u64_of_off (int len - int p)) = len - p"
    by (subst e, subst w, rule u) (use assms(2) in simp)
  show ?thesis
    unfolding clamp_size_def d using lt by (auto simp: w)
qed

text \<open>
  The descriptor \<open>x\<close> reads a file whose contents after the header decode to \<open>content\<close>: it has
  no stream and is positioned after the header, or it has one that stands at its offset.
\<close>

definition reading_stream ::
  "(handle \<Rightarrow> bool) \<Rightarrow> (handle \<Rightarrow> int) \<Rightarrow> (handle \<Rightarrow> world \<Rightarrow> byte list option) \<Rightarrow>
   (byte list \<Rightarrow> byte list option) \<Rightarrow> byte list \<Rightarrow> descriptor_t \<Rightarrow> world \<Rightarrow> bool" where
  "reading_stream ok hfd left decode content x w \<longleftrightarrow>
     world_ok w \<and> can_read w (d_fd x) \<and> decode (drop sizeof_header (data_of w (d_fd x))) = Some content \<and>
     (case d_handle x of
        None \<Rightarrow> d_offset x = 0 \<and> rest_of w (d_fd x) = drop sizeof_header (data_of w (d_fd x))
      | Some h \<Rightarrow>
          ok h \<and> hfd h \<noteq> d_fd x \<and> fdtab w (hfd h) = fdtab w (d_fd x) \<and>
          0 \<le> d_offset x \<and> d_offset x \<le> int (length content) \<and>
          left h w = Some (drop (nat (d_offset x)) content))"

text \<open>
  \<open>remaining h w\<close> is what the stream \<open>h\<close> will still deliver, if it is well-formed; \<open>hfd\<close> its
  descriptor. A read may fail or be short at any time; without failures it is not.
\<close>

locale stream_reader =
  fixes m :: compressor_t
    and ok :: "handle \<Rightarrow> bool"
    and hfd :: "handle \<Rightarrow> int"
    and remaining :: "handle \<Rightarrow> world \<Rightarrow> byte list option"
    and decode :: "byte list \<Rightarrow> byte list option"
  assumes rd_total: "ok h \<Longrightarrow> \<exists>r bs h' w'. cread m h n w = Some ((r, bs, h'), w')"
    and rd_frame: "ok h \<Longrightarrow> cread m h n w = Some ((r, bs, h'), w') \<Longrightarrow>
      ok h' \<and> hfd h' = hfd h \<and> repositioned (hfd h) w w'"
    and rd_bytes: "ok h \<Longrightarrow> cread m h n w = Some ((r, bs, h'), w') \<Longrightarrow>
      length bs \<le> n \<and> (r = -1 \<and> bs = [] \<or> r = int (length bs))"
    and rd_next: "ok h \<Longrightarrow> cread m h n w = Some ((r, bs, h'), w') \<Longrightarrow> r \<noteq> -1 \<Longrightarrow>
      remaining h w = Some all \<Longrightarrow>
      bs = take (length bs) all \<and> (bs \<noteq> [] \<or> n = 0 \<longrightarrow> remaining h' w' = Some (drop (length bs) all))"
    and rd_clean: "ok h \<Longrightarrow> cread m h n w = Some ((r, bs, h'), w') \<Longrightarrow> clean w \<Longrightarrow> can_read w (hfd h) \<Longrightarrow>
      remaining h w = Some all \<Longrightarrow> r = int (min n (length all)) \<and> clean w'"
    and remaining_cache: "remaining h (w\<lparr>decomp_cache_size := k\<rparr>) = remaining h w"
    and open_reader: "fd \<noteq> 0 \<Longrightarrow> mode \<in> {''r'', ''rb''} \<Longrightarrow>
      \<exists>h. copen m fd mode w = Some (Some h, w) \<and> ok h \<and> hfd h = fd \<and> remaining h w = decode (rest_of w fd)"
    and close_reader: "ok h \<Longrightarrow> cclose m h w = Some (sys_close (hfd h) w)"
begin

section \<open>Skipping\<close>

text \<open>A piece inside the stream is read completely, or the read reports an error.\<close>

lemma read_inside:
  assumes "ok h" and "remaining h w = Some (drop (nat p) content)" and "0 \<le> p"
    and "p + int n \<le> int (length content)"
    and rd: "cread m h n w = Some ((r, bs, h'), w')"
  shows "r = int n \<and> bs = take n (drop (nat p) content) \<and> remaining h' w' = Some (drop (nat (p + int n)) content) \<or>
      r < int n \<and> (r = -1 \<or> p + r < int (length content)) \<and> \<not> (clean w \<and> can_read w (hfd h))"
proof -
  note by1 = rd_bytes [OF assms(1) rd]
  show ?thesis
  proof (cases "r = int n")
    case True
    then have l: "length bs = n" "r \<noteq> -1" using by1 by auto
    then have "bs \<noteq> [] \<or> n = 0" by auto
    then have "bs = take n (drop (nat p) content)" "remaining h' w' = Some (drop n (drop (nat p) content))"
      using rd_next [OF assms(1) rd l(2) assms(2)] unfolding l(1) by blast+
    moreover have "nat (p + int n) = n + nat p" using assms(3) by simp
    ultimately show ?thesis using True by (simp only: drop_drop) blast
  next
    case False
    then have "r < int n" using by1 by auto
    moreover have "\<not> (clean w \<and> can_read w (hfd h))"
    proof
      assume c: "clean w \<and> can_read w (hfd h)"
      then have "r = int (min n (length (drop (nat p) content)))"
        using rd_clean [OF assms(1) rd _ _ assms(2)] by simp
      then show False using False assms(3,4) by (simp add: min_def split: if_splits)
    qed
    ultimately show ?thesis using assms(4) by auto
  qed
qed

lemma skip_loop_spec:
  assumes "ok h" and "remaining h w = Some (drop (nat p) content)" and "0 \<le> p"
    and "p + int toread \<le> int (length content)" and "fsize f = int (length content)" and "DC_PAGE_SIZE \<le> room"
    and "pages_ok content f"
    and "caching \<Longrightarrow> cache f \<noteq> None \<and> p mod page_size = 0 \<and> toread mod DC_PAGE_SIZE = 0"
  shows "\<exists>ret h' p' f' w'. skip_loop cfg m caching room h p toread f w = Some ((ret, h', p', f'), w') \<and>
    ok h' \<and> hfd h' = hfd h \<and> read_frame (hfd h) w w' \<and> cache_only f f' \<and> pages_ok content f' \<and>
    (ret = None \<and> p' = p + int toread \<and> remaining h' w' = Some (drop (nat p') content) \<and>
       (clean w \<and> can_read w (hfd h) \<longrightarrow> clean w') \<or>
     ret = Some (-1) \<and> \<not> (clean w \<and> can_read w (hfd h)))"
  using assms
proof (induction toread arbitrary: h p f w rule: less_induct)
  case (less toread)
  show ?case
  proof (cases "toread = 0")
    case True
    then show ?thesis using less.prems
      by (subst skip_loop.simps) simp
  next
    case False
    define n where "n = min toread DC_PAGE_SIZE"
    have n: "0 < n" "n \<le> toread" "n \<le> room" using False less.prems(6) by (auto simp: n_def)
    have inside: "p < int (length content)" using less.prems(3,4) n by linarith
    obtain new where new: "caches_here cfg caching f p w = Some new"
      and new_caching: "new \<Longrightarrow> caching \<and> (\<exists>ps. cache f = Some ps)"
    proof (cases caching)
      case True
      then obtain ps where ps: "cache f = Some ps" using less.prems(8) by blast
      have "nat p div DC_PAGE_SIZE \<le> length content div DC_PAGE_SIZE"
        using inside less.prems(3) by (intro div_le_mono) simp
      then have "page_no p < length ps"
        using pages_ok_table [OF less.prems(7) ps] less.prems(3) by (simp add: page_no_def nat_div_distrib)
      then show ?thesis using that True ps by (auto simp: caches_here_def)
    next
      case no: False
      show ?thesis by (rule that [of False]) (use no in \<open>simp_all add: caches_here_def\<close>)
    qed
    define v where "v = (if new then w\<lparr>decomp_cache_size := decomp_cache_size w + page_size\<rparr> else w)"
    have v: "read_frame (hfd h) w v" "remaining h v = Some (drop (nat p) content)" "script v = script w"
      "can_read v (hfd h) = can_read w (hfd h)"
      using less.prems(2) by (simp_all add: v_def read_frame_cache remaining_cache)
    obtain r bs h1 w1 where rd: "cread m h n v = Some ((r, bs, h1), w1)"
      using rd_total [OF less.prems(1)] by blast
    note fr = rd_frame [OF less.prems(1) rd]
    have len: "new \<or> length bs \<le> room" using rd_bytes [OF less.prems(1) rd] n by auto
    have rf: "read_frame (hfd h) w w1"
      using read_frame_trans [OF v(1) read_frame_repositioned] fr by blast
    note run = skip_loop_step [OF False new n_def v_def rd len]
    have "p + int n \<le> int (length content)" using less.prems(4) n by linarith
    from read_inside [OF less.prems(1) v(2) less.prems(3) this rd]
    consider (bad) "r < int n" "r = -1 \<or> p + r < int (length content)" "\<not> (clean v \<and> can_read v (hfd h))"
      | (good) "r = int n" "bs = take n (drop (nat p) content)" "remaining h1 w1 = Some (drop (nat (p + int n)) content)"
      by blast
    then show ?thesis
    proof cases
      case bad
      then have "skip_loop cfg m caching room h p toread f w = Some ((Some (-1), h1, p, f), EIO_FAIL w1)"
        using run less.prems(5) by auto
      moreover have "read_frame (hfd h) w (EIO_FAIL w1)"
        unfolding EIO_FAIL_def by (rule read_frame_errno [OF rf])
      ultimately show ?thesis using fr bad(3) v(3,4) less.prems(7) cache_only_refl by metis
    next
      case good
      note r = good(1) and bs = good(2) and rem = good(3)
      let ?f = "if new then cache_page p bs f else f\<lparr>skipped := skipped f + r\<rparr>"
      have f: "cache_only f ?f" "fsize ?f = fsize f" "cache f \<noteq> None \<Longrightarrow> cache ?f \<noteq> None"
        by (simp_all add: cache_page_def)
      have aligned: "caching \<Longrightarrow> n = DC_PAGE_SIZE"
        using less.prems(8) False unfolding n_def by (metis dvd_imp_le dvd_eq_mod_eq_0 min.absorb2 neq0_conv)
      have pages: "pages_ok content ?f"
      proof (cases new)
        case True
        then obtain ps where ps: "cache f = Some ps" "caching" using new_caching by blast
        have p4: "DC_PAGE_SIZE * page_no p = nat p"
        proof -
          have "p = page_size * (p div page_size)" using less.prems(8) [OF ps(2)] by (metis mult_div_mod_eq add.right_neutral)
          then have "nat p = nat (page_size * (p div page_size))" by simp
          also have "\<dots> = DC_PAGE_SIZE * nat (p div page_size)" by (subst nat_mult_distrib) simp_all
          finally show ?thesis by (simp add: page_no_def)
        qed
        have "is_page content (page_no p) bs"
          unfolding is_page_def p4 using bs aligned [OF ps(2)] rd_bytes [OF less.prems(1) rd] r n
          by auto
        then have "pages_ok content (f\<lparr>cache := Some (ps[page_no p := Some bs])\<rparr>)"
          by (intro pages_ok_update [OF less.prems(7) ps(1)]) simp
        then show ?thesis using True ps by (simp add: cache_page_def)
      next
        case False
        then show ?thesis using less.prems(7) by (simp add: pages_ok_def)
      qed
      have al: "cache ?f \<noteq> None \<and> (p + int n) mod page_size = 0 \<and> (toread - n) mod DC_PAGE_SIZE = 0" if caching
      proof -
        have a: "p mod page_size = 0" "toread mod DC_PAGE_SIZE = 0" "cache f \<noteq> None" using less.prems(8) [OF that] by auto
        then have "(p + int n) mod page_size = 0" unfolding aligned [OF that] by simp
        moreover have "(toread - n) mod DC_PAGE_SIZE = 0"
          using a(2) n(2) unfolding aligned [OF that] by (simp add: le_mod_geq)
        ultimately show ?thesis using f(3) a(3) by blast
      qed
      have "\<exists>ret h' p' f' w'. skip_loop cfg m caching room h1 (p + int n) (toread - n) ?f w1 = Some ((ret, h', p', f'), w') \<and>
          ok h' \<and> hfd h' = hfd h1 \<and> read_frame (hfd h1) w1 w' \<and> cache_only ?f f' \<and> pages_ok content f' \<and>
          (ret = None \<and> p' = p + int n + int (toread - n) \<and> remaining h' w' = Some (drop (nat p') content) \<and>
             (clean w1 \<and> can_read w1 (hfd h1) \<longrightarrow> clean w') \<or>
           ret = Some (-1) \<and> \<not> (clean w1 \<and> can_read w1 (hfd h1)))"
      proof (rule less.IH)
        show "toread - n < toread" "ok h1" "remaining h1 w1 = Some (drop (nat (p + int n)) content)"
          "0 \<le> p + int n" "p + int n + int (toread - n) \<le> int (length content)"
          "fsize ?f = int (length content)" "DC_PAGE_SIZE \<le> room" "pages_ok content ?f"
          using n fr rem less.prems(3-6) f(2) pages by (simp_all add: of_nat_diff)
        show "cache ?f \<noteq> None \<and> (p + int n) mod page_size = 0 \<and> (toread - n) mod DC_PAGE_SIZE = 0" if caching
          by (rule al [OF that])
      qed
      then obtain ret h' p' f' w' where
        s: "skip_loop cfg m caching room h1 (p + int n) (toread - n) ?f w1 = Some ((ret, h', p', f'), w')"
        "ok h'" "hfd h' = hfd h1" "read_frame (hfd h1) w1 w'" "cache_only ?f f'" "pages_ok content f'"
        "ret = None \<and> p' = p + int n + int (toread - n) \<and> remaining h' w' = Some (drop (nat p') content) \<and>
             (clean w1 \<and> can_read w1 (hfd h1) \<longrightarrow> clean w') \<or>
           ret = Some (-1) \<and> \<not> (clean w1 \<and> can_read w1 (hfd h1))"
        by blast
      have "skip_loop cfg m caching room h p toread f w = Some ((ret, h', p', f'), w')"
        using run r n(1) s(1) by simp
      moreover have "read_frame (hfd h) w w'" using read_frame_trans [OF rf] s(4) fr by simp
      moreover have "cache_only f f'" by (rule cache_only_trans [OF f(1) s(5)])
      moreover have c1: "clean w1 \<and> can_read w1 (hfd h1)" if "clean w" "can_read w (hfd h)"
      proof -
        have "clean w1" using rd_clean [OF less.prems(1) rd _ _ v(2)] v(3,4) that by simp
        moreover have "can_read w1 (hfd h)" by (rule read_frameD(2) [OF rf that(2)])
        ultimately show ?thesis using fr by simp
      qed
      moreover have "ret = None \<and> p' = p + int toread \<and> remaining h' w' = Some (drop (nat p') content) \<and>
            (clean w \<and> can_read w (hfd h) \<longrightarrow> clean w') \<or>
          ret = Some (-1) \<and> \<not> (clean w \<and> can_read w (hfd h))"
        using s(7) c1 n(2) by (elim disjE) (auto simp: of_nat_diff)
      moreover have "hfd h' = hfd h" using s(3) fr by simp
      ultimately show ?thesis using s(2,6) by blast
    qed
  qed
qed

section \<open>Reading\<close>

abbreviation reading :: "byte list \<Rightarrow> descriptor_t \<Rightarrow> world \<Rightarrow> bool" where
  "reading \<equiv> reading_stream ok hfd remaining decode"

lemmas reading_def = reading_stream_def [of ok hfd remaining decode]

lemma can_read_slot: "can_read w a \<Longrightarrow> fdtab w b = fdtab w a \<Longrightarrow> can_read w b"
  by (simp add: can_read_def)

lemma rewind_clean:
  assumes "reading content x w" and "clean w" and "0 \<le> offset" and "offset < d_offset x"
  shows "\<exists>w1. rewind_stream m x offset w = Some (True, x\<lparr>d_offset := 0, d_handle := None\<rparr>, w1) \<and>
    reading content (x\<lparr>d_offset := 0, d_handle := None\<rparr>) w1 \<and> clean w1 \<and> inodes w1 = inodes w \<and> names w1 = names w"
proof -
  obtain h where h: "d_handle x = Some h" using assms(1,3,4) by (cases "d_handle x") (auto simp: reading_def)
  have r: "world_ok w" "can_read w (d_fd x)" "ok h" "hfd h \<noteq> d_fd x" "fdtab w (hfd h) = fdtab w (d_fd x)"
    "decode (drop sizeof_header (data_of w (d_fd x))) = Some content"
    using assms(1) h by (simp_all add: reading_def)
  obtain k d i where k: "fdtab w (d_fd x) = Some k" "ofiles w k = Some d" "inodes w (o_ino d) = Some i" "readable d"
    using r(2) by (auto simp: can_read_def)
  let ?w1 = "w\<lparr>fdtab := (fdtab w)(hfd h := None)\<rparr>"
  let ?w2 = "set_ofile k (d\<lparr>o_pos := sizeof_header\<rparr>) ?w1"
  have c: "sys_close (hfd h) w = (0, ?w1)"
    using r(5) k(1) assms(2) by (simp add: sys_close_def next_outcome_clean)
  have l: "sys_lseek (d_fd x) (int sizeof_header) SEEK_SET ?w1 = (int sizeof_header, ?w2)"
    using k r(4) assms(2) by (simp add: sys_lseek_def syscall_clean)
  have run: "rewind_stream m x offset w = Some (True, x\<lparr>d_offset := 0, d_handle := None\<rparr>, ?w2)"
    using h assms(4) close_reader [OF r(3)] c l by (simp add: rewind_stream_def)
  have ok1: "world_ok ?w1" by (rule world_ok_close [OF r(1)])
  have ok2: "world_ok ?w2" by (rule world_ok_set_ofile [OF ok1, of k d]) (simp_all add: k)
  have "reading content (x\<lparr>d_offset := 0, d_handle := None\<rparr>) ?w2"
    using r(4,6) k ok2
    by (simp add: reading_def can_read_def readable_def rest_of_def data_of_def fd_ofile_def fd_inode_def set_ofile_def)
  then show ?thesis using run assms(2) by (intro exI [of _ ?w2]) (simp add: set_ofile_def)
qed

lemma open_clean:
  assumes "reading content x w" and "clean w" and "d_handle x = None"
  shows "\<exists>h w1. open_stream m x w = Some (True, x\<lparr>d_handle := Some h\<rparr>, w1) \<and>
    reading content (x\<lparr>d_handle := Some h\<rparr>) w1 \<and> clean w1 \<and> inodes w1 = inodes w \<and> names w1 = names w"
proof -
  have r: "world_ok w" "can_read w (d_fd x)" "d_offset x = 0"
    "rest_of w (d_fd x) = drop sizeof_header (data_of w (d_fd x))"
    "decode (drop sizeof_header (data_of w (d_fd x))) = Some content"
    using assms(1,3) by (simp_all add: reading_def)
  obtain k where k: "fdtab w (d_fd x) = Some k" using r(2) by (auto simp: can_read_def)
  obtain fd w1 where du: "sys_dup (d_fd x) w = (fd, w1)" by fastforce
  have fd: "fd \<noteq> -1" "clean w1" using sys_dup_clean [OF assms(2) k du] by simp_all
  note v = dup_views [OF du fd(1) r(1)]
  have "fd \<noteq> 0" using v(1) world_ok_fd [OF r(1) k] by linarith
  then obtain h where h: "copen m fd ''rb'' w1 = Some (Some h, w1)" "ok h" "hfd h = fd"
    "remaining h w1 = decode (rest_of w1 fd)"
    using open_reader [of fd "''rb''" w1] by blast
  have ne: "fd \<noteq> d_fd x" using v(2,3) by auto
  have t: "fdtab w1 fd = fdtab w (d_fd x)" "fdtab w1 (d_fd x) = fdtab w (d_fd x)" using v(4) ne by simp_all
  have "rest_of w1 fd = rest_of w (d_fd x)" by (rule same_slot(2) [OF t(1) v(5,6)])
  then have "remaining h w1 = Some content" using h(4) r(4,5) by simp
  moreover have "can_read w1 (d_fd x)" "data_of w1 (d_fd x) = data_of w (d_fd x)"
    using same_slot(4,5) [OF t(2) v(5,6)] r(2) by simp_all
  ultimately have "reading content (x\<lparr>d_handle := Some h\<rparr>) w1"
    using r(3,5) h(2,3) t ne v(7) by (simp add: reading_def)
  moreover have "open_stream m x w = Some (True, x\<lparr>d_handle := Some h\<rparr>, w1)"
    using assms(3) r(3) du h(1) by (simp add: open_stream_def)
  ultimately show ?thesis using fd(2) v(6,8) by blast
qed

text \<open>The stream that \<open>read_stream\<close> reads from stands at or before the wanted offset.\<close>

lemma stream_ready:
  assumes "reading content x w" and "0 \<le> offset" and "clean w \<or> d_handle x \<noteq> None \<and> d_offset x \<le> offset"
  shows "\<exists>x1 w1 x2 w2 h. rewind_stream m x offset w = Some (True, x1, w1) \<and>
    open_stream m x1 w1 = Some (True, x2, w2) \<and> d_handle x2 = Some h \<and> reading content x2 w2 \<and>
    d_offset x2 \<le> offset \<and> (d_offset x2 = d_offset x \<or> d_offset x2 = 0) \<and> d_id x2 = d_id x \<and> d_fd x2 = d_fd x \<and>
    (clean w \<longrightarrow> clean w2) \<and> inodes w2 = inodes w \<and> names w2 = names w"
proof -
  obtain x1 w1 where 1: "rewind_stream m x offset w = Some (True, x1, w1)" "reading content x1 w1"
    "clean w \<longrightarrow> clean w1" "inodes w1 = inodes w \<and> names w1 = names w" "d_offset x1 \<le> offset"
    "d_offset x1 = d_offset x \<or> d_offset x1 = 0" "d_id x1 = d_id x \<and> d_fd x1 = d_fd x"
    "clean w \<or> d_handle x1 \<noteq> None"
  proof (cases "offset < d_offset x")
    case True
    then have "clean w" using assms(3) by auto
    then show ?thesis
      using rewind_clean [OF assms(1) _ assms(2) True] assms(2) that [of "x\<lparr>d_offset := 0, d_handle := None\<rparr>"] by auto
  next
    case False
    then have "rewind_stream m x offset w = Some (True, x, w)" by (simp add: rewind_stream_def)
    then show ?thesis using that [of x w] False assms by auto
  qed
  show ?thesis
  proof (cases "d_handle x1")
    case None
    then have c: "clean w1" "d_handle x1 = None" "clean w" using 1(3,8) by auto
    obtain h w2 where "open_stream m x1 w1 = Some (True, x1\<lparr>d_handle := Some h\<rparr>, w2)"
      "reading content (x1\<lparr>d_handle := Some h\<rparr>) w2" "clean w2" "inodes w2 = inodes w1" "names w2 = names w1"
      using open_clean [OF 1(2) c(1,2)] by blast
    then show ?thesis using 1
      by (intro exI [of _ x1] exI [of _ w1] exI [of _ "x1\<lparr>d_handle := Some h\<rparr>"] exI [of _ w2] exI [of _ h]) auto
  next
    case (Some h)
    then have "open_stream m x1 w1 = Some (True, x1, w1)" by (simp add: open_stream_def)
    then show ?thesis using 1 Some
      by (intro exI [of _ x1] exI [of _ w1] exI [of _ x1] exI [of _ w1] exI [of _ h]) auto
  qed
qed

text \<open>
  \<open>read_stream\<close> delivers the bytes of the file from the offset on. It may report an error instead
  if something failed; in no other case.
\<close>

lemma sdiv_page: "0 \<le> (n :: int) \<Longrightarrow> n sdiv 4096 = n div 4096"
  by (auto simp: signed_divide_int_def sgn_if)

lemma alloc_cache_spec:
  assumes "fsize f = int (length content)" and "pages_ok content f"
  shows "pages_ok content (alloc_cache f) \<and> cache_only f (alloc_cache f) \<and> cache (alloc_cache f) \<noteq> None"
proof (cases "cache f")
  case None
  let ?n = "length content div DC_PAGE_SIZE + 1"
  have "nat (fsize f sdiv page_size + 1) = ?n"
    using assms(1) by (simp add: sdiv_page nat_add_distrib nat_div_distrib)
  then have "alloc_cache f = f\<lparr>cache := Some (replicate ?n None)\<rparr>"
    using None by (simp add: alloc_cache_def)
  moreover have "pages_ok content (f\<lparr>cache := Some (replicate ?n None)\<rparr>)"
    by (rule pages_okI [where ps = "replicate ?n None"]) (auto simp del: replicate_Suc)
  ultimately show ?thesis by simp
next
  case (Some ps)
  then show ?thesis using assms(2) by (simp add: alloc_cache_def)
qed

lemma skip_forward_spec:
  assumes "ok h" and "remaining h w = Some (drop (nat p) content)" and "0 \<le> p" and "p \<le> offset"
    and "offset \<le> int (length content)" and "fsize f = int (length content)" and "DC_PAGE_SIZE \<le> room"
    and "pages_ok content f"
    and "caching \<Longrightarrow> offset mod page_size = 0 \<and> (p mod page_size = 0 \<or> p = int (length content))"
  shows "\<exists>ret h' f' w'. skip_forward cfg m caching room h p offset f w = Some ((ret, h', offset, f'), w') \<and>
    ok h' \<and> hfd h' = hfd h \<and> read_frame (hfd h) w w' \<and> cache_only f f' \<and> pages_ok content f' \<and>
    ret = None \<and> remaining h' w' = Some (drop (nat offset) content) \<and>
    (clean w \<and> can_read w (hfd h) \<longrightarrow> clean w') \<or>
    (\<exists>h' p' f' w'. skip_forward cfg m caching room h p offset f w = Some ((Some (-1), h', p', f'), w') \<and>
      read_frame (hfd h) w w' \<and> cache_only f f' \<and> pages_ok content f' \<and> \<not> (clean w \<and> can_read w (hfd h)))"
proof (cases "offset > p")
  case False
  then have "offset = p" using assms(4) by simp
  then show ?thesis using assms by (intro disjI1 exI [of _ None] exI [of _ h] exI [of _ f] exI [of _ w])
    (simp add: skip_forward_def)
next
  case True
  let ?c = "caching \<and> \<not> offset - p > max_decomp_cache_size cfg - decomp_cache_size w"
  let ?f = "if ?c then alloc_cache f else f"
  have f: "pages_ok content ?f" "cache_only f ?f" "?c \<Longrightarrow> cache ?f \<noteq> None"
    using alloc_cache_spec [OF assms(6,8)] assms(8) by simp_all
  have run: "skip_forward cfg m caching room h p offset f w =
      skip_loop cfg m ?c room h p (nat (offset - p)) ?f w"
    using True by (simp add: skip_forward_def Let_def)
  have "\<exists>ret h' p' f' w'. skip_loop cfg m ?c room h p (nat (offset - p)) ?f w = Some ((ret, h', p', f'), w') \<and>
      ok h' \<and> hfd h' = hfd h \<and> read_frame (hfd h) w w' \<and> cache_only ?f f' \<and> pages_ok content f' \<and>
      (ret = None \<and> p' = p + int (nat (offset - p)) \<and> remaining h' w' = Some (drop (nat p') content) \<and>
         (clean w \<and> can_read w (hfd h) \<longrightarrow> clean w') \<or>
       ret = Some (-1) \<and> \<not> (clean w \<and> can_read w (hfd h)))"
  proof (rule skip_loop_spec [OF assms(1-3)])
    show "p + int (nat (offset - p)) \<le> int (length content)" using True assms(5) by simp
    show "fsize ?f = int (length content)" using cache_onlyD(1) [OF f(2)] assms(6) by simp
    show "DC_PAGE_SIZE \<le> room" "pages_ok content ?f" by (fact assms(7) f(1))+
    assume c: "?c"
    have a: "offset mod page_size = 0" "p mod page_size = 0" using assms(5,9) True c by auto
    then have "(offset - p) mod page_size = 0" using mod_diff_eq [of offset page_size p] by simp
    then have "nat (offset - p) mod DC_PAGE_SIZE = 0"
      using True nat_mod_distrib [of "offset - p" page_size] by simp
    then show "cache ?f \<noteq> None \<and> p mod page_size = 0 \<and> nat (offset - p) mod DC_PAGE_SIZE = 0"
      using a(2) f(3) [OF c] by blast
  qed
  then obtain ret h' p' f' w' where s: "skip_loop cfg m ?c room h p (nat (offset - p)) ?f w = Some ((ret, h', p', f'), w')"
    "ok h'" "hfd h' = hfd h" "read_frame (hfd h) w w'" "cache_only ?f f'" "pages_ok content f'"
    "ret = None \<and> p' = p + int (nat (offset - p)) \<and> remaining h' w' = Some (drop (nat p') content) \<and>
         (clean w \<and> can_read w (hfd h) \<longrightarrow> clean w') \<or>
       ret = Some (-1) \<and> \<not> (clean w \<and> can_read w (hfd h))"
    by blast
  have co: "cache_only f f'" by (rule cache_only_trans [OF f(2) s(5)])
  from s(7) show ?thesis
  proof
    assume n: "ret = None \<and> p' = p + int (nat (offset - p)) \<and> remaining h' w' = Some (drop (nat p') content) \<and>
         (clean w \<and> can_read w (hfd h) \<longrightarrow> clean w')"
    moreover have "p' = offset" using n True by simp
    ultimately show ?thesis unfolding run using s(1-4,6) co
      by (intro disjI1 exI [of _ None] exI [of _ h'] exI [of _ f'] exI [of _ w']) simp
  next
    assume "ret = Some (-1) \<and> \<not> (clean w \<and> can_read w (hfd h))"
    then show ?thesis unfolding run using s(1,4,6) co by blast
  qed
qed

lemma read_stream_spec:
  assumes "reading content x w" and "0 \<le> offset" and "offset \<le> int (length content)"
    and "clean w \<or> d_handle x \<noteq> None \<and> d_offset x \<le> offset"
    and "fsize f = int (length content)" and "DC_PAGE_SIZE \<le> n" and "pages_ok content f"
    and "caching \<Longrightarrow> offset mod page_size = 0 \<and> (d_offset x mod page_size = 0 \<or> d_offset x = int (length content))"
    and "length content < 2 ^ 62" and "n < 2 ^ 62"
  shows "\<exists>ret buf' x' f' w'. read_stream cfg m caching f x buf n offset w = Some (ret, buf', put_desc x' f', w') \<and>
    cache_only f f' \<and> pages_ok content f' \<and> d_id x' = d_id x \<and> inodes w' = inodes w \<and> names w' = names w \<and>
    (ret = -1 \<and> buf' = buf \<and> \<not> clean w \<or>
     ret = int (length buf') \<and> buf' = buf @ take n (drop (nat offset) content) \<and>
     reading content x' w' \<and> d_fd x' = d_fd x \<and>
     d_offset x' = int (min (nat offset + n) (length content)) \<and> (clean w \<longrightarrow> clean w'))"
proof -
  obtain x1 w1 x2 w2 h where st: "rewind_stream m x offset w = Some (True, x1, w1)"
    "open_stream m x1 w1 = Some (True, x2, w2)" "d_handle x2 = Some h" "reading content x2 w2"
    "d_offset x2 \<le> offset" "d_offset x2 = d_offset x \<or> d_offset x2 = 0" "d_id x2 = d_id x" "d_fd x2 = d_fd x"
    "clean w \<longrightarrow> clean w2" "inodes w2 = inodes w" "names w2 = names w"
    using stream_ready [OF assms(1,2,4)] by blast
  have r: "world_ok w2" "can_read w2 (d_fd x)" "ok h" "hfd h \<noteq> d_fd x" "fdtab w2 (hfd h) = fdtab w2 (d_fd x)"
    "0 \<le> d_offset x2" "remaining h w2 = Some (drop (nat (d_offset x2)) content)"
    "decode (drop sizeof_header (data_of w2 (d_fd x))) = Some content"
    using st(3,4,8) by (simp_all add: reading_def)
  have crh: "can_read w2 (hfd h)" by (rule can_read_slot [OF r(2,5)])
  have al: "offset mod page_size = 0 \<and> (d_offset x2 mod page_size = 0 \<or> d_offset x2 = int (length content))" if caching
    using assms(8) [OF that] st(6) by auto
  from skip_forward_spec [OF r(3,7,6) st(5) assms(3,5,6,7) al, of caching cfg]
  consider (skipped) h3 f3 w3 where "skip_forward cfg m caching n h (d_offset x2) offset f w2 = Some ((None, h3, offset, f3), w3)"
      "ok h3" "hfd h3 = hfd h" "read_frame (hfd h) w2 w3" "cache_only f f3" "pages_ok content f3"
      "remaining h3 w3 = Some (drop (nat offset) content)" "clean w2 \<and> can_read w2 (hfd h) \<longrightarrow> clean w3"
    | (failed) h3 p3 f3 w3 where "skip_forward cfg m caching n h (d_offset x2) offset f w2 = Some ((Some (-1), h3, p3, f3), w3)"
      "read_frame (hfd h) w2 w3" "cache_only f f3" "pages_ok content f3" "\<not> (clean w2 \<and> can_read w2 (hfd h))"
    by blast
  then show ?thesis
  proof cases
    case failed
    let ?x = "x2\<lparr>d_handle := Some h3, d_offset := p3\<rparr>"
    have "read_stream cfg m caching f x buf n offset w = Some (-1, buf, put_desc ?x f3, w3)"
      using st(1,2,3) failed(1) by (simp add: read_stream_def)
    moreover have "\<not> clean w" using failed(5) crh st(9) by blast
    ultimately show ?thesis
      using failed(3,4) st(7,10,11) read_frameD(5,6) [OF failed(2)]
      by (intro exI [of _ "-1"] exI [of _ buf] exI [of _ ?x] exI [of _ f3] exI [of _ w3]) simp
  next
    case skipped
    define k where "k = min n (length content - nat offset)"
    have o: "offset = int (nat offset)" using assms(2) by simp
    have "clamp_size (int (length content)) (int (nat offset)) n = k"
      unfolding k_def by (rule clamp_size_eq) (use assms(2,3,9,10) in auto)
    then have cl: "clamp_size (fsize f3) offset n = k"
      using cache_onlyD(1) [OF skipped(5)] assms(5) o by simp
    obtain len bs h4 w4 where rd: "cread m h3 k w3 = Some ((len, bs, h4), w4)" using rd_total [OF skipped(2)] by blast
    note fr = rd_frame [OF skipped(2) rd]
    have room: "length bs \<le> n" using rd_bytes [OF skipped(2) rd] by (simp add: k_def)
    have rf: "read_frame (hfd h) w2 w4"
      using read_frame_trans [OF skipped(4) read_frame_repositioned] fr skipped(3) by metis
    note d = read_frameD [OF rf]
    have "offset + int k \<le> int (length content)" using assms(2,3) by (simp add: k_def)
    from read_inside [OF skipped(2) skipped(7) assms(2) this rd] show ?thesis
    proof
      assume good: "len = int k \<and> bs = take k (drop (nat offset) content) \<and>
        remaining h4 w4 = Some (drop (nat (offset + int k)) content)"
      let ?x = "x2\<lparr>d_handle := Some h4, d_offset := offset + len\<rparr>"
      have bs: "bs = take n (drop (nat offset) content)" using good by (simp add: k_def min_def)
      have lb: "int (length bs) = len" using good by (simp add: k_def)
      have "read_stream cfg m caching f x buf n offset w = Some (len + int (length buf), buf @ bs, put_desc ?x f3, w4)"
        using st(1,2,3) skipped(1) cl rd room good by (simp add: read_stream_def)
      moreover have "reading content ?x w4"
        using r fr skipped(2,3) st(8) d good \<open>offset + int k \<le> int (length content)\<close> assms(2)
        by (auto simp: reading_def)
      moreover have "d_offset ?x = int (min (nat offset + n) (length content))"
        using good assms(2,3) by (simp add: k_def)
      moreover have "clean w4" if "clean w"
        using rd_clean [OF skipped(2) rd _ _ skipped(7)] skipped(3,4,8) st(9) crh that read_frameD(2) by auto
      ultimately show ?thesis
        using skipped(5,6) st(7,8,10,11) d(5,6) bs lb
        by (intro exI [of _ "len + int (length buf)"] exI [of _ "buf @ bs"] exI [of _ ?x] exI [of _ f3] exI [of _ w4]) simp
    next
      assume bad: "len < int k \<and> (len = -1 \<or> offset + len < int (length content)) \<and> \<not> (clean w3 \<and> can_read w3 (hfd h3))"
      let ?x = "x2\<lparr>d_offset := offset, d_handle := Some h4\<rparr>"
      have "read_stream cfg m caching f x buf n offset w = Some (-1, buf, put_desc ?x f3, EIO_FAIL w4)"
        using st(1,2,3) skipped(1) cl rd room bad by (simp add: read_stream_def)
      moreover have "\<not> clean w"
        using bad skipped(3,8) st(9) crh read_frameD(2) [OF skipped(4)] by auto
      ultimately show ?thesis
        using skipped(5,6) st(7,10,11) d(5,6)
        by (intro exI [of _ "-1"] exI [of _ buf] exI [of _ ?x] exI [of _ f3] exI [of _ "EIO_FAIL w4"])
          (simp add: EIO_FAIL_def)
    qed
  qed
qed

section \<open>direct_decompress\<close>

lemma reading_cache: "reading content x (w\<lparr>decomp_cache_size := k\<rparr>) = reading content x w"
  by (simp add: reading_def remaining_cache cong: option.case_cong)

text \<open>
  A request for \<open>n\<close> bytes is answered by the bytes of the file there, as long as no fallback to
  the decompressed file is possible.
\<close>

lemma direct_decompress_spec:
  assumes "fcompressor f = Some c" and "module_of cfg c = Some m" and "find_desc d f = Some x"
    and "DECOMPRESSING \<notin> status f" and "ftype f \<noteq> WRITE" and "read_only cfg \<or> fsize f \<le> 131072"
    and "reading content x w" and "fsize f = int (length content)" and "pages_ok content f"
    and "0 \<le> offset" and "offset \<le> int (length content)" and "DC_PAGE_SIZE \<le> n"
    and "length content < 2 ^ 62" and "n < 2 ^ 62"
    and "clean w \<or> d_handle x \<noteq> None \<and> d_offset x \<le> offset"
    and "cache_decompressed_data cfg \<Longrightarrow> page_request content offset n \<and>
      (d_offset x mod page_size = 0 \<or> d_offset x = int (length content))"
  shows "\<exists>ret buf x' f' w'. direct_decompress cfg f d n offset w = Some (ret, buf, f', w') \<and>
    pages_ok content f' \<and> fsize f' = fsize f \<and> ftype f' = READ \<and> inodes w' = inodes w \<and> names w' = names w \<and>
    (ret = -1 \<and> \<not> clean w \<or>
     ret = int (length buf) \<and> buf = take n (drop (nat offset) content) \<and>
     find_desc d f' = Some x' \<and> reading content x' w' \<and> d_fd x' = d_fd x \<and>
     (d_offset x' mod page_size = 0 \<or> d_offset x' = int (length content) \<or> \<not> cache_decompressed_data cfg) \<and>
     (clean w \<longrightarrow> clean w'))"
proof -
  define f0 where "f0 = (if ftype f = TYPE_NONE then f\<lparr>ftype := READ\<rparr> else f)"
  have f0: "ftype f0 = READ" "fsize f0 = int (length content)" "pages_ok content f0" "head f0 = head f"
    using assms(5,8,9) by (cases "ftype f"; simp add: f0_def pages_ok_def)+
  define caching where "caching \<longleftrightarrow> cache_decompressed_data cfg \<and> offset mod page_size = 0 \<and> n mod DC_PAGE_SIZE = 0"
  have req: "page_request content offset n \<and> (d_offset x mod page_size = 0 \<or> d_offset x = int (length content))" if caching
    using assms(16) that by (simp add: caching_def)
  obtain k d0 i where "fdtab w (d_fd x) = Some k" using assms(7) by (auto simp: reading_def can_read_def)
  then have fd: "d_fd x \<noteq> -1" using assms(7) world_ok_fd [of w "d_fd x" k] by (auto simp: reading_def)
  obtain left i' buf f1 w1 where
    sv: "(if caching \<and> ftype f0 = READ \<and> page_cached f0 offset
        then serve_pages (n div DC_PAGE_SIZE) (page_no offset) [] f0 w
        else Some (1, 0, [], f0, w)) = Some (left, i', buf, f1, w1)"
    and s: "buf = take (length buf) (drop (nat offset) content)" "length buf \<le> n" "left = 0 \<longrightarrow> length buf = n"
      "left \<noteq> 0 \<longrightarrow> DC_PAGE_SIZE \<le> n - length buf" "caching \<longrightarrow> length buf mod DC_PAGE_SIZE = 0"
      "pages_ok content f1" "cache_only f0 f1" "\<exists>k. w1 = w\<lparr>decomp_cache_size := k\<rparr>"
  proof (cases "caching \<and> page_cached f0 offset")
    case True
    obtain left i' buf f1 w1 where a: "serve_pages (n div DC_PAGE_SIZE) (page_no offset) [] f0 w = Some (left, i', buf, f1, w1)"
      "n - length buf = DC_PAGE_SIZE * left" "buf = take (length buf) (drop (nat offset) content)" "length buf \<le> n"
      "pages_ok content f1" "cache_only f0 f1" "\<exists>k. w1 = w\<lparr>decomp_cache_size := k\<rparr>"
      using serve_request [OF f0(3) conjunct2 [OF True] assms(10) conjunct1 [OF req [OF conjunct1 [OF True]]], of w] by blast
    have "n mod DC_PAGE_SIZE = 0" using True by (simp add: caching_def)
    moreover have "n = length buf + DC_PAGE_SIZE * left" using a(2,4) by linarith
    ultimately have "length buf mod DC_PAGE_SIZE = 0" by simp
    moreover have "left = 0 \<longrightarrow> length buf = n" "left \<noteq> 0 \<longrightarrow> DC_PAGE_SIZE \<le> n - length buf" using a(2,4) by linarith+
    moreover have "(if caching \<and> ftype f0 = READ \<and> page_cached f0 offset
        then serve_pages (n div DC_PAGE_SIZE) (page_no offset) [] f0 w
        else Some (1, 0, [], f0, w)) = Some (left, i', buf, f1, w1)"
      using True f0(1) a(1) by simp
    moreover have "caching \<longrightarrow> length buf mod DC_PAGE_SIZE = 0" using \<open>length buf mod DC_PAGE_SIZE = 0\<close> by blast
    ultimately show ?thesis by (intro that [OF _ a(3,4) _ _ _ a(5,6,7)])
  next
    case False
    have "\<exists>k. w = w\<lparr>decomp_cache_size := k\<rparr>" by (rule exI [of _ "decomp_cache_size w"]) simp
    then show ?thesis
      by (intro that [of 1 0 "[]" f0 w]) (use False f0 assms(12) in \<open>simp_all, blast?\<close>)
  qed
  let ?n = "n - length buf" and ?o = "offset + int (length buf)"
  have co: "fsize f1 = int (length content)" "head f1 = head f" "ftype f1 = READ"
    using cache_onlyD [OF s(7)] f0 by simp_all
  have fb: "\<not> must_fall_back cfg caching f1 x ?o w1"
    using co(1,3) assms(6,8) by (auto simp: must_fall_back_def)
  have rd1: "reading content x w1" "script w1 = script w" "inodes w1 = inodes w" "names w1 = names w"
    using s(8) assms(7) reading_cache by auto
  have run: "direct_decompress cfg f d n offset w =
      (if left = 0 then Some (int (length buf), buf, f1, w1)
       else read_stream cfg m caching f1 x buf ?n ?o w1)"
  proof -
    have "assert (d_fd x \<noteq> -1) = Some ()" "assert (DECOMPRESSING \<notin> status f) = Some ()" using fd assms(4) by simp_all
    then show ?thesis
      unfolding direct_decompress_def Let_def f0_def [symmetric] caching_def [symmetric] assms(1-3) bind.bind_lunit
      by (simp only: bind.bind_lunit sv prod.case fb if_False)
  qed
  have ol: "?o \<le> int (length content)"
  proof -
    have "length buf \<le> length content - nat offset" using arg_cong [OF s(1), of length] by simp
    then show ?thesis using assms(10,11) by linarith
  qed
  show ?thesis
  proof (cases "left = 0")
    case True
    then have "buf = take n (drop (nat offset) content)" using s(1,3) by metis
    moreover have "find_desc d f1 = Some x" using find_desc_head [OF co(2)] assms(3) by simp
    moreover have "d_offset x mod page_size = 0 \<or> d_offset x = int (length content) \<or> \<not> cache_decompressed_data cfg"
      using assms(16) by blast
    ultimately show ?thesis
      using run True s(6) co rd1 assms(8)
      by (intro exI [of _ "int (length buf)"] exI [of _ buf] exI [of _ x] exI [of _ f1] exI [of _ w1]) simp
  next
    case False
    have al: "?o mod page_size = 0 \<and> (d_offset x mod page_size = 0 \<or> d_offset x = int (length content))" if caching
    proof -
      have "int (length buf) mod page_size = 0" using s(5) that zmod_int [of "length buf" DC_PAGE_SIZE] by simp
      then have "?o mod page_size = 0" using that mod_add_eq [of offset page_size "int (length buf)"] by (simp add: caching_def)
      then show ?thesis using req [OF that] by blast
    qed
    have o: "0 \<le> ?o" "clean w1 \<or> d_handle x \<noteq> None \<and> d_offset x \<le> ?o" "?n < 2 ^ 62"
      using assms(10,14,15) rd1(2) by auto
    obtain ret buf' x' f' w' where r: "read_stream cfg m caching f1 x buf ?n ?o w1 = Some (ret, buf', put_desc x' f', w')"
      "cache_only f1 f'" "pages_ok content f'" "d_id x' = d_id x" "inodes w' = inodes w1" "names w' = names w1"
      "ret = -1 \<and> buf' = buf \<and> \<not> clean w1 \<or>
       ret = int (length buf') \<and> buf' = buf @ take ?n (drop (nat ?o) content) \<and>
       reading content x' w' \<and> d_fd x' = d_fd x \<and>
       d_offset x' = int (min (nat ?o + ?n) (length content)) \<and> (clean w1 \<longrightarrow> clean w')"
      using read_stream_spec [OF rd1(1) o(1) ol o(2) co(1) mp [OF s(4) False] s(6) al assms(13) o(3), of caching cfg buf] by blast
    have run2: "direct_decompress cfg f d n offset w = Some (ret, buf', put_desc x' f', w')"
      using run False r(1) by simp
    note c2 = cache_onlyD [OF r(2)]
    have fx: "find_desc d (put_desc x' f') = Some x'"
      using find_put_desc [of d f' x x'] find_desc_head [of f' f d] c2(2) co(2) assms(3) r(4) find_desc_id [OF assms(3)] by simp
    have keep: "pages_ok content (put_desc x' f')" "fsize (put_desc x' f') = fsize f" "ftype (put_desc x' f') = READ"
      "inodes w' = inodes w" "names w' = names w"
      using r(3,5,6) c2(1,3) co assms(8) rd1(3,4) by simp_all
    from r(7) show ?thesis
    proof
      assume "ret = -1 \<and> buf' = buf \<and> \<not> clean w1"
      then have "ret = -1" "\<not> clean w" using rd1(2) by simp_all
      then show ?thesis using run2 keep by blast
    next
      assume g: "ret = int (length buf') \<and> buf' = buf @ take ?n (drop (nat ?o) content) \<and>
       reading content x' w' \<and> d_fd x' = d_fd x \<and>
       d_offset x' = int (min (nat ?o + ?n) (length content)) \<and> (clean w1 \<longrightarrow> clean w')"
      have no: "nat ?o = nat offset + length buf" using assms(10) by simp
      have "buf' = take n (drop (nat offset) content)"
        using g s(1,2) no take_add [of "length buf" ?n "drop (nat offset) content"] by (simp add: add.commute)
      moreover have "d_offset x' mod page_size = 0 \<or> d_offset x' = int (length content) \<or> \<not> cache_decompressed_data cfg"
      proof (cases "cache_decompressed_data cfg \<and> nat ?o + ?n < length content")
        case True
        then have p: "page_request content offset n" using assms(16) by blast
        have "d_offset x' = offset + int n" using g True s(2) no assms(10) by simp
        moreover have "(offset + int n) mod page_size = 0"
          using p mod_add_eq [of offset page_size "int n"] zmod_int [of n DC_PAGE_SIZE] unfolding page_request_def by simp
        ultimately show ?thesis by simp
      next
        case False
        then show ?thesis using g by auto
      qed
      moreover have "ret = int (length buf')" "reading content x' w'" "d_fd x' = d_fd x" "clean w \<longrightarrow> clean w'"
        using g rd1(2) by simp_all
      ultimately have "ret = int (length buf') \<and> buf' = take n (drop (nat offset) content) \<and>
          find_desc d (put_desc x' f') = Some x' \<and> reading content x' w' \<and> d_fd x' = d_fd x \<and>
          (d_offset x' mod page_size = 0 \<or> d_offset x' = int (length content) \<or> \<not> cache_decompressed_data cfg) \<and>
          (clean w \<longrightarrow> clean w')"
        using fx by blast
      then show ?thesis using run2 keep
        by (intro exI [of _ ret] exI [of _ buf'] exI [of _ x'] exI [of _ "put_desc x' f'"] exI [of _ w']) simp
    qed
  qed
qed

end

section \<open>The modules of the repository keep the promises\<close>

definition handle_fd :: "handle \<Rightarrow> int" where
  "handle_fd h = (case h of HFd fd \<Rightarrow> fd | HLzo f \<Rightarrow> lfd f | HLzma f \<Rightarrow> l_fd f | HExt _ \<Rightarrow> -1)"

definition null_reader_ok :: "handle \<Rightarrow> bool" where
  "null_reader_ok h \<longleftrightarrow> (case h of HFd fd \<Rightarrow> True | _ \<Rightarrow> False)"

definition null_left :: "handle \<Rightarrow> world \<Rightarrow> byte list option" where
  "null_left h w = (case h of HFd fd \<Rightarrow> Some (rest_of w fd) | _ \<Rightarrow> None)"

interpretation null_reader: stream_reader module_null null_reader_ok handle_fd null_left Some
proof
  fix h h' :: handle and n r bs and w w' :: world and fd k mode and all :: "byte list"
  show "\<exists>r bs h' w'. cread module_null h n w = Some ((r, bs, h'), w')" if "null_reader_ok h"
    using that by (auto simp: null_reader_ok_def module_null_def split: handle.splits prod.split)
  show "null_left h (w\<lparr>decomp_cache_size := k\<rparr>) = null_left h w"
    by (simp add: null_left_def split: handle.split)
  show "\<exists>h. copen module_null fd mode w = Some (Some h, w) \<and> null_reader_ok h \<and> handle_fd h = fd \<and>
      null_left h w = Some (rest_of w fd)" if "fd \<noteq> 0"
    using that by (simp add: module_null_def nullOpen_def null_reader_ok_def handle_fd_def null_left_def)
  show "cclose module_null h w = Some (sys_close (handle_fd h) w)" if "null_reader_ok h"
    using that by (auto simp: null_reader_ok_def module_null_def handle_fd_def split: handle.splits)
  assume "null_reader_ok h" and rd: "cread module_null h n w = Some ((r, bs, h'), w')"
  then obtain fd where h: "h = HFd fd" by (auto simp: null_reader_ok_def split: handle.splits)
  obtain x ys v where sr: "sys_read fd n w = ((x, ys), v)" by (metis prod.collapse)
  then have rd: "sys_read fd n w = ((r, bs), w')" and h': "h' = h"
    using rd h by (simp_all add: module_null_def)
  note sp = sys_read_rest [OF rd]
  show "null_reader_ok h' \<and> handle_fd h' = handle_fd h \<and> repositioned (handle_fd h) w w'"
    using sp(1) h h' by (simp add: null_reader_ok_def handle_fd_def)
  show "length bs \<le> n \<and> (r = -1 \<and> bs = [] \<or> r = int (length bs))" using sp(2) by auto
  show "bs = take (length bs) all \<and> (bs \<noteq> [] \<or> n = 0 \<longrightarrow> null_left h' w' = Some (drop (length bs) all))"
    if "r \<noteq> -1" "null_left h w = Some all"
    using sp(2) that h h' by (auto simp: null_left_def min_def)
  show "r = int (min n (length all)) \<and> clean w'"
    if "clean w" "can_read w (handle_fd h)" "null_left h w = Some all"
    using sys_read_clean(1-3) [OF rd that(1)] that h by (simp add: null_left_def handle_fd_def min.commute)
qed

definition lzo_reader_ok :: "handle \<Rightarrow> bool" where
  "lzo_reader_ok h \<longleftrightarrow> (case h of HLzo f \<Rightarrow> reader_ok f \<and> lmode f = LZO_READ | _ \<Rightarrow> False)"

definition lzo_stream_left :: "lzo_lib \<Rightarrow> handle \<Rightarrow> world \<Rightarrow> byte list option" where
  "lzo_stream_left lib h w = (case h of HLzo f \<Rightarrow> remaining lib f w | _ \<Rightarrow> None)"

interpretation lzo_reader:
  stream_reader "module_lzo lib level" lzo_reader_ok handle_fd "lzo_stream_left lib" "lzo_decode lib 0"
  for lib level
proof
  fix h h' :: handle and n r bs and w w' :: world and fd k mode and all :: "byte list"
  show "\<exists>r bs h' w'. cread (module_lzo lib level) h n w = Some ((r, bs, h'), w')" if ok: "lzo_reader_ok h"
  proof -
    obtain f where f: "h = HLzo f" "reader_ok f" using ok by (auto simp: lzo_reader_ok_def split: handle.splits)
    obtain r bs f' w' where "lzoread lib f n w = Some ((r, bs, f'), w')" using lzoread_terminates [OF f(2), of lib n w] by auto
    then show ?thesis using f(1) by (simp add: module_lzo_def)
  qed
  show "lzo_stream_left lib h (w\<lparr>decomp_cache_size := k\<rparr>) = lzo_stream_left lib h w"
    by (simp add: lzo_stream_left_def remaining_def split: handle.split)
  show "\<exists>h. copen (module_lzo lib level) fd mode w = Some (Some h, w) \<and> lzo_reader_ok h \<and> handle_fd h = fd \<and>
      lzo_stream_left lib h w = lzo_decode lib 0 (rest_of w fd)" if "mode \<in> {''r'', ''rb''}"
    using that reader_ok_open [of mode fd] remaining_open [of mode lib fd w]
    by (simp add: module_lzo_def lzo_reader_ok_def handle_fd_def lzo_stream_left_def) (auto simp: lzodopen_def)
  show "cclose (module_lzo lib level) h w = Some (sys_close (handle_fd h) w)" if "lzo_reader_ok h"
    using that lzoClose_reader by (auto simp: lzo_reader_ok_def module_lzo_def handle_fd_def split: handle.splits)
  assume "lzo_reader_ok h" and rd: "cread (module_lzo lib level) h n w = Some ((r, bs, h'), w')"
  then obtain f where h: "h = HLzo f" and ok: "reader_ok f" "lmode f = LZO_READ"
    by (auto simp: lzo_reader_ok_def split: handle.splits)
  obtain f' where lz: "lzoread lib f n w = Some ((r, bs, f'), w')" and h': "h' = HLzo f'"
    using rd h by (auto simp: module_lzo_def bind_eq_Some_conv)
  note sp = lzoread_spec [OF lz ok(1)]
  show "lzo_reader_ok h' \<and> handle_fd h' = handle_fd h \<and> repositioned (handle_fd h) w w'"
    using sp ok h h' by (simp add: lzo_reader_ok_def handle_fd_def)
  show "length bs \<le> n \<and> (r = -1 \<and> bs = [] \<or> r = int (length bs))" using sp by auto
  show "bs = take (length bs) all \<and> (bs \<noteq> [] \<or> n = 0 \<longrightarrow> lzo_stream_left lib h' w' = Some (drop (length bs) all))"
    if r: "r \<noteq> -1" and left: "lzo_stream_left lib h w = Some all"
  proof -
    have all: "remaining lib f w = Some all" using left h by (simp add: lzo_stream_left_def)
    then show ?thesis using sp r h' by (cases "remaining lib f' w'") (auto simp: lzo_stream_left_def)
  qed
  show "r = int (min n (length all)) \<and> clean w'"
    if c: "clean w" "can_read w (handle_fd h)" and left: "lzo_stream_left lib h w = Some all"
  proof -
    have all: "remaining lib f w = Some all" using left h by (simp add: lzo_stream_left_def)
    have "can_read w (lfd f)" using c(2) h by (simp add: handle_fd_def)
    then have "r \<noteq> -1 \<and> clean w'" using lzoread_clean [OF lz ok(1) c(1)] all by simp
    then show ?thesis using sp all by (cases "remaining lib f' w'") auto
  qed
qed

end
