(* ===== verification/DirectWrite.thy ===== *)
theory DirectWrite
  imports DirectRead
begin

text \<open>
  Writing a new file through a compressor. The locale \<open>stream_writer\<close> is what \<open>direct_compress\<close>
  relies on in a compression module; it is interpreted on the null and LZO modules. Inside it:
  after any sequence of writes and the closing of the descriptor, the file holds a header with the
  number of bytes written and a stream that stands for them.
\<close>

section \<open>Positions\<close>

text \<open>What a write through the stream does: the file behind \<open>fd\<close> grows at its end.\<close>

definition grown :: "int \<Rightarrow> world \<Rightarrow> world \<Rightarrow> byte list \<Rightarrow> bool" where
  "grown fd w w' bytes \<longleftrightarrow>
     clean w' \<and> names w' = names w \<and> fdtab w' = fdtab w \<and> at_end w' fd \<and>
     data_of w' fd = data_of w fd @ bytes"

lemma grown_append: "clean w \<Longrightarrow> at_end w fd \<Longrightarrow> grown fd w (append_fd fd bs w) bs"
  by (simp add: grown_def append_fd_data)

lemma grown_emit: "clean w \<Longrightarrow> at_end w fd \<Longrightarrow> grown fd w (emit lib fd cs w) (stream lib cs)"
  by (simp add: grown_def emit_data)

text \<open>Two descriptors of one open file see the same.\<close>

lemma shared_views:
  assumes "fdtab w b = fdtab w a"
  shows "at_end w b = at_end w a" "data_of w b = data_of w a"
  using same_slot [OF assms refl refl] by simp_all

lemma at_end_slot:
  assumes "at_end w fd"
  obtains k d i where "fdtab w fd = Some k" "ofiles w k = Some d" "inodes w (o_ino d) = Some i" "writable d"
    "o_pos d = length (idata i)" "data_of w fd = idata i"
  using assms
  by (auto simp: at_end_def fd_ofile_def data_of_def fd_inode_def bind_eq_Some_conv split: option.splits)

text \<open>Writing a new header over the old one leaves the rest of the file, and the position at the end.\<close>

lemma rewrite_header:
  assumes "clean w" and "at_end w fd" and "0 \<le> fd" and "data_of w fd = old @ rest"
    and "length old = sizeof_header" and "sz \<noteq> -1"
  shows "\<exists>w1 w2 w3. sys_lseek fd 0 SEEK_SET w = (0, w1) \<and>
    file_write_header fd m sz w1 = Some (int sizeof_header, w2) \<and>
    sys_lseek fd 0 SEEK_END w2 = (int (length (old @ rest)), w3) \<and>
    clean w3 \<and> names w3 = names w \<and> fdtab w3 = fdtab w \<and> at_end w3 fd \<and>
    data_of w3 fd = header_bytes (new_header m sz) @ rest"
proof -
  obtain k d i where k: "fdtab w fd = Some k" "ofiles w k = Some d" "inodes w (o_ino d) = Some i" "writable d"
    "o_pos d = length (idata i)" "data_of w fd = idata i"
    using at_end_slot [OF assms(2)] .
  let ?h = "header_bytes (new_header m sz)"
  have lh: "length ?h = sizeof_header" by (simp add: length_header_bytes new_header_def)
  have dt: "idata i = old @ rest" using assms(4) k(6) by simp
  let ?w1 = "set_ofile k (d\<lparr>o_pos := 0\<rparr>) w"
  let ?i = "i\<lparr>idata := ?h @ rest, imtim := now w\<rparr>"
  let ?w2 = "set_ofile k (d\<lparr>o_pos := sizeof_header\<rparr>) (set_inode (o_ino d) ?i ?w1)"
  let ?w3 = "set_ofile k (d\<lparr>o_pos := length (?h @ rest)\<rparr>) ?w2"
  have s1: "sys_lseek fd 0 SEEK_SET w = (0, ?w1)"
    using k assms(1) by (simp add: sys_lseek_def syscall_clean)
  have sp: "splice_at 0 ?h (old @ rest) = ?h @ rest"
    using lh assms(5) by (simp add: splice_at_0)
  have "sys_write fd ?h ?w1 = (int (length ?h), set_ofile k ((d\<lparr>o_pos := 0\<rparr>)\<lparr>o_pos := 0 + length ?h\<rparr>)
      (set_inode (o_ino d) (i\<lparr>idata := splice_at 0 ?h (idata i), imtim := now w\<rparr>) ?w1))"
    using sys_write_runs [of ?w1 fd k "d\<lparr>o_pos := 0\<rparr>" i ?h] k assms(1)
    by (simp add: set_ofile_def writable_def)
  then have s2: "sys_write fd ?h ?w1 = (int sizeof_header, ?w2)"
    using sp dt lh by simp
  have s3: "sys_lseek fd 0 SEEK_END ?w2 = (int (length (old @ rest)), ?w3)"
    using k assms(1,5) lh by (simp add: sys_lseek_def syscall_clean set_ofile_def set_inode_def Let_def nat_add_distrib)
  have "at_end ?w3 fd" "data_of ?w3 fd = ?h @ rest"
    using k by (simp_all add: at_end_def data_of_def fd_ofile_def fd_inode_def set_ofile_def set_inode_def writable_def)
  moreover have "file_write_header fd m sz ?w1 = Some (int sizeof_header, ?w2)"
    using s2 assms(3,6) by (simp add: file_write_header_def)
  ultimately show ?thesis
    using s1 s3 assms(1)
    by (intro exI [of _ ?w1] exI [of _ ?w2] exI [of _ ?w3]) (simp add: set_ofile_def set_inode_def)
qed

text \<open>Consecutive writes through one descriptor, each of them accepted completely.\<close>

fun direct_writes ::
  "config \<Rightarrow> nat \<Rightarrow> off \<Rightarrow> byte list list \<Rightarrow> file_t \<Rightarrow> world \<Rightarrow> (file_t \<times> world) option" where
  "direct_writes cfg d offset [] f w = Some (f, w)"
| "direct_writes cfg d offset (bs # pieces) f w = do {
     (n, f, w) \<leftarrow> direct_compress cfg f d bs offset w;
     assert (n = int (length bs));
     direct_writes cfg d (offset + n) pieces f w
   }"

text \<open>A new file, before the first write.\<close>

definition fresh :: "file_t \<Rightarrow> descriptor_t \<Rightarrow> world \<Rightarrow> bool" where
  "fresh f x w \<longleftrightarrow>
     clean w \<and> world_ok w \<and> fsize f = 0 \<and> d_offset x = 0 \<and> d_handle x = None \<and> data_of w (d_fd x) = [] \<and>
     (\<exists>k d. fdtab w (d_fd x) = Some k \<and> ofiles w k = Some d \<and> writable d)"

definition writer_file :: "nat \<Rightarrow> file_t \<Rightarrow> bool" where
  "writer_file c f \<longleftrightarrow>
     fcompressor f = Some c \<and> DECOMPRESSING \<notin> status f \<and> ftype f \<noteq> READ \<and> accesses f \<le> 1"

section \<open>What a module's stream promises\<close>

text \<open>
  \<open>stored h data bytes\<close>: the stream has accepted \<open>data\<close> and, of that, put \<open>bytes\<close> into the file.
  Closing it puts the rest there.
\<close>

locale stream_writer =
  fixes m :: compressor_t
    and level :: string
    and ok :: "handle \<Rightarrow> bool"
    and hfd :: "handle \<Rightarrow> int"
    and stored :: "handle \<Rightarrow> byte list \<Rightarrow> byte list \<Rightarrow> bool"
    and decode :: "byte list \<Rightarrow> byte list option"
  assumes open_writer: "fd \<noteq> 0 \<Longrightarrow>
      \<exists>h. copen m fd level w = Some (Some h, w) \<and> ok h \<and> hfd h = fd \<and> stored h [] []"
    and write_clean: "ok h \<Longrightarrow> clean w \<Longrightarrow> at_end w (hfd h) \<Longrightarrow> stored h data bytes \<Longrightarrow> bs \<noteq> [] \<Longrightarrow>
      \<exists>h' w' new. cwrite m h bs w = Some ((int (length bs), h'), w') \<and> ok h' \<and> hfd h' = hfd h \<and>
        stored h' (data @ bs) (bytes @ new) \<and> grown (hfd h) w w' new"
    and close_writer: "ok h \<Longrightarrow> clean w \<Longrightarrow> at_end w (hfd h) \<Longrightarrow> stored h data bytes \<Longrightarrow>
      \<exists>w' new. cclose m h w = Some (sys_close (hfd h) w') \<and> grown (hfd h) w w' new \<and> decode (bytes @ new) = Some data"

begin

section \<open>A sequence of writes\<close>

text \<open>
  Between two writes: the descriptor's stream has accepted \<open>data\<close>, and the file holds a header with
  its length and what the stream put there.
\<close>

definition writing :: "byte list \<Rightarrow> off \<Rightarrow> descriptor_t \<Rightarrow> world \<Rightarrow> bool" where
  "writing data sz x w \<longleftrightarrow>
     clean w \<and> at_end w (d_fd x) \<and> 0 \<le> d_fd x \<and> sz = int (length data) \<and> d_offset x = int (length data) \<and>
     (\<exists>h bytes. d_handle x = Some h \<and> ok h \<and> hfd h \<noteq> d_fd x \<and> fdtab w (hfd h) = fdtab w (d_fd x) \<and>
        stored h data bytes \<and> data_of w (d_fd x) = header_bytes (new_header m (int (length data))) @ bytes)"

lemma start_stream_clean:
  assumes "clean w" and "world_ok w" and "fsize f = 0" and "d_offset x = 0" and "d_handle x = None"
    and "compresslevel cfg = level" and "fdtab w (d_fd x) = Some k" and "ofiles w k = Some d" and "writable d"
    and "data_of w (d_fd x) = []"
  shows "\<exists>h w'. start_stream cfg m f x w = Some (True, x\<lparr>d_handle := Some h\<rparr>, w') \<and>
    writing [] 0 (x\<lparr>d_handle := Some h\<rparr>) w' \<and> names w' = names w"
proof -
  obtain i where i: "inodes w (o_ino d) = Some i" using world_ok_ofile [OF assms(2,8)] by blast
  have fd: "0 \<le> d_fd x" "d_fd x < int (next_fd w)" using world_ok_fd [OF assms(2,7)] by simp_all
  let ?w1 = "set_ofile k (d\<lparr>o_pos := 0\<rparr>) w"
  let ?h = "header_bytes (new_header m 0)"
  let ?w2 = "append_fd (d_fd x) ?h ?w1"
  have s1: "sys_lseek (d_fd x) 0 SEEK_SET w = (0, ?w1)"
    using assms(1,7,8) by (simp add: sys_lseek_def syscall_clean)
  have e: "idata i = []" using assms(7,8,10) i by (simp add: data_of_def fd_inode_def fd_ofile_def)
  have ae1: "at_end ?w1 (d_fd x)" "data_of ?w1 (d_fd x) = []"
    using assms(7-9) i e by (simp_all add: at_end_def data_of_def fd_ofile_def fd_inode_def set_ofile_def writable_def)
  have c1: "clean ?w1" "names ?w1 = names w" "fdtab ?w1 = fdtab w" using assms(1) by (simp_all add: set_ofile_def)
  have lh: "length ?h = sizeof_header" by (simp add: length_header_bytes new_header_def)
  have s2: "file_write_header (d_fd x) m 0 ?w1 = Some (int sizeof_header, ?w2)"
    using sys_write_appends [OF c1(1) ae1(1), of ?h] fd(1) lh by (simp add: file_write_header_def)
  have ok1: "world_ok ?w1" by (rule world_ok_set_ofile [OF assms(2,8)]) simp
  have ae2: "at_end ?w2 (d_fd x)" "data_of ?w2 (d_fd x) = ?h" "clean ?w2"
    using ae1 append_fd_data [OF ae1(1), of ?h] c1(1) by simp_all
  obtain fd2 w3 where du: "sys_dup (d_fd x) ?w2 = (fd2, w3)" by fastforce
  have k2: "fdtab ?w2 (d_fd x) = Some k" using assms(7) c1(3) by simp
  have w3: "fd2 = int (next_fd w)" "w3 = ?w2\<lparr>fdtab := (fdtab ?w2)(int (next_fd ?w2) \<mapsto> k), next_fd := next_fd ?w2 + 1\<rparr>"
    using du k2 ae2(3) by (auto simp: sys_dup_def syscall_clean set_ofile_def)
  have ne: "fd2 \<noteq> d_fd x" "fd2 \<noteq> 0" using w3(1) fd by auto
  obtain h where h: "copen m fd2 level w3 = Some (Some h, w3)" "ok h" "hfd h = fd2" "stored h [] []"
    using open_writer [OF ne(2)] by blast
  have t: "fdtab w3 fd2 = Some k" "fdtab w3 (d_fd x) = Some k" "ofiles w3 = ofiles ?w2" "inodes w3 = inodes ?w2"
    using w3 k2 ne by (simp_all add: set_ofile_def)
  have v: "at_end w3 (d_fd x)" "data_of w3 (d_fd x) = ?h" "clean w3" "names w3 = names w"
    using same_slot(1,4) [of w3 "d_fd x" ?w2 "d_fd x"] t(2-4) k2 ae2 w3(2) c1 by simp_all
  have "start_stream cfg m f x w = Some (True, x\<lparr>d_handle := Some h\<rparr>, w3)"
    using assms(3-6) s1 s2 du h(1) by (simp add: start_stream_def)
  moreover have "writing [] 0 (x\<lparr>d_handle := Some h\<rparr>) w3"
    using v fd(1) assms(4) h ne t(1,2) by (auto simp: writing_def)
  ultimately show ?thesis using v(4) by blast
qed

lemma write_stream_clean:
  assumes "writing data (fsize f) x w" and "bs \<noteq> []"
  shows "\<exists>h' w'. let x' = x\<lparr>d_handle := Some h', d_offset := d_offset x + int (length bs)\<rparr> in
    write_stream m f x bs w = Some (int (length bs), put_desc x' (f\<lparr>fsize := d_offset x'\<rparr>), w') \<and>
    writing (data @ bs) (d_offset x') x' w' \<and> names w' = names w"
proof -
  obtain h bytes where h: "d_handle x = Some h" "ok h" "hfd h \<noteq> d_fd x" "fdtab w (hfd h) = fdtab w (d_fd x)"
    "stored h data bytes" "data_of w (d_fd x) = header_bytes (new_header m (int (length data))) @ bytes"
    and w: "clean w" "at_end w (d_fd x)" "0 \<le> d_fd x" "fsize f = int (length data)" "d_offset x = int (length data)"
    using assms(1) by (auto simp: writing_def)
  have ae: "at_end w (hfd h)" using shared_views(1) [OF h(4)] w(2) by simp
  obtain h' w1 new where wr: "cwrite m h bs w = Some ((int (length bs), h'), w1)" "ok h'" "hfd h' = hfd h"
    "stored h' (data @ bs) (bytes @ new)" "grown (hfd h) w w1 new"
    using write_clean [OF h(2) w(1) ae h(5) assms(2)] by blast
  have g: "clean w1" "names w1 = names w" "fdtab w1 = fdtab w" "at_end w1 (hfd h)" "data_of w1 (hfd h) = data_of w (hfd h) @ new"
    using wr(5) by (simp_all add: grown_def)
  have t1: "fdtab w1 (hfd h) = fdtab w1 (d_fd x)" using g(3) h(4) by simp
  have d1: "at_end w1 (d_fd x)"
    "data_of w1 (d_fd x) = header_bytes (new_header m (int (length data))) @ (bytes @ new)"
    using shared_views [OF t1] shared_views(2) [OF h(4)] g(4,5) h(6) by simp_all
  let ?n = "int (length (data @ bs))"
  obtain w2 w3 w4 where rw: "sys_lseek (d_fd x) 0 SEEK_SET w1 = (0, w2)"
    "file_write_header (d_fd x) m ?n w2 = Some (int sizeof_header, w3)"
    "sys_lseek (d_fd x) 0 SEEK_END w3 = (int (length (header_bytes (new_header m (int (length data))) @ (bytes @ new))), w4)"
    "clean w4" "names w4 = names w1" "fdtab w4 = fdtab w1" "at_end w4 (d_fd x)"
    "data_of w4 (d_fd x) = header_bytes (new_header m ?n) @ (bytes @ new)"
    using rewrite_header [OF g(1) d1(1) w(3) d1(2), of ?n m] by (auto simp: length_header_bytes new_header_def)
  let ?x = "x\<lparr>d_handle := Some h', d_offset := d_offset x + int (length bs)\<rparr>"
  have o: "d_offset x + int (length bs) = ?n" using w(5) by simp
  have run: "write_stream m f x bs w = Some (int (length bs), put_desc ?x (f\<lparr>fsize := d_offset ?x\<rparr>), w4)"
    using h(1) wr(1) rw(1-3) o by (simp add: write_stream_def)
  have "writing (data @ bs) (d_offset ?x) ?x w4"
    using rw(4,6-8) wr(2-4) w(3,5) h(3) t1 by (auto simp: writing_def)
  then show ?thesis using run rw(5) g(2) unfolding Let_def
    by (intro exI [of _ h'] exI [of _ w4]) simp
qed

definition between_writes :: "byte list \<Rightarrow> file_t \<Rightarrow> descriptor_t \<Rightarrow> world \<Rightarrow> bool" where
  "between_writes data f x w \<longleftrightarrow> writing data (fsize f) x w \<or> data = [] \<and> fresh f x w"

lemma at_end_cache [simp]: "at_end (w\<lparr>decomp_cache_size := k\<rparr>) fd = at_end w fd"
  by (simp add: at_end_def cong: option.case_cong)

lemma between_writes_cache:
  "between_writes data f x (w\<lparr>decomp_cache_size := k\<rparr>) = between_writes data f x w"
  by (simp add: between_writes_def writing_def fresh_def)

lemma between_writesD:
  "between_writes data f x w \<Longrightarrow>
   fsize f = int (length data) \<and> d_offset x = int (length data) \<and> clean w \<and> d_fd x \<noteq> -1"
  using world_ok_fd by (fastforce simp: between_writes_def writing_def fresh_def)

lemma direct_compress_clean:
  assumes "module_of cfg c = Some m" and "compresslevel cfg = level" and "\<not> read_only cfg"
    and "writer_file c f" and "find_desc d f = Some x" and "between_writes data f x w" and "bs \<noteq> []"
    and "offset = int (length data)"
  shows "\<exists>f' x' w'. direct_compress cfg f d bs offset w = Some (int (length bs), f', w') \<and>
    writer_file c f' \<and> find_desc d f' = Some x' \<and> writing (data @ bs) (fsize f') x' w' \<and>
    d_fd x' = d_fd x \<and> names w' = names w"
proof -
  note b = between_writesD [OF assms(6)]
  have wf: "fcompressor f = Some c" "DECOMPRESSING \<notin> status f" "ftype f \<noteq> READ" "accesses f \<le> 1"
    using assms(4) by (simp_all add: writer_file_def)
  obtain w1 where fl: "flush_file_cache f w = (f\<lparr>cache := None\<rparr>, w1)" and w1: "\<exists>k. w1 = w\<lparr>decomp_cache_size := k\<rparr>"
    by (auto simp: flush_file_cache_def)
  let ?f = "f\<lparr>cache := None, ftype := WRITE\<rparr>"
  obtain k where k: "w1 = w\<lparr>decomp_cache_size := k\<rparr>" using w1 by blast
  have "between_writes data ?f x w" using assms(6) by (simp add: between_writes_def fresh_def)
  then have bw: "between_writes data ?f x w1" "names w1 = names w"
    unfolding k between_writes_cache by simp_all
  have t: "(if ftype (f\<lparr>cache := None\<rparr>) = TYPE_NONE then f\<lparr>cache := None\<rparr>\<lparr>ftype := WRITE\<rparr> else f\<lparr>cache := None\<rparr>) = ?f"
    using wf(3) by (cases "ftype f") simp_all
  obtain h w2 where st: "start_stream cfg m ?f x w1 = Some (True, x\<lparr>d_handle := Some h\<rparr>, w2)"
    "writing data (fsize ?f) (x\<lparr>d_handle := Some h\<rparr>) w2" "names w2 = names w1"
  proof (cases "writing data (fsize ?f) x w1")
    case True
    then obtain h where h: "d_handle x = Some h" by (auto simp: writing_def)
    then have x: "x\<lparr>d_handle := Some h\<rparr> = x" by simp
    show ?thesis using that [of h w1] True h unfolding x by (simp add: start_stream_def)
  next
    case False
    then have d: "data = []" and fr: "fresh ?f x w1" using bw(1) by (auto simp: between_writes_def)
    then obtain k d' where k: "fdtab w1 (d_fd x) = Some k" "ofiles w1 k = Some d'" "writable d'"
      by (auto simp: fresh_def)
    have f0: "clean w1" "world_ok w1" "fsize ?f = 0" "d_offset x = 0" "d_handle x = None" "data_of w1 (d_fd x) = []"
      using fr by (simp_all add: fresh_def)
    obtain h w2 where s: "start_stream cfg m ?f x w1 = Some (True, x\<lparr>d_handle := Some h\<rparr>, w2)"
      "writing [] 0 (x\<lparr>d_handle := Some h\<rparr>) w2" "names w2 = names w1"
      using start_stream_clean [OF f0(1-5) assms(2) k f0(6)] by blast
    show ?thesis using that [OF s(1) _ s(3)] s(2) d f0(3) by simp
  qed
  obtain h' w3 where ws: "let x' = x\<lparr>d_handle := Some h', d_offset := d_offset x + int (length bs)\<rparr> in
    write_stream m ?f (x\<lparr>d_handle := Some h\<rparr>) bs w2 = Some (int (length bs), put_desc x' (?f\<lparr>fsize := d_offset x'\<rparr>), w3) \<and>
    writing (data @ bs) (d_offset x') x' w3 \<and> names w3 = names w2"
    using write_stream_clean [OF st(2) assms(7)] by auto
  let ?x = "x\<lparr>d_handle := Some h', d_offset := d_offset x + int (length bs)\<rparr>"
  let ?g = "put_desc ?x (?f\<lparr>fsize := d_offset ?x\<rparr>)"
  have as: "assert (d_fd x \<noteq> -1) = Some ()" "assert (\<not> read_only cfg) = Some ()"
    "assert (DECOMPRESSING \<notin> status (f\<lparr>cache := None\<rparr>)) = Some ()"
    using b assms(3) wf(2) by simp_all
  have nf: "\<not> (d_offset x \<noteq> fsize ?f \<or> d_offset x \<noteq> offset \<or> ftype ?f \<noteq> WRITE \<or> accesses ?f > 1)"
    using b wf(4) assms(8) by simp
  have "direct_compress cfg f d bs offset w = Some (int (length bs), ?g, w3)"
    unfolding direct_compress_def wf(1) assms(1,5) bind.bind_lunit as fl Let_def prod.case t
    using nf st(1) ws by (simp add: Let_def)
  moreover have "writer_file c ?g" using wf by (simp add: writer_file_def put_desc_def)
  moreover have "find_desc d ?g = Some ?x"
    by (rule find_put_desc [of d _ x]) (use assms(5) find_desc_id [OF assms(5)] in \<open>simp_all add: find_desc_def\<close>)
  moreover have "writing (data @ bs) (fsize ?g) ?x w3" "names w3 = names w" "d_fd ?x = d_fd x"
    using ws st(3) bw(2) by (simp_all add: Let_def put_desc_def)
  ultimately show ?thesis by blast
qed

text \<open>Closing the descriptor completes the stream.\<close>

lemma data_of_set_inode:
  assumes "inodes w n = Some i" and "idata j = idata i"
  shows "data_of (set_inode n j w) fd = data_of w fd"
proof (cases "fd_ofile w fd")
  case None
  then show ?thesis by (simp add: data_of_def fd_inode_def fd_ofile_def set_inode_def)
next
  case (Some d)
  then have "fd_ofile (set_inode n j w) fd = Some d" by (simp add: fd_ofile_def set_inode_def)
  then show ?thesis using Some assms by (simp add: data_of_def fd_inode_def set_inode_def)
qed

lemma sys_utime_data:
  assumes "sys_utime p a t w = (r, w')"
  shows "data_of w' fd = data_of w fd"
proof -
  consider "agree w' w" | n i where "inodes w n = Some i" "agree w' (set_inode n (i\<lparr>iatim := (a, 0), imtim := (t, 0)\<rparr>) w)"
    using on_path_spec [OF assms [unfolded sys_utime_def]] by blast
  then show ?thesis
    using agree_views(4) data_of_set_inode by cases simp_all
qed

lemma direct_close_clean:
  assumes "module_of cfg c = Some m" and "fcompressor f = Some c" and "writing data sz x w"
  shows "\<exists>r f' x' w' enc. direct_close cfg f x w = Some (r, f', x', w') \<and> d_handle x' = None \<and>
    data_of w' (d_fd x) = header_bytes (new_header m (int (length data))) @ enc \<and> decode enc = Some data"
proof -
  obtain h bytes where h: "d_handle x = Some h" "ok h" "hfd h \<noteq> d_fd x" "fdtab w (hfd h) = fdtab w (d_fd x)"
    "stored h data bytes" "data_of w (d_fd x) = header_bytes (new_header m (int (length data))) @ bytes"
    and w: "clean w" "at_end w (d_fd x)"
    using assms(3) by (auto simp: writing_def)
  obtain stret st w1 where fs: "sys_fstat (d_fd x) no_stat w = ((stret, st), w1)" by (metis prod.collapse)
  have w1: "agree w1 w" "clean w1"
    using sys_fstat_spec [OF fs] fs w(1)
    by (auto simp: sys_fstat_def next_outcome_clean split: option.splits)
  have ae: "at_end w1 (hfd h)" using shared_views(1) [OF h(4)] w(2) agree_views(1) [OF w1(1)] by simp
  obtain w2 new where cl: "cclose m h w1 = Some (sys_close (hfd h) w2)" "grown (hfd h) w1 w2 new" "decode (bytes @ new) = Some data"
    using close_writer [OF h(2) w1(2) ae h(5)] by blast
  obtain r w3 where sc: "sys_close (hfd h) w2 = (r, w3)" by fastforce
  have t2: "fdtab w2 (hfd h) = fdtab w2 (d_fd x)" using cl(2) agreeD(4) [OF w1(1)] h(4) by (simp add: grown_def)
  have "data_of w2 (d_fd x) = data_of w1 (hfd h) @ new"
    using shared_views(2) [OF t2] cl(2) by (simp add: grown_def)
  also have "data_of w1 (hfd h) = data_of w (d_fd x)"
    using agree_views(4) [OF w1(1)] shared_views(2) [OF h(4)] by simp
  finally have d2: "data_of w2 (d_fd x) = header_bytes (new_header m (int (length data))) @ (bytes @ new)"
    using h(6) by simp
  have "agree w3 (w2\<lparr>fdtab := (fdtab w2)(hfd h := None)\<rparr>)" using sys_close_spec [OF sc] by simp
  then have "data_of w3 (d_fd x) = data_of (w2\<lparr>fdtab := (fdtab w2)(hfd h := None)\<rparr>) (d_fd x)"
    by (rule agree_views(4))
  also have "\<dots> = data_of w2 (d_fd x)"
    using h(3) by (simp add: data_of_def fd_inode_def fd_ofile_def)
  finally have d3: "data_of w3 (d_fd x) = data_of w2 (d_fd x)" .
  let ?w4 = "if ftype f = WRITE \<and> stret = 0
             then snd (sys_utime (filename f) (fst (st_atim st)) (fst (st_mtim st)) w3) else w3"
  obtain r4 v where ut: "sys_utime (filename f) (fst (st_atim st)) (fst (st_mtim st)) w3 = (r4, v)" by fastforce
  have d4: "data_of ?w4 (d_fd x) = data_of w3 (d_fd x)" using sys_utime_data [OF ut, of "d_fd x"] ut by simp
  have "direct_close cfg f x w =
      Some (r, if accesses f = 1 then f\<lparr>ftype := TYPE_NONE, dontcompress := False\<rparr> else f,
            x\<lparr>d_offset := 0, d_handle := None\<rparr>, ?w4)"
    using fs h(1) assms(1,2) cl(1) sc by (simp add: direct_close_def)
  then show ?thesis using d4 d3 d2 cl(3) by fastforce
qed

text \<open>Any number of writes, one after the other, and then the closing.\<close>

lemma direct_writes_clean:
  assumes "module_of cfg c = Some m" and "compresslevel cfg = level" and "\<not> read_only cfg"
  shows "writer_file c f \<Longrightarrow> find_desc d f = Some x \<Longrightarrow> between_writes data f x w \<Longrightarrow>
    \<forall>bs \<in> set pieces. bs \<noteq> [] \<Longrightarrow> pieces \<noteq> [] \<or> writing data (fsize f) x w \<Longrightarrow>
    \<exists>f' x' w'. direct_writes cfg d (int (length data)) pieces f w = Some (f', w') \<and>
      writer_file c f' \<and> find_desc d f' = Some x' \<and> d_fd x' = d_fd x \<and> names w' = names w \<and>
      writing (data @ concat pieces) (fsize f') x' w'"
proof (induction pieces arbitrary: data f x w)
  case Nil
  then show ?case by simp
next
  case (Cons bs pieces)
  have bs: "bs \<noteq> []" using Cons.prems(4) by simp
  obtain f1 x1 w1 where 1: "direct_compress cfg f d bs (int (length data)) w = Some (int (length bs), f1, w1)"
    "writer_file c f1" "find_desc d f1 = Some x1" "writing (data @ bs) (fsize f1) x1 w1" "d_fd x1 = d_fd x" "names w1 = names w"
    using direct_compress_clean [OF assms Cons.prems(1-3) bs refl] by blast
  have b1: "between_writes (data @ bs) f1 x1 w1" using 1(4) by (simp add: between_writes_def)
  show ?case
    using Cons.IH [OF 1(2,3) b1] Cons.prems(4) 1 by auto
qed

lemma written_file:
  assumes "module_of cfg c = Some m" and "compresslevel cfg = level" and "\<not> read_only cfg"
    and "writer_file c f" and "find_desc d f = Some x" and "fresh f x w"
    and "\<forall>bs \<in> set pieces. bs \<noteq> []" and "pieces \<noteq> []"
  shows "\<exists>f1 x1 w1 r f' x' w' enc. direct_writes cfg d 0 pieces f w = Some (f1, w1) \<and>
    find_desc d f1 = Some x1 \<and> fsize f1 = int (length (concat pieces)) \<and>
    direct_close cfg f1 x1 w1 = Some (r, f', x', w') \<and> d_handle x' = None \<and>
    data_of w' (d_fd x) = header_bytes (new_header m (int (length (concat pieces)))) @ enc \<and>
    decode enc = Some (concat pieces)"
proof -
  have b: "between_writes [] f x w" using assms(6) by (simp add: between_writes_def)
  obtain f1 x1 w1 where 1: "direct_writes cfg d 0 pieces f w = Some (f1, w1)" "writer_file c f1"
    "find_desc d f1 = Some x1" "d_fd x1 = d_fd x" "writing (concat pieces) (fsize f1) x1 w1"
    using direct_writes_clean [OF assms(1-3) assms(4,5) b assms(7)] assms(8) by auto
  have c: "fcompressor f1 = Some c" using 1(2) by (simp add: writer_file_def)
  have sz: "fsize f1 = int (length (concat pieces))" using 1(5) by (simp add: writing_def)
  show ?thesis using direct_close_clean [OF assms(1) c 1(5)] 1 sz by metis
qed

end

section \<open>The modules of the repository keep the promises\<close>

definition null_stored :: "handle \<Rightarrow> byte list \<Rightarrow> byte list \<Rightarrow> bool" where
  "null_stored h data bytes \<longleftrightarrow> bytes = data"

interpretation null_writer: stream_writer module_null level null_reader_ok handle_fd null_stored Some
  for level
proof
  fix fd :: int and w :: world and h bs data bytes
  show "\<exists>h. copen module_null fd level w = Some (Some h, w) \<and> null_reader_ok h \<and> handle_fd h = fd \<and> null_stored h [] []"
    if "fd \<noteq> 0"
    using that by (simp add: module_null_def nullOpen_def null_reader_ok_def handle_fd_def null_stored_def)
  assume ok: "null_reader_ok h" and c: "clean w" "at_end w (handle_fd h)" and st: "null_stored h data bytes"
  obtain fd where h: "h = HFd fd" using ok by (auto simp: null_reader_ok_def split: handle.splits)
  have ae: "at_end w fd" using c(2) h by (simp add: handle_fd_def)
  show "\<exists>h' w' new. cwrite module_null h bs w = Some ((int (length bs), h'), w') \<and> null_reader_ok h' \<and>
      handle_fd h' = handle_fd h \<and> null_stored h' (data @ bs) (bytes @ new) \<and> grown (handle_fd h) w w' new"
    using sys_write_appends [OF c(1) ae, of bs] grown_append [OF c(1) ae, of bs] st h
    by (simp add: module_null_def null_reader_ok_def handle_fd_def null_stored_def)
  have "grown fd w w []" using c(1) ae by (simp add: grown_def)
  then show "\<exists>w' new. cclose module_null h w = Some (sys_close (handle_fd h) w') \<and> grown (handle_fd h) w w' new \<and>
      Some (bytes @ new) = Some data"
    using h st by (auto simp: module_null_def handle_fd_def null_stored_def)
qed

definition lzo_writer_ok :: "handle \<Rightarrow> bool" where
  "lzo_writer_ok h \<longleftrightarrow> (case h of HLzo f \<Rightarrow> writer_ok f | _ \<Rightarrow> False)"

definition lzo_handle_stored :: "lzo_lib \<Rightarrow> handle \<Rightarrow> byte list \<Rightarrow> byte list \<Rightarrow> bool" where
  "lzo_handle_stored lib h data bytes \<longleftrightarrow> (case h of HLzo f \<Rightarrow> lzo_stored lib f data bytes | _ \<Rightarrow> False)"

lemma lzo_stored_decodes:
  assumes "lzo_lib_ok lib" and "writer_ok f" and "lzo_stored lib f data bytes"
  shows "lzo_decode lib 0 (bytes @ stream lib [waiting f]) = Some data"
proof -
  obtain chunks where ch: "bytes = stream lib chunks" "data = concat chunks @ waiting f"
    "\<forall>c \<in> set chunks. length c = WRITE_BUFFER_SIZE" "data \<noteq> [] \<longrightarrow> waiting f \<noteq> []"
    using assms(3) unfolding lzo_stored_def by blast
  have full: "\<forall>c \<in> set chunks. length c < 2 ^ 64 \<and> c \<noteq> []" using ch(3) by auto
  have "waiting f = [] \<longrightarrow> chunks = [] \<and> 0 = (0::nat)"
    using ch(2,4) full by (cases chunks) auto
  moreover have "length (waiting f) < 2 ^ 64"
    using length_waiting [OF assms(2)] assms(2) by (simp add: writer_ok_def)
  ultimately have "lzo_decode lib 0 (stream lib (chunks @ [waiting f])) = Some (concat chunks @ waiting f)"
    using lzo_decode_stream [OF assms(1) full, of "waiting f" 0] by blast
  then show ?thesis using ch(1,2) by (simp add: stream_append)
qed

lemma lzo_stream_writer:
  assumes "lzo_lib_ok lib" and "CHR ''r'' \<notin> set level"
  shows "stream_writer (module_lzo lib level') level lzo_writer_ok handle_fd (lzo_handle_stored lib) (lzo_decode lib 0)"
proof
  fix fd :: int and w :: world and h bs data bytes
  have "lzo_stored lib (lzodopen fd level) [] []"
    unfolding lzo_stored_def using lzodopen_writer_ok [OF assms(2), of fd]
    by (intro exI [of _ "[]"]) (simp add: stream_def)
  then show "\<exists>h. copen (module_lzo lib level') fd level w = Some (Some h, w) \<and> lzo_writer_ok h \<and> handle_fd h = fd \<and>
      lzo_handle_stored lib h [] []"
    using lzodopen_writer_ok [OF assms(2), of fd]
    by (simp add: module_lzo_def lzo_writer_ok_def handle_fd_def lzo_handle_stored_def)
  assume ok: "lzo_writer_ok h" and c: "clean w" "at_end w (handle_fd h)" and st: "lzo_handle_stored lib h data bytes"
  obtain f where h: "h = HLzo f" and wok: "writer_ok f" using ok by (auto simp: lzo_writer_ok_def split: handle.splits)
  have ae: "at_end w (lfd f)" and stf: "lzo_stored lib f data bytes"
    using c(2) st h by (simp_all add: handle_fd_def lzo_handle_stored_def)
  show "\<exists>h' w' new. cwrite (module_lzo lib level') h bs w = Some ((int (length bs), h'), w') \<and> lzo_writer_ok h' \<and>
      handle_fd h' = handle_fd h \<and> lzo_handle_stored lib h' (data @ bs) (bytes @ new) \<and> grown (handle_fd h) w w' new"
    if bs: "bs \<noteq> []"
  proof -
    obtain g chunks where 1: "lzowrite_loop lib f bs w = Some ((True, g), emit lib (lfd f) chunks w)"
      "writer_ok g" "lfd g = lfd f"
      using lzowrite_loop_clean [OF c(1) ae wok assms(1), of bs] by blast
    then have wr: "lzowrite lib f bs w = Some ((int (length bs), g), emit lib (lfd f) chunks w)"
      by (simp add: lzowrite_def)
    obtain new where new: "data_of (emit lib (lfd f) chunks w) (lfd f) = data_of w (lfd f) @ new"
      "lzo_stored lib g (data @ bs) (bytes @ new)"
      using lzo_write_clean [OF wok assms(1) wr c(1) ae stf bs] by blast
    have "grown (lfd f) w (emit lib (lfd f) chunks w) new"
      using grown_emit [OF c(1) ae, of lib chunks] new(1) by (simp add: grown_def)
    then show ?thesis using wr new(2) 1(2,3) h
      by (auto simp: module_lzo_def lzo_writer_ok_def handle_fd_def lzo_handle_stored_def)
  qed
  show "\<exists>w' new. cclose (module_lzo lib level') h w = Some (sys_close (handle_fd h) w') \<and> grown (handle_fd h) w w' new \<and>
      lzo_decode lib 0 (bytes @ new) = Some data"
    using lzoclose_clean [OF c(1) ae wok assms(1)] grown_emit [OF c(1) ae, of lib "[waiting f]"]
      lzo_stored_decodes [OF assms(1) wok stf] h
    by (auto simp: module_lzo_def lzoClose_def handle_fd_def)
qed

end
