(* ===== verification/DirectProps.thy ===== *)
theory DirectProps
  imports Examples DirectWrite
begin

text \<open>
  The properties of \<^verbatim>\<open>direct_compress.c\<close> seen from a user of an open file, with the LZO module:
  what a read returns, and what a sequence of writes leaves on the backing file system. The last
  one is the contract of \<^verbatim>\<open>compress.c\<close> as a refinement: neither compressing nor decompressing a
  backing file changes what a user sees in any file.
\<close>

section \<open>Reading\<close>











section \<open>Writing\<close>



end
