(* ===== verification/FileDbInv.thy ===== *)
theory FileDbInv
  imports FileDb
begin

text \<open>
  The invariant of the database of files: who uses an entry, and that every operation accounts for
  it.

  A file is used by its open descriptors, by its entries in the queue, and by whoever holds it for
  a moment without being either: the background thread that has taken its entry, or a rename
  that waits for its second file. \<open>accesses\<close> counts them all; \<open>H i\<close> is the number of holders of
  file \<open>i\<close>. The database holds each name once, and the two counters are the lengths of the lists.
  \<open>direct_open\<close> counts its new entry before it purges, so the invariant has an offset \<open>k\<close> for
  the first counter.
\<close>

definition queued :: "(nat \<times> bool) list \<Rightarrow> nat \<Rightarrow> nat" where
  "queued q i = length (filter (\<lambda>e. fst e = i) q)"

lemma queued_simps [simp]:
  "queued [] i = 0" "queued (e # q) i = (if fst e = i then 1 else 0) + queued q i"
  "queued (q @ r) i = queued q i + queued r i"
  by (simp_all add: queued_def)

lemma queued_pos: "(i, b) \<in> set q \<Longrightarrow> 0 < queued q i"
  by (induction q) auto

definition uses :: "(nat \<times> bool) list \<Rightarrow> (nat \<Rightarrow> nat) \<Rightarrow> nat \<Rightarrow> file_t \<Rightarrow> nat" where
  "uses q H i f = length (head f) + queued q i + H i"

definition file_ok :: "(nat \<times> bool) list \<Rightarrow> (nat \<Rightarrow> nat) \<Rightarrow> nat \<Rightarrow> file_t \<Rightarrow> bool" where
  "file_ok q H i f \<longleftrightarrow>
     name_ok (filename f) \<and> filename_hash f = hash_of (filename f) \<and> accesses f = int (uses q H i f)"

definition fdb_inv :: "int \<Rightarrow> (nat \<Rightarrow> nat) \<Rightarrow> fdb \<Rightarrow> bool" where
  "fdb_inv k H db \<longleftrightarrow>
     distinct (database db) \<and>
     db_entries db = int (length (database db)) + k \<and>
     comp_entries db = int (length (comp_queue db)) \<and>
     (\<forall>i. i \<in> set (database db) \<longleftrightarrow> files db i \<noteq> None) \<and>
     (\<forall>i f. files db i = Some f \<longrightarrow> i < next_fid db \<and> file_ok (comp_queue db) H i f) \<and>
     (\<forall>i j f g. files db i = Some f \<longrightarrow> files db j = Some g \<longrightarrow> filename f = filename g \<longrightarrow> i = j) \<and>
     (\<forall>i b. (i, b) \<in> set (comp_queue db) \<longrightarrow> files db i \<noteq> None) \<and>
     (\<forall>i. H i \<noteq> 0 \<longrightarrow> files db i \<noteq> None)"

lemma fdb_invD:
  assumes "fdb_inv k H db"
  shows "distinct (database db)" "db_entries db = int (length (database db)) + k"
    "comp_entries db = int (length (comp_queue db))"
    "i \<in> set (database db) \<longleftrightarrow> files db i \<noteq> None"
    "files db i = Some f \<Longrightarrow> i < next_fid db \<and> file_ok (comp_queue db) H i f"
    "files db i = Some f \<Longrightarrow> files db j = Some g \<Longrightarrow> filename f = filename g \<Longrightarrow> i = j"
    "(i, b) \<in> set (comp_queue db) \<Longrightarrow> \<exists>f. files db i = Some f"
    "H i \<noteq> 0 \<Longrightarrow> \<exists>f. files db i = Some f"
  using assms unfolding fdb_inv_def by blast+

lemma fdb_ok_empty: "fdb_inv 0 (\<lambda>_. 0) empty_fdb"
  by (simp add: fdb_inv_def empty_fdb_def)

lemma fdb_inv_uses:
  "fdb_inv k H db \<Longrightarrow> files db i = Some f \<Longrightarrow> accesses f = int (uses (comp_queue db) H i f)"
  using fdb_invD(5) by (auto simp: file_ok_def)

lemma fdb_inv_name:
  "fdb_inv k H db \<Longrightarrow> files db i = Some f \<Longrightarrow> name_ok (filename f) \<and> filename_hash f = hash_of (filename f)"
  using fdb_invD(5) by (auto simp: file_ok_def)

text \<open>
  What an operation that neither adds nor removes entries has to show: names stay, and the uses
  are still counted right.
\<close>

lemma fdb_inv_update:
  assumes "fdb_inv k H db"
    and "database db' = database db" "db_entries db' = db_entries db" "next_fid db' = next_fid db"
    and "comp_entries db' = int (length (comp_queue db'))"
    and "\<And>i. files db' i = None \<longleftrightarrow> files db i = None"
    and "\<And>i f g. files db i = Some f \<Longrightarrow> files db' i = Some g \<Longrightarrow>
      filename g = filename f \<and> filename_hash g = filename_hash f \<and> accesses g = int (uses (comp_queue db') H' i g)"
    and "\<And>i b. (i, b) \<in> set (comp_queue db') \<Longrightarrow> files db i \<noteq> None"
    and "\<And>i. H' i \<noteq> 0 \<Longrightarrow> files db i \<noteq> None"
  shows "fdb_inv k H' db'"
proof -
  note d = fdb_invD [OF assms(1)]
  have old: "\<exists>f. files db i = Some f \<and> filename g = filename f \<and> filename_hash g = filename_hash f \<and>
      accesses g = int (uses (comp_queue db') H' i g)" if "files db' i = Some g" for i g
    using assms(6) [of i] assms(7) [of i _ g] that by (cases "files db i") auto
  show ?thesis
    unfolding fdb_inv_def
  proof (intro conjI allI impI)
    show "distinct (database db')" using d(1) assms(2) by simp
    show "db_entries db' = int (length (database db')) + k" using d(2) assms(2,3) by simp
    show "comp_entries db' = int (length (comp_queue db'))" by (rule assms(5))
    show "(i \<in> set (database db')) = (files db' i \<noteq> None)" for i using d(4) assms(2,6) by simp
    show "i < next_fid db'" if "files db' i = Some g" for i g
      using old [OF that] d(5) assms(4) by auto
    show "file_ok (comp_queue db') H' i g" if "files db' i = Some g" for i g
      using old [OF that] d(5) by (auto simp: file_ok_def)
    show "i = j" if "files db' i = Some f" "files db' j = Some g" "filename f = filename g" for i j f g
      using old [OF that(1)] old [OF that(2)] that(3) d(6) by metis
    show "files db' i \<noteq> None" if "(i, b) \<in> set (comp_queue db')" for i b
      using assms(6,8) that by blast
    show "files db' i \<noteq> None" if "H' i \<noteq> 0" for i
      using assms(6,9) that by blast
  qed
qed

lemma put_file_simps [simp]:
  "files (put_file i g db) = (files db)(i \<mapsto> g)" "database (put_file i g db) = database db"
  "db_entries (put_file i g db) = db_entries db" "comp_queue (put_file i g db) = comp_queue db"
  "comp_entries (put_file i g db) = comp_entries db" "next_fid (put_file i g db) = next_fid db"
  by (simp_all add: put_file_def)

text \<open>Changing a file without its name and users; descriptors keep their identity and order.\<close>

definition same_file :: "file_t \<Rightarrow> file_t \<Rightarrow> bool" where
  "same_file f g \<longleftrightarrow>
     filename g = filename f \<and> filename_hash g = filename_hash f \<and> accesses g = accesses f \<and>
     map d_id (head g) = map d_id (head f)"

lemma same_file_refl [simp]: "same_file f f"
  by (simp add: same_file_def)

lemma same_file_trans [trans]: "same_file a b \<Longrightarrow> same_file b c \<Longrightarrow> same_file a c"
  by (simp add: same_file_def)

lemma same_file_uses: "same_file f g \<Longrightarrow> uses q H i g = uses q H i f"
  unfolding same_file_def uses_def by (metis length_map)

lemma fdb_inv_put:
  assumes "fdb_inv k H db" and "files db i = Some f" and "same_file f g"
  shows "fdb_inv k H (put_file i g db)"
proof (rule fdb_inv_update [OF assms(1)])
  show "comp_entries (put_file i g db) = int (length (comp_queue (put_file i g db)))"
    using fdb_invD(3) [OF assms(1)] by simp
  fix a x y assume "files db a = Some x" "files (put_file i g db) a = Some y"
  then show "filename y = filename x \<and> filename_hash y = filename_hash x \<and>
      accesses y = int (uses (comp_queue (put_file i g db)) H a y)"
    using fdb_inv_uses [OF assms(1)] same_file_uses [OF assms(3)] assms(2,3)
    by (auto simp: same_file_def split: if_splits)
qed (use assms(2) fdb_invD(7,8) [OF assms(1)] in auto)

text \<open>
  One more or one fewer user of a file: a descriptor, a queue entry or a holder. \<open>uses\<close> of the
  other files must not change.
\<close>

lemma fdb_inv_count:
  assumes "fdb_inv k H db" and "files db i = Some f"
    and "filename g = filename f" "filename_hash g = filename_hash f"
    and "accesses g = int (uses q H' i g)"
    and "\<And>j. j \<noteq> i \<Longrightarrow> queued q j + H' j = queued (comp_queue db) j + H j"
    and "\<And>j b. (j, b) \<in> set q \<Longrightarrow> files db j \<noteq> None" and "n = int (length q)"
  shows "fdb_inv k H' ((put_file i g db)\<lparr>comp_queue := q, comp_entries := n\<rparr>)"
proof (rule fdb_inv_update [OF assms(1)])
  let ?db' = "(put_file i g db)\<lparr>comp_queue := q, comp_entries := n\<rparr>"
  fix a x y assume a: "files db a = Some x" "files ?db' a = Some y"
  show "filename y = filename x \<and> filename_hash y = filename_hash x \<and>
      accesses y = int (uses (comp_queue ?db') H' a y)"
  proof (cases "a = i")
    case True
    then show ?thesis using a assms(2-5) by auto
  next
    case False
    then have "y = x" "uses q H' a x = uses (comp_queue db) H a x"
      using a assms(6) [of a] by (auto simp: uses_def)
    then show ?thesis using fdb_inv_uses [OF assms(1) a(1)] by simp
  qed
next
  fix j assume h: "H' j \<noteq> 0"
  show "files db j \<noteq> None"
  proof (cases "j = i")
    case True
    then show ?thesis using assms(2) by simp
  next
    case False
    then have "0 < queued (comp_queue db) j \<or> H j \<noteq> 0" using h assms(6) [of j] by auto
    then show ?thesis
    proof
      assume "0 < queued (comp_queue db) j"
      then obtain b where "(j, b) \<in> set (comp_queue db)"
        by (force simp: queued_def filter_empty_conv)
      then show ?thesis using fdb_invD(7) [OF assms(1)] by blast
    qed (use fdb_invD(8) [OF assms(1)] in blast)
  qed
qed (use assms(2,7,8) in \<open>auto split: if_splits\<close>)

lemma idle_unused:
  assumes "fdb_inv k H db" and "files db i = Some f" and "accesses f = 0"
  shows "head f = []" "queued (comp_queue db) i = 0" "H i = 0"
proof -
  have "uses (comp_queue db) H i f = 0" using fdb_inv_uses [OF assms(1,2)] assms(3) by linarith
  then show "head f = []" "queued (comp_queue db) i = 0" "H i = 0" by (simp_all add: uses_def)
qed

section \<open>Queueing and purging\<close>

lemma background_compress_dedup_inv:
  assumes "fdb_inv k H db" and "files db i = Some f" and "dedup \<or> fcompressor f = None"
  shows "\<exists>db'. background_compress_dedup i dedup db = Some db' \<and> fdb_inv k H db' \<and>
    database db' = database db \<and> comp_queue db' = comp_queue db @ [(i, dedup)] \<and>
    files db' = (files db)(i \<mapsto> f\<lparr>accesses := accesses f + 1\<rparr>) \<and> next_fid db' = next_fid db"
proof -
  let ?g = "f\<lparr>accesses := accesses f + 1\<rparr>"
  let ?q = "comp_queue db @ [(i, dedup)]"
  have "fdb_inv k H ((put_file i ?g db)\<lparr>comp_queue := ?q, comp_entries := comp_entries db + 1\<rparr>)"
    by (rule fdb_inv_count [OF assms(1,2)])
      (use fdb_inv_uses [OF assms(1,2)] fdb_invD(3,7) [OF assms(1)] assms(2) in \<open>auto simp: uses_def\<close>)
  then show ?thesis
    using assms(2,3) by (simp add: background_compress_dedup_def)
qed

lemma drop_entry_inv:
  assumes "fdb_inv k H db" and "files db i = Some f" and "accesses f = 0"
  shows "\<exists>db' w'. direct_open_delete i (drop_entry i db) w = Some (db', w') \<and> fdb_inv k H db' \<and>
    database db' = remove1 i (database db) \<and> comp_queue db' = comp_queue db \<and>
    files db' = (files db)(i := None) \<and> next_fid db' = next_fid db"
proof -
  let ?db' = "(drop_entry i db)\<lparr>files := (files db)(i := None)\<rparr>"
  note d = fdb_invD [OF assms(1)]
  have mem: "i \<in> set (database db)" using d(4) assms(2) by simp
  note idle = idle_unused [OF assms]
  have "fdb_inv k H ?db'"
    unfolding fdb_inv_def
  proof (intro conjI allI impI)
    show "distinct (database ?db')" using d(1) by (simp add: drop_entry_def)
    have "length (database db) > 0" using mem by auto
    then show "db_entries ?db' = int (length (database ?db')) + k"
      using d(2) mem by (simp add: drop_entry_def length_remove1 of_nat_diff Suc_leI)
    show "comp_entries ?db' = int (length (comp_queue ?db'))" using d(3) by (simp add: drop_entry_def)
    show "(j \<in> set (database ?db')) = (files ?db' j \<noteq> None)" for j
      using d(1,4) by (simp add: drop_entry_def set_remove1_eq)
    show "j < next_fid ?db'" "file_ok (comp_queue ?db') H j h" if "files ?db' j = Some h" for j h
      using that d(5) by (auto simp: drop_entry_def split: if_splits)
    show "a = b" if "files ?db' a = Some x" "files ?db' b = Some y" "filename x = filename y" for a b x y
      using that d(6) by (auto split: if_splits)
    show "files ?db' j \<noteq> None" if "(j, b) \<in> set (comp_queue ?db')" for j b
      using that d(7) [of j b] queued_pos [of j b "comp_queue db"] idle(2) by (auto simp: drop_entry_def)
    show "files ?db' j \<noteq> None" if "H j \<noteq> 0" for j
      using that d(8) [of j] idle(3) by auto
  qed
  moreover have "direct_open_delete i (drop_entry i db) w = Some (?db', snd (flush_file_cache f w))"
    using assms(2) by (simp add: direct_open_delete_def drop_entry_def flush_file_cache_def)
  ultimately show ?thesis by (auto simp: drop_entry_def)
qed

lemma wants_compression_compressor:
  "wants_compression cfg f w = (True, w') \<Longrightarrow> fcompressor f = None"
  by (auto simp: wants_compression_def split: if_splits)

text \<open>
  One idle file: it is queued, and then it counts as used, or it is gone. Others are not
  touched.
\<close>

definition core :: "file_t \<Rightarrow> path \<times> descriptor_t list \<times> flag set" where
  "core f = (filename f, head f, status f)"

lemma purge_idle_inv:
  assumes "fdb_inv k H db" and "files db i = Some f" and "accesses f = 0"
  shows "\<exists>db' w'. purge_idle cfg i f db w = Some (db', w') \<and> fdb_inv k H db' \<and> next_fid db' = next_fid db \<and>
    (\<forall>j. j \<noteq> i \<longrightarrow> files db' j = files db j \<and> (j \<in> set (database db') \<longleftrightarrow> j \<in> set (database db))) \<and>
    (files db' i = None \<or> (\<exists>g. files db' i = Some g \<and> accesses g = 1 \<and> core g = core f))"
proof -
  obtain c w1 where wc: "wants_compression cfg f w = (c, w1)" by fastforce
  note d = fdb_invD [OF assms(1)]
  show ?thesis
  proof (cases "c \<or> dedup_enabled cfg \<and> \<not> deleted f \<and> \<not> deduped f \<and> \<not> is_excluded cfg (filename f)")
    case True
    have b: "\<not> c \<or> fcompressor f = None"
      using wc wants_compression_compressor [of cfg f w w1] by auto
    have run: "purge_idle cfg i f db w = map_option (\<lambda>db. (db, w1)) (background_compress_dedup i (\<not> c) db)"
      using wc True by (cases c) (simp_all add: purge_idle_def)
    from background_compress_dedup_inv [OF assms(1,2) b]
    obtain db' where db': "background_compress_dedup i (\<not> c) db = Some db'" "fdb_inv k H db'"
      "database db' = database db" "files db' = (files db)(i \<mapsto> f\<lparr>accesses := accesses f + 1\<rparr>)"
      "next_fid db' = next_fid db" by blast
    then show ?thesis using run assms(3) by (intro exI [of _ db'] exI [of _ w1]) (simp add: core_def)
  next
    case False
    then have run: "purge_idle cfg i f db w = direct_open_delete i (drop_entry i db) w1"
      using wc by (auto simp: purge_idle_def)
    from drop_entry_inv [OF assms, of w1]
    obtain db' w' where db': "direct_open_delete i (drop_entry i db) w1 = Some (db', w')" "fdb_inv k H db'"
      "database db' = remove1 i (database db)" "files db' = (files db)(i := None)" "next_fid db' = next_fid db"
      by blast
    then show ?thesis using run d(1) by (intro exI [of _ db'] exI [of _ w']) (simp add: set_remove1_eq)
  qed
qed

text \<open>
  What a purge (not forced) of the entries \<open>T\<close> does: every file in use or not in \<open>T\<close> stays as it
  is, no file appears, and what remains of \<open>T\<close> is in use or queued.
\<close>

definition purged :: "nat set \<Rightarrow> fdb \<Rightarrow> fdb \<Rightarrow> bool" where
  "purged T db db' \<longleftrightarrow>
     next_fid db' = next_fid db \<and>
     (\<forall>j f. files db j = Some f \<longrightarrow> accesses f \<noteq> 0 \<or> j \<notin> T \<longrightarrow> files db' j = Some f) \<and>
     (\<forall>j g. files db' j = Some g \<longrightarrow>
        (\<exists>f. files db j = Some f \<and> core f = core g) \<and> (j \<in> T \<longrightarrow> accesses g \<noteq> 0))"

lemma purgedD:
  assumes "purged T db db'"
  shows "next_fid db' = next_fid db"
    and "files db j = Some f \<Longrightarrow> accesses f \<noteq> 0 \<or> j \<notin> T \<Longrightarrow> files db' j = Some f"
    and "files db' j = Some g \<Longrightarrow> \<exists>f. files db j = Some f \<and> core f = core g"
    and "files db' j = Some g \<Longrightarrow> j \<in> T \<Longrightarrow> accesses g \<noteq> 0"
  using assms unfolding purged_def by blast+

lemma purged_empty: "purged {} db db"
  by (simp add: purged_def)

lemma purged_insert:
  assumes "purged {i} db db1" and "purged T db1 db2" and "i \<notin> T"
  shows "purged (insert i T) db db2"
  unfolding purged_def
proof (intro conjI allI impI)
  note p = purgedD [OF assms(1)] and q = purgedD [OF assms(2)]
  show "next_fid db2 = next_fid db" using p(1) q(1) by simp
  show "files db2 j = Some f" if a: "files db j = Some f" "accesses f \<noteq> 0 \<or> j \<notin> insert i T" for j f
  proof -
    have "files db1 j = Some f" by (rule p(2) [OF a(1)]) (use a(2) in auto)
    then show ?thesis by (rule q(2)) (use a(2) in auto)
  qed
  show "\<exists>f. files db j = Some f \<and> core f = core g" if g: "files db2 j = Some g" for j g
  proof -
    obtain h where h: "files db1 j = Some h" "core h = core g" using q(3) [OF g] by blast
    then show ?thesis using p(3) [OF h(1)] by auto
  qed
  show "accesses g \<noteq> 0" if g: "files db2 j = Some g" "j \<in> insert i T" for j g
  proof (cases "j = i")
    case True
    obtain h where h: "files db1 j = Some h" using q(3) [OF g(1)] by blast
    then have "accesses h \<noteq> 0" using p(4) True by simp
    moreover have "files db2 j = Some h" by (rule q(2) [OF h]) (use True assms(3) in simp)
    ultimately show ?thesis using g(1) by simp
  next
    case False
    then show ?thesis using q(4) [OF g(1)] g(2) by simp
  qed
qed

lemma purge_loop_inv:
  assumes "fdb_inv k H db" and "distinct todo" and "set todo \<subseteq> set (database db)"
  shows "\<exists>db' w'. purge_loop cfg False todo db w = Some (db', w') \<and> fdb_inv k H db' \<and> purged (set todo) db db'"
  using assms
proof (induction todo arbitrary: db w)
  case Nil
  then show ?case using purged_empty by auto
next
  case (Cons i rest)
  obtain f where f: "files db i = Some f" using fdb_invD(4) [OF Cons.prems(1), of i] Cons.prems(3) by auto
  have dist: "i \<notin> set rest" "distinct rest" using Cons.prems(2) by simp_all
  have "\<exists>db1 w1. (if accesses f = 0 then purge_idle cfg i f db w else Some (db, w)) = Some (db1, w1) \<and>
      fdb_inv k H db1 \<and> purged {i} db db1 \<and> set rest \<subseteq> set (database db1)"
  proof (cases "accesses f = 0")
    case False
    have "purged {i} db db" using f False by (auto simp: purged_def)
    then show ?thesis using False Cons.prems(1,3) by auto
  next
    case True
    obtain db1 w1 where p: "purge_idle cfg i f db w = Some (db1, w1)" "fdb_inv k H db1" "next_fid db1 = next_fid db"
      "\<forall>j. j \<noteq> i \<longrightarrow> files db1 j = files db j \<and> (j \<in> set (database db1) \<longleftrightarrow> j \<in> set (database db))"
      "files db1 i = None \<or> (\<exists>g. files db1 i = Some g \<and> accesses g = 1 \<and> core g = core f)"
      using purge_idle_inv [OF Cons.prems(1) f True, of cfg w] by blast
    have "purged {i} db db1"
      unfolding purged_def
    proof (intro conjI allI impI)
      show "next_fid db1 = next_fid db" by (rule p(3))
      show "files db1 j = Some h" if "files db j = Some h" "accesses h \<noteq> 0 \<or> j \<notin> {i}" for j h
        using that p(4) f True by (cases "j = i") auto
      show "\<exists>h. files db j = Some h \<and> core h = core g" if "files db1 j = Some g" for j g
        using that p(4,5) f by (cases "j = i") auto
      show "accesses g \<noteq> 0" if "files db1 j = Some g" "j \<in> {i}" for j g
        using that p(5) by auto
    qed
    moreover have "set rest \<subseteq> set (database db1)"
    proof
      fix j assume j: "j \<in> set rest"
      then have "j \<noteq> i" "j \<in> set (database db)" using dist(1) Cons.prems(3) by auto
      then show "j \<in> set (database db1)" using p(4) by blast
    qed
    ultimately show ?thesis using True p(1,2) by auto
  qed
  then obtain db1 w1 where one: "(if accesses f = 0 then purge_idle cfg i f db w else Some (db, w)) = Some (db1, w1)"
    "fdb_inv k H db1" "purged {i} db db1" "set rest \<subseteq> set (database db1)" by blast
  obtain db2 w2 where two: "purge_loop cfg False rest db1 w1 = Some (db2, w2)" "fdb_inv k H db2"
    "purged (set rest) db1 db2"
    using Cons.IH [OF one(2) dist(2) one(4), of w1] by blast
  have "purge_loop cfg False (i # rest) db w = Some (db2, w2)"
    using f one(1) two(1) by (cases "accesses f = 0") simp_all
  then show ?case using two(2) purged_insert [OF one(3) two(3) dist(1)] by simp
qed

section \<open>Opening\<close>

lemma lookup_file_Some:
  "lookup_file h fn db = Some i \<Longrightarrow>
   i \<in> set (database db) \<and> (\<exists>f. files db i = Some f \<and> filename f = fn \<and> filename_hash f = h)"
  by (auto simp: lookup_file_def find_Some_iff in_set_conv_nth split: option.splits)

lemma lookup_file_None:
  assumes "fdb_inv k H db" and "lookup_file (hash_of fn) fn db = None" and "files db i = Some f"
  shows "filename f \<noteq> fn"
proof
  assume fn: "filename f = fn"
  have "i \<in> set (database db)" using fdb_invD(4) [OF assms(1)] assms(3) by simp
  moreover have "filename_hash f = hash_of fn" using fdb_inv_name [OF assms(1,3)] fn by simp
  ultimately show False
    using assms(2,3) fn by (auto simp: lookup_file_def find_None_iff split: option.splits)
qed

definition busy :: "file_t \<Rightarrow> bool" where
  "busy f \<longleftrightarrow> status f \<inter> {COMPRESSING, DECOMPRESSING, DEDUPING} \<noteq> {}"

text \<open>A new entry at the end of the list.\<close>

lemma fdb_inv_new:
  assumes "fdb_inv 1 H db" and "name_ok fn" and "\<And>i f. files db i = Some f \<Longrightarrow> filename f \<noteq> fn"
    and "filename g = fn" "filename_hash g = hash_of fn" "accesses g = 0" "head g = []"
  shows "fdb_inv 0 H ((put_file (next_fid db) g db)\<lparr>database := database db @ [next_fid db], next_fid := next_fid db + 1\<rparr>)"
    (is "fdb_inv 0 H ?db'")
proof -
  note d = fdb_invD [OF assms(1)]
  let ?i = "next_fid db"
  have new: "files db ?i = None" using d(5) [of ?i] by (cases "files db ?i") auto
  have fresh: "?i \<notin> set (database db)" using d(4) new by simp
  have nq: "queued (comp_queue db) ?i = 0"
  proof -
    have "fst e \<noteq> ?i" if "e \<in> set (comp_queue db)" for e
      using d(7) [of "fst e" "snd e"] that new by auto
    then show ?thesis by (simp add: queued_def filter_empty_conv)
  qed
  have nh: "H ?i = 0" using d(8) [of ?i] new by auto
  show ?thesis
    unfolding fdb_inv_def
  proof (intro conjI allI impI)
    show "distinct (database ?db')" using d(1) fresh by simp
    show "db_entries ?db' = int (length (database ?db')) + 0" using d(2) by simp
    show "comp_entries ?db' = int (length (comp_queue ?db'))" using d(3) by simp
    have f': "files ?db' i = (if i = ?i then Some g else files db i)" for i by simp
    show "(i \<in> set (database ?db')) = (files ?db' i \<noteq> None)" for i
      using d(4) [of i] by (cases "i = ?i") simp_all
    show "i < next_fid ?db'" if "files ?db' i = Some f" for i f
    proof (cases "i = ?i")
      case False
      then have "files db i = Some f" using that f' by simp
      then have "i < ?i" using d(5) by blast
      then show ?thesis by simp
    qed simp
    show "file_ok (comp_queue ?db') H i f" if "files ?db' i = Some f" for i f
    proof (cases "i = ?i")
      case True
      then have "f = g" using that f' by simp
      then show ?thesis using True assms(2,4-7) nq nh by (simp add: file_ok_def uses_def)
    next
      case False
      then have "files db i = Some f" using that f' by simp
      then show ?thesis using d(5) by simp
    qed
    show "i = j" if a: "files ?db' i = Some f" "files ?db' j = Some h" "filename f = filename h" for i j f h
    proof -
      consider "i = ?i" "j = ?i" | "i = ?i" "f = g" "files db j = Some h" | "files db i = Some f" "j = ?i" "h = g"
        | "files db i = Some f" "files db j = Some h"
        using a(1,2) f' [of i] f' [of j] by (cases "i = ?i"; cases "j = ?i") simp_all
      then show ?thesis
      proof cases
        case 2
        then show ?thesis using assms(3) [of j h] assms(4) a(3) by simp
      next
        case 3
        then show ?thesis using assms(3) [of i f] assms(4) a(3) by simp
      next
        case 4
        then show ?thesis using d(6) a(3) by blast
      qed simp
    qed
    show "files ?db' i \<noteq> None" if "(i, b) \<in> set (comp_queue ?db')" for i b
      using d(7) [of i b] that f' by auto
    show "files ?db' i \<noteq> None" if "H i \<noteq> 0" for i
      using d(8) [of i] that f' by auto
  qed
qed

text \<open>
  Opening keeps every file that is in use, and its users. The file it returns has the name, is not
  marked as deleted, and is not busy if that was asked for; if it has to wait for a busy file, it
  has asked for cancellation.
\<close>

lemma direct_open_found:
  assumes "fdb_inv k H db" and "name_ok fn" and "lookup_file (hash_of fn) fn db = Some i"
  shows "\<exists>f r g. files db i = Some f \<and> direct_open cfg fn stabile ddb db w = Some (r, put_file i g db, w) \<and>
    fdb_inv k H (put_file i g db) \<and> same_file f g \<and> filename g = fn \<and> \<not> deleted g \<and>
    (if stabile \<and> busy f then r = Blocked i \<and> g = f\<lparr>deleted := False, status := insert CANCEL (status f)\<rparr>
     else r = Opened i \<and> g = f\<lparr>deleted := False\<rparr>)"
proof -
  obtain f where f: "files db i = Some f" "filename f = fn"
    using lookup_file_Some [OF assms(3)] by blast
  have h: "gethash fn = Some (hash_of fn, length fn + 1)"
    using gethash_eq assms(2) by (simp add: name_ok_def)
  let ?g = "if stabile \<and> busy f then f\<lparr>deleted := False, status := insert CANCEL (status f)\<rparr> else f\<lparr>deleted := False\<rparr>"
  have "same_file f ?g" by (simp add: same_file_def)
  moreover have "direct_open cfg fn stabile ddb db w =
      Some (if stabile \<and> busy f then Blocked i else Opened i, put_file i ?g db, w)"
    using h assms(3) f(1) by (cases "stabile \<and> busy f") (auto simp: direct_open_def busy_def Let_def)
  ultimately show ?thesis
    using f fdb_inv_put [OF assms(1) f(1), of ?g]
    by (intro exI [of _ f] exI [of _ "if stabile \<and> busy f then Blocked i else Opened i"] exI [of _ ?g])
      (cases "stabile \<and> busy f"; simp)
qed

definition keeps_used :: "fdb \<Rightarrow> fdb \<Rightarrow> bool" where
  "keeps_used db db' \<longleftrightarrow>
     next_fid db' = next_fid db \<and>
     (\<forall>j f. files db j = Some f \<longrightarrow> accesses f \<noteq> 0 \<longrightarrow> files db' j = Some f) \<and>
     (\<forall>j g. files db' j = Some g \<longrightarrow> (\<exists>f. files db j = Some f \<and> core f = core g))"

lemma keeps_used_purged: "purged T db db' \<Longrightarrow> keeps_used db db'"
  unfolding purged_def keeps_used_def by blast

lemma direct_open_new:
  assumes "fdb_inv 0 H db" and "name_ok fn" and "lookup_file (hash_of fn) fn db = None"
  shows "\<exists>db1 db' w'. direct_open cfg fn stabile ddb db w = Some (Opened (next_fid db), db', w') \<and>
    fdb_inv 0 H db' \<and> keeps_used db db1 \<and>
    files db' = (files db1)(next_fid db \<mapsto> direct_new_file cfg (hash_of fn) fn ddb)"
proof -
  let ?db0 = "db\<lparr>db_entries := db_entries db + 1\<rparr>"
  let ?g = "direct_new_file cfg (hash_of fn) fn ddb"
  have h: "gethash fn = Some (hash_of fn, length fn + 1)"
    using gethash_eq assms(2) by (simp add: name_ok_def)
  have i0: "fdb_inv 1 H ?db0" using assms(1) by (simp add: fdb_inv_def)
  let ?full = "db_entries db > MAX_DATABASE_LEN + comp_entries db"
  have "\<exists>db1 w1. (if ?full then direct_open_purge cfg False ?db0 w else Some (?db0, w)) = Some (db1, w1) \<and>
      fdb_inv 1 H db1 \<and> keeps_used db db1"
  proof (cases ?full)
    case True
    obtain db1 w1 where p: "purge_loop cfg False (database ?db0) ?db0 w = Some (db1, w1)" "fdb_inv 1 H db1"
      "purged (set (database ?db0)) ?db0 db1"
      using purge_loop_inv [OF i0 fdb_invD(1) [OF i0] subset_refl, of cfg w] by blast
    have "keeps_used db db1" using keeps_used_purged [OF p(3)] by (simp add: keeps_used_def)
    then show ?thesis using True p by (simp add: direct_open_purge_def)
  next
    case False
    have "keeps_used db ?db0" by (simp add: keeps_used_def)
    then show ?thesis using False i0 by auto
  qed
  then obtain db1 w1 where db1: "(if ?full then direct_open_purge cfg False ?db0 w else Some (?db0, w)) = Some (db1, w1)"
    "fdb_inv 1 H db1" "keeps_used db db1" by blast
  let ?db' = "(put_file (next_fid db1) ?g db1)\<lparr>database := database db1 @ [next_fid db1], next_fid := next_fid db1 + 1\<rparr>"
  have "filename f \<noteq> fn" if "files db1 i = Some f" for i f
    using db1(3) that lookup_file_None [OF assms(1,3)] unfolding keeps_used_def core_def by (metis prod.inject)
  then have inv: "fdb_inv 0 H ?db'"
    by (intro fdb_inv_new [OF db1(2) assms(2)]) (simp_all add: direct_new_file_def)
  have n: "next_fid db1 = next_fid db" using db1(3) by (simp add: keeps_used_def)
  have "direct_open cfg fn stabile ddb db w = Some (Opened (next_fid db), ?db', w1)"
    using h assms(3) db1(1) n by (simp add: direct_open_def Let_def)
  then show ?thesis using inv db1(3) n by (intro exI [of _ db1] exI [of _ ?db'] exI [of _ w1]) simp
qed

text \<open>
  Both cases together, for the users of \<open>direct_open\<close>. \<open>came_from\<close>: every entry afterwards is one
  from before, with its descriptors and busy flags, or a new one.
\<close>

definition came_from :: "fdb \<Rightarrow> fdb \<Rightarrow> bool" where
  "came_from db db' \<longleftrightarrow>
     (\<forall>j g. files db' j = Some g \<longrightarrow>
        (\<exists>f. files db j = Some f \<and> filename g = filename f \<and> head g = head f \<and> busy g = busy f \<and>
           status g - {CANCEL} = status f - {CANCEL}) \<or>
        files db j = None \<and> head g = [] \<and> status g = {})"

lemma direct_open_spec:
  assumes "fdb_inv 0 H db" and "name_ok fn"
  shows "\<exists>r db' w'. direct_open cfg fn stabile ddb db w = Some (r, db', w') \<and> fdb_inv 0 H db' \<and> came_from db db' \<and>
    (\<forall>j f. files db j = Some f \<longrightarrow> accesses f \<noteq> 0 \<longrightarrow> (\<exists>g. files db' j = Some g \<and> same_file f g)) \<and>
    (case r of
       Opened i \<Rightarrow> \<exists>g. files db' i = Some g \<and> filename g = fn \<and> \<not> deleted g \<and> (stabile \<longrightarrow> \<not> busy g)
     | Blocked i \<Rightarrow> stabile \<and> (\<exists>g. files db' i = Some g \<and> filename g = fn \<and> busy g \<and> CANCEL \<in> status g))"
proof (cases "lookup_file (hash_of fn) fn db")
  case None
  obtain db1 db' w' where o: "direct_open cfg fn stabile ddb db w = Some (Opened (next_fid db), db', w')"
    "fdb_inv 0 H db'" "keeps_used db db1"
    "files db' = (files db1)(next_fid db \<mapsto> direct_new_file cfg (hash_of fn) fn ddb)"
    using direct_open_new [OF assms None] by blast
  have "\<exists>g. files db' j = Some g \<and> same_file f g" if "files db j = Some f" "accesses f \<noteq> 0" for j f
  proof -
    have "j \<noteq> next_fid db" using fdb_invD(5) [OF assms(1) that(1)] by simp
    then have "files db' j = Some f" using o(3,4) that by (simp add: keeps_used_def)
    then show ?thesis by simp
  qed
  moreover have "came_from db db'"
    unfolding came_from_def
  proof (intro allI impI)
    fix j g assume g: "files db' j = Some g"
    have n: "files db (next_fid db) = None"
      using fdb_invD(5) [OF assms(1), of "next_fid db"] by (cases "files db (next_fid db)") auto
    show "(\<exists>f. files db j = Some f \<and> filename g = filename f \<and> head g = head f \<and> busy g = busy f \<and>
           status g - {CANCEL} = status f - {CANCEL}) \<or>
        files db j = None \<and> head g = [] \<and> status g = {}"
    proof (cases "j = next_fid db")
      case True
      then show ?thesis using g o(4) n by (auto simp: direct_new_file_def)
    next
      case False
      then have "files db1 j = Some g" using g o(4) by simp
      then obtain f where "files db j = Some f" "core f = core g" using o(3) unfolding keeps_used_def by blast
      then show ?thesis by (auto simp: core_def busy_def)
    qed
  qed
  ultimately show ?thesis using o(1,2,4) by (auto simp: direct_new_file_def busy_def)
next
  case (Some i)
  obtain f r g where o: "files db i = Some f" "direct_open cfg fn stabile ddb db w = Some (r, put_file i g db, w)"
    "fdb_inv 0 H (put_file i g db)" "same_file f g" "filename g = fn" "\<not> deleted g"
    "if stabile \<and> busy f then r = Blocked i \<and> g = f\<lparr>deleted := False, status := insert CANCEL (status f)\<rparr>
     else r = Opened i \<and> g = f\<lparr>deleted := False\<rparr>"
    using direct_open_found [OF assms Some, of cfg stabile ddb w] by blast
  have "\<exists>h. files (put_file i g db) j = Some h \<and> same_file f' h" if "files db j = Some f'" for j f'
    using that o(1,4) by auto
  moreover have "case r of
       Opened i \<Rightarrow> \<exists>h. files (put_file i g db) i = Some h \<and> filename h = fn \<and> \<not> deleted h \<and> (stabile \<longrightarrow> \<not> busy h)
     | Blocked i \<Rightarrow> stabile \<and> (\<exists>h. files (put_file i g db) i = Some h \<and> filename h = fn \<and> busy h \<and> CANCEL \<in> status h)"
    using o(5,6,7) by (cases "stabile \<and> busy f") (auto simp: busy_def)
  moreover have "came_from db (put_file i g db)"
  proof -
    have "filename g = filename f" "head g = head f" "busy g = busy f" "status g - {CANCEL} = status f - {CANCEL}"
      using o(7) by (auto simp: busy_def split: if_split_asm)
    then show ?thesis unfolding came_from_def using o(1) by auto
  qed
  moreover have "case r of
       Opened a \<Rightarrow> a = i
     | Blocked a \<Rightarrow> a = i"
    using o(7) by (cases "stabile \<and> busy f") simp_all
  ultimately show ?thesis
    using o(2,3) by (intro exI [of _ r] exI [of _ "put_file i g db"] exI [of _ w]) (cases r; simp)
qed

section \<open>Renaming\<close>

lemma move_descriptors_eq:
  "head from = ds \<Longrightarrow> move_descriptors ds from to =
     (from\<lparr>head := [], accesses := accesses from - int (length ds)\<rparr>,
      to\<lparr>head := rev ds @ head to, accesses := accesses to + int (length ds)\<rparr>)"
proof (induction ds arbitrary: "from" to)
  case Nil
  then have "from\<lparr>head := []\<rparr> = from" by simp
  then show ?case by simp
next
  case (Cons d ds)
  then show ?case by (simp add: algebra_simps)
qed

lemma retarget_eq:
  "retarget i j q from to =
     (map (\<lambda>e. (if fst e = i then j else fst e, snd e)) q,
      from\<lparr>accesses := accesses from - int (queued q i)\<rparr>,
      to\<lparr>accesses := accesses to + int (queued q i)\<rparr>)"
  by (induction q arbitrary: "from" to) (auto simp: algebra_simps)

lemma queued_retarget:
  assumes "i \<noteq> j"
  shows "queued (map (\<lambda>e. (if fst e = i then j else fst e, snd e)) q) a =
    (if a = i then 0 else if a = j then queued q j + queued q i else queued q a)"
  using assms by (induction q) auto

lemma direct_rename_spec:
  assumes "fdb_inv 0 H db" and "i \<noteq> j" and "files db i = Some from" and "files db j = Some to" and "H i \<le> 1"
  shows "\<exists>db' w' from' to'. direct_rename i j db w = Some (db', w') \<and> fdb_inv 0 H db' \<and>
    files db' = (files db)(i \<mapsto> from', j \<mapsto> to') \<and>
    comp_queue db' = map (\<lambda>e. (if fst e = i then j else fst e, snd e)) (comp_queue db) \<and>
    head from' = [] \<and> accesses from' = int (H i) \<and> deleted from' \<and> filename from' = filename from \<and>
    head to' = rev (head from) @ head to \<and> filename to' = filename to \<and> cache to' = None \<and>
    fsize to' = fsize from \<and> fcompressor to' = fcompressor from \<and> ftype to' = ftype from \<and> status to' = status from"
proof -
  obtain to1 w1 where fl: "flush_file_cache to w = (to1, w1)" by fastforce
  then have to1: "to1 = to\<lparr>cache := None\<rparr>" by (auto simp: flush_file_cache_def split: option.splits)
  let ?q = "map (\<lambda>e. (if fst e = i then j else fst e, snd e)) (comp_queue db)"
  let ?n = "length (head from)" and ?m = "queued (comp_queue db) i"
  define from' where "from' = direct_delete (from\<lparr>head := [], accesses := accesses from - int ?n - int ?m\<rparr>)"
  define to' where "to' = to\<lparr>cache := None, fsize := fsize from, fcompressor := fcompressor from,
      dontcompress := dontcompress from, ftype := ftype from, status := status from,
      head := rev (head from) @ head to, accesses := accesses to + int ?n + int ?m\<rparr>"
  define db' where "db' = (put_file i from' (put_file j to' db))\<lparr>comp_queue := ?q\<rparr>"
  have uf: "accesses from = int ?n + int ?m + int (H i)" and ut: "accesses to = int (uses (comp_queue db) H j to)"
    using fdb_inv_uses [OF assms(1,3)] fdb_inv_uses [OF assms(1,4)] by (simp_all add: uses_def)
  have run: "direct_rename i j db w = Some (db', w1)"
    using assms(3,4,5) fl to1 uf
    by (simp add: direct_rename_def Let_def move_descriptors_eq retarget_eq from'_def to'_def db'_def)
  have inv: "fdb_inv 0 H db'"
  proof (rule fdb_inv_update [OF assms(1)])
    show "database db' = database db" "db_entries db' = db_entries db" "next_fid db' = next_fid db"
      "comp_entries db' = int (length (comp_queue db'))"
      using fdb_invD(3) [OF assms(1)] by (simp_all add: db'_def)
    show "files db' a = None \<longleftrightarrow> files db a = None" for a using assms(3,4) by (simp add: db'_def)
    show "files db a \<noteq> None" if "(a, b) \<in> set (comp_queue db')" for a b
      using that fdb_invD(7) [OF assms(1)] assms(4) by (auto simp: db'_def split: if_splits)
    show "files db a \<noteq> None" if "H a \<noteq> 0" for a
      using fdb_invD(8) [OF assms(1) that] by blast
    fix a x y assume a: "files db a = Some x" "files db' a = Some y"
    consider "a = i" | "a = j" | "a \<noteq> i" "a \<noteq> j" by blast
    then show "filename y = filename x \<and> filename_hash y = filename_hash x \<and>
        accesses y = int (uses (comp_queue db') H a y)"
    proof cases
      case 1
      then have "y = from'" "x = from" using a assms(3) by (simp_all add: db'_def)
      then show ?thesis
        using 1 uf queued_retarget [OF assms(2)] by (simp add: from'_def direct_delete_def uses_def db'_def)
    next
      case 2
      then have "y = to'" "x = to" using a assms(2,4) by (simp_all add: db'_def)
      then show ?thesis
        using 2 assms(2) ut queued_retarget [OF assms(2)] by (simp add: to'_def uses_def db'_def)
    next
      case 3
      then have "y = x" using a by (simp add: db'_def)
      then show ?thesis
        using 3 fdb_inv_uses [OF assms(1) a(1)] queued_retarget [OF assms(2)] by (simp add: uses_def db'_def)
    qed
  qed
  have "files db' = (files db)(i \<mapsto> from', j \<mapsto> to')" using assms(2) by (simp add: db'_def fun_upd_twist)
  then show ?thesis
    using run inv uf
    by (intro exI [of _ db'] exI [of _ w1] exI [of _ from'] exI [of _ to'])
      (simp add: db'_def from'_def to'_def direct_delete_def)
qed

end
