(* ===== verification/SameFile.thy ===== *)
theory SameFile
  imports FileDbInv Modules
begin

text \<open>
  What the operations on a backing file do to its entry in the database: never its name or its
  number of users, and the list of descriptors only by closing and reopening them in place.
  Compression modules get the entry as their cancel cookie and keep it too (\<open>modules_keep\<close>).
\<close>

named_theorems same_file_intros \<open>operations that keep the entry's name and users\<close>

lemma same_file_simps [simp]:
  "same_file f (g\<lparr>deleted := a\<rparr>) = same_file f g" "same_file f (g\<lparr>fsize := b\<rparr>) = same_file f g"
  "same_file f (g\<lparr>fcompressor := c\<rparr>) = same_file f g" "same_file f (g\<lparr>skipped := b\<rparr>) = same_file f g"
  "same_file f (g\<lparr>dontcompress := a\<rparr>) = same_file f g" "same_file f (g\<lparr>ftype := t\<rparr>) = same_file f g"
  "same_file f (g\<lparr>status := s\<rparr>) = same_file f g" "same_file f (g\<lparr>deduped := a\<rparr>) = same_file f g"
  "same_file f (g\<lparr>cache := k\<rparr>) = same_file f g"
  by (simp_all add: same_file_def)

text \<open>The same, and nobody newly works on the file.\<close>

definition settled :: "file_t \<Rightarrow> file_t \<Rightarrow> bool" where
  "settled f g \<longleftrightarrow> same_file f g \<and> status g \<inter> {COMPRESSING, DECOMPRESSING, DEDUPING} \<subseteq> status f"

lemma settled_same_file: "settled f g \<Longrightarrow> same_file f g"
  by (simp add: settled_def)

lemma settled_refl [simp]: "settled f f"
  by (auto simp: settled_def)

lemma settled_trans [trans]: "settled a b \<Longrightarrow> settled b c \<Longrightarrow> settled a c"
  unfolding settled_def using same_file_trans by blast

lemma settled_busy: "settled f g \<Longrightarrow> busy g \<Longrightarrow> busy f"
  by (auto simp: settled_def busy_def)

lemma settled_simps [simp]:
  "settled f (g\<lparr>deleted := a\<rparr>) = settled f g" "settled f (g\<lparr>fsize := b\<rparr>) = settled f g"
  "settled f (g\<lparr>fcompressor := c\<rparr>) = settled f g" "settled f (g\<lparr>skipped := b\<rparr>) = settled f g"
  "settled f (g\<lparr>dontcompress := a\<rparr>) = settled f g" "settled f (g\<lparr>ftype := t\<rparr>) = settled f g"
  "settled f (g\<lparr>deduped := a\<rparr>) = settled f g" "settled f (g\<lparr>cache := k\<rparr>) = settled f g"
  by (simp_all add: settled_def)

lemma settled_status:
  "settled f g \<Longrightarrow> S \<inter> {COMPRESSING, DECOMPRESSING, DEDUPING} \<subseteq> status g \<Longrightarrow> settled f (g\<lparr>status := S\<rparr>)"
  by (auto simp: settled_def)

lemma settled_head: "settled f g \<Longrightarrow> map d_id ds = map d_id (head g) \<Longrightarrow> settled f (g\<lparr>head := ds\<rparr>)"
  by (simp add: settled_def same_file_def)

lemma same_file_direct_delete [simp]: "same_file f (direct_delete g) = same_file f g"
  by (simp add: direct_delete_def)

lemma settled_direct_delete [simp]: "settled f (direct_delete g) = settled f g"
  by (simp add: direct_delete_def)

lemma settled_may_cancel: "may_cancel g h \<Longrightarrow> settled f g \<Longrightarrow> settled f h"
  by (auto simp: may_cancel_def intro: settled_status)

lemma settled_flush: "flush_file_cache f w = (g, w') \<Longrightarrow> settled f g"
  by (auto simp: flush_file_cache_def)

lemma settled_discard: "dedup_discard f db = Some (g, db') \<Longrightarrow> settled f g"
  by (auto simp: dedup_discard_def bind_eq_Some_conv split: if_split_asm)

section \<open>Compression\<close>

definition modules_keep :: "config \<Rightarrow> bool" where
  "modules_keep cfg \<longleftrightarrow>
     (\<forall>c m f src dst w r f' w'. module_of cfg c = Some m \<longrightarrow> compress m f src dst w = Some (r, f', w') \<longrightarrow>
        may_cancel f f')"

lemma compress_loop_may_cancel:
  assumes "compress_loop wr bad s f src sz w = Some res"
  shows "may_cancel f (snd (snd (fst res)))"
  using assms
proof (rule compress_loop.raw_induct
    [where P = "\<lambda>wr bad s f src sz w res. may_cancel f (snd (snd (fst res)))", rotated])
  fix loop :: "('b \<Rightarrow> byte list \<Rightarrow> world \<Rightarrow> ((int \<times> 'b) \<times> world) option) \<Rightarrow> (int \<Rightarrow> bool) \<Rightarrow> 'b \<Rightarrow> file_t \<Rightarrow> int \<Rightarrow> off \<Rightarrow>
    world \<Rightarrow> ((off \<times> 'b \<times> file_t) \<times> world) option"
  fix wr bad s f src sz w res
  assume IH: "\<And>wr bad s f src sz w res. loop wr bad s f src sz w = Some res \<Longrightarrow> may_cancel f (snd (snd (fst res)))"
  assume run: "(let ((rd, bs), w1) = sys_read src 4096 w
      in if rd > 0 then do {
           ((r, s'), w2) \<leftarrow> wr s bs w1;
           if bad r then Some ((-1, s', f), w2)
           else (let ((c, file'), w3) = compress_testcancel f w2
                 in if c then Some ((sz + rd, s', file'), w3)
                    else loop wr bad s' file' src (sz + rd) w3)
         }
         else if rd < 0 then Some ((-1, s, f), w1)
         else Some ((sz, s, f), w1)) = Some res"
  obtain rd bs w1 where rd: "sys_read src 4096 w = ((rd, bs), w1)" by (metis prod.collapse)
  show "may_cancel f (snd (snd (fst res)))"
  proof (cases "rd > 0")
    case False
    then show ?thesis using run rd by (auto split: if_split_asm)
  next
    case True
    then obtain x s1 w2 where wr: "wr s bs w1 = Some ((x, s1), w2)" using run rd by (auto simp: bind_eq_Some_conv)
    obtain c f1 w3 where tc: "compress_testcancel f w2 = ((c, f1), w3)" by (metis prod.collapse)
    have m: "may_cancel f f1" using compress_testcancel_spec [OF tc] by simp
    show ?thesis
    proof (cases "bad x \<or> c")
      case stop: True
      then show ?thesis using run rd True wr tc m by (auto split: if_split_asm)
    next
      case False
      then have "loop wr bad s1 f1 src (sz + rd) w3 = Some res"
        using run rd True wr tc by simp
      then show ?thesis using IH m may_cancel_trans by blast
    qed
  qed
qed

lemma null_keeps: "nullCompress f src dst w = Some (r, f', w') \<Longrightarrow> may_cancel f f'"
  by (auto simp: nullCompress_def bind_eq_Some_conv dest: compress_loop_may_cancel)

lemma lzo_keeps: "lzoCompress lib level f src dst w = Some (r, f', w') \<Longrightarrow> may_cancel f f'"
  by (auto simp: lzoCompress_def bind_eq_Some_conv dest: compress_loop_may_cancel
      split: prod.split_asm if_split_asm)

lemma same_file_compress_start:
  "compress_start cfg f fd st c w = Some (j, g, w') \<Longrightarrow> same_file f g"
  by (auto simp: compress_start_def bind_eq_Some_conv split: prod.split_asm option.split_asm if_split_asm)

lemma same_file_compress_begin:
  assumes "do_compress_begin cfg f w = Some (j, g, w')"
  shows "same_file f g"
proof -
  obtain fd w1 where op: "file_open (filename f) {O_RDWR} w = (fd, w1)" by fastforce
  obtain r st w2 where fs: "sys_fstat fd no_stat w1 = ((r, st), w2)" by (metis prod.collapse)
  consider "fd = FAIL \<or> r = FAIL \<or> st_size st < min_filesize_background cfg"
    | (go) "fd \<noteq> FAIL" "r \<noteq> FAIL" "\<not> st_size st < min_filesize_background cfg" by blast
  then show ?thesis
  proof cases
    case 1
    then show ?thesis using assms op fs by (auto simp: do_compress_begin_def Let_def split: if_split_asm)
  next
    case go
    then obtain stop f1 w3 where h:
      "(if st_size st \<ge> int sizeof_header then do {
          (res, c, s, w) \<leftarrow> file_read_header_fd cfg fd (fcompressor f) (fsize f) w2;
          let f = f\<lparr>fcompressor := c, fsize := s\<rparr>;
          if res = 0 \<and> c \<noteq> None then Some (True, f, w)
          else Some (False, f, snd (sys_lseek fd 0 SEEK_SET w))
        } else Some (False, f, w2)) = Some (stop, f1, w3)"
      and rest: "(if stop then Some (None, f1, compress_out fd FAIL None w3)
         else (case choose_compressor cfg (filename f1) of
             None \<Rightarrow> Some (None, f1, compress_out fd FAIL None w3)
           | Some c \<Rightarrow> compress_start cfg f1 fd st c w3)) = Some (j, g, w')"
      using assms op fs by (auto simp: do_compress_begin_def Let_def bind_eq_Some_conv)
    have "same_file f f1" using h by (auto simp: bind_eq_Some_conv Let_def split: if_split_asm)
    moreover have "same_file f1 g"
      using rest same_file_compress_start by (auto split: if_split_asm option.split_asm)
    ultimately show ?thesis by (rule same_file_trans)
  qed
qed

lemma settled_replace_compressed:
  assumes "replace_compressed cfg f db fd fd_temp temp st c sz w = Some (g, db', w')"
  shows "settled f g"
proof -
  define w2 where "w2 = snd (sys_fchmod fd_temp (st_mode st) (snd (sys_fchown fd_temp (st_uid st) (st_gid st) w)))"
  obtain r1 w3 where c1: "sys_close fd_temp w2 = (r1, w3)" by fastforce
  obtain r2 w4 where c2: "sys_close fd w3 = (r2, w4)" by fastforce
  obtain r3 w5 where c3: "sys_rename temp (filename f) w4 = (r3, w5)" by fastforce
  let ?f = "f\<lparr>fcompressor := Some c, fsize := sz\<rparr>"
  have "g = f \<or> (if dedup_enabled cfg then dedup_discard ?f db else Some (?f, db)) = Some (g, db')"
    using assms c1 c2 c3
    by (auto simp: replace_compressed_def Let_def w2_def [symmetric] bind_eq_Some_conv split_beta
        split: if_split_asm)
  then show ?thesis
    using settled_discard [of ?f db g db'] settled_trans [of f ?f g] by (auto split: if_split_asm)
qed

lemma settled_compress_end:
  assumes "modules_keep cfg" and "do_compress_end cfg f db j w = Some (g, db', w')"
  shows "settled f g"
proof -
  obtain m sz f1 w1 where m: "module_of cfg (j_comp j) = Some m"
    "compress m f (j_fd j) (j_fd_temp j) w = Some (sz, f1, w1)"
    using assms(2) by (auto simp: do_compress_end_def bind_eq_Some_conv)
  then have "may_cancel f f1" using assms(1) unfolding modules_keep_def by blast
  then have f1: "settled f f1" by (rule settled_may_cancel) simp
  obtain c f2 w2 where tc: "compress_testcancel f1 w1 = ((c, f2), w2)" by (metis prod.collapse)
  then have f2: "settled f f2"
    using settled_may_cancel [OF _ f1] compress_testcancel_spec [OF tc] by simp
  let ?f3 = "f2\<lparr>status := status f2 - {COMPRESSING}\<rparr>"
  have "g = ?f3\<lparr>status := status ?f3 - {CANCEL}\<rparr> \<or>
      replace_compressed cfg ?f3 db (j_fd j) (j_fd_temp j) (j_temp j) (j_stat j) (j_comp j) sz w2 = Some (g, db', w')"
    using assms(2) m tc by (auto simp: do_compress_end_def Let_def split: if_split_asm)
  then show ?thesis
  proof
    assume "g = ?f3\<lparr>status := status ?f3 - {CANCEL}\<rparr>"
    then show ?thesis using f2 by (auto intro!: settled_status)
  next
    assume "replace_compressed cfg ?f3 db (j_fd j) (j_fd_temp j) (j_temp j) (j_stat j) (j_comp j) sz w2 = Some (g, db', w')"
    then have "settled ?f3 g" by (rule settled_replace_compressed)
    moreover have "settled f ?f3" using f2 by (auto intro: settled_status)
    ultimately show ?thesis using settled_trans by blast
  qed
qed

section \<open>Deduplication\<close>

lemma settled_dedup_end:
  assumes "do_dedup_end cfg mhash pid f db w = Some (g, db', w')"
  shows "settled f g"
proof -
  obtain md5 w1 where h: "dedup_hash_file cfg mhash (filename f) w = Some (md5, w1)"
    using assms by (auto simp: do_dedup_end_def bind_eq_Some_conv)
  obtain c f1 w2 where tc: "compress_testcancel f w1 = ((c, f1), w2)" by (metis prod.collapse)
  then have f1: "settled f f1"
    using settled_may_cancel [of f f1 f] compress_testcancel_spec [OF tc] by simp
  consider "md5 = None \<or> c" | (go) m where "md5 = Some m" "\<not> c" by (cases md5; cases c) simp_all
  then show ?thesis
  proof cases
    case 1
    then show ?thesis using assms h tc f1
      by (auto simp: do_dedup_end_def split: option.split_asm intro!: settled_status)
  next
    case go
    obtain target db1 w3 where hl: "hardlink_file pid m (filename f1) db w2 = Some (target, db1, w3)"
      using assms h tc go by (auto simp: do_dedup_end_def bind_eq_Some_conv)
    have "settled f1 g"
    proof (cases target)
      case None
      then show ?thesis using assms h tc go hl by (auto simp: do_dedup_end_def intro!: settled_status)
    next
      case (Some t)
      then show ?thesis using assms h tc go hl
        by (auto simp: do_dedup_end_def bind_eq_Some_conv split: if_split_asm intro!: settled_status)
    qed
    with f1 show ?thesis by (rule settled_trans)
  qed
qed

lemma settled_undedup:
  assumes "do_undedup f db w = Some (r, g, db', w')"
  shows "settled f g"
proof -
  obtain r1 st w1 where a: "sys_lstat (filename f) no_stat w = ((r1, st), w1)" by (metis prod.collapse)
  obtain r2 st2 w2 where b: "sys_lstat (fuseattr_name (filename f)) no_stat w1 = ((r2, st2), w2)" by (metis prod.collapse)
  obtain r3 w3 where c: "sys_statvfs (filename f) w2 = (r3, w3)" by fastforce
  consider "r1 < 0 \<or> st_nlink st < 2 \<or> r3 < 0 \<or> no_space (st_size st) w3"
    | (go) "\<not> (r1 < 0 \<or> st_nlink st < 2)" "\<not> r3 < 0" "\<not> no_space (st_size st) w3" by blast
  then show ?thesis
  proof cases
    case 1
    then show ?thesis using assms a b c by (auto simp: do_undedup_def split: if_split_asm)
  next
    case go
    then obtain f1 db1 where d: "dedup_discard f db = Some (f1, db1)"
      using assms a b c by (auto simp: do_undedup_def bind_eq_Some_conv Let_def)
    obtain temp fd w4 where t: "file_create_temp w3 = ((temp, fd), w4)" by (metis prod.collapse)
    have "g = f1"
    proof (cases temp)
      case None
      then show ?thesis using assms a b c go d t by (simp add: do_undedup_def)
    next
      case (Some tmp)
      obtain fi w5 where o: "sys_open (filename f1) {} 0 w4 = (fi, w5)" by fastforce
      show ?thesis using assms a b c go d t Some o
        by (auto simp: do_undedup_def bind_eq_Some_conv Let_def split: if_split_asm prod.split_asm)
    qed
    then show ?thesis using settled_discard [OF d] by simp
  qed
qed

section \<open>Decompression\<close>

lemma settled_direct_close:
  "direct_close cfg f d w = Some (r, g, d', w') \<Longrightarrow>
   settled f g \<and> head g = head f \<and> d_id d' = d_id d \<and> d_fd d' = d_fd d"
  by (auto simp: direct_close_def bind_eq_Some_conv settled_def Let_def split: prod.split_asm option.split_asm if_split_asm)

lemma settled_close_all:
  "close_all cfg f ds w = Some (g, ds', w') \<Longrightarrow>
   settled f g \<and> head g = head f \<and> map d_id ds' = map d_id ds"
proof (induction ds arbitrary: f w g ds' w')
  case Nil
  then show ?case by simp
next
  case (Cons d ds)
  then obtain r f1 d1 w1 fd w2 ds2 where c: "direct_close cfg f d w = Some (r, f1, d1, w1)"
    "file_close (d_fd d1) w1 = Some (fd, w2)" "close_all cfg f1 ds w2 = Some (g, ds2, w')"
    "ds' = d1\<lparr>d_fd := fd\<rparr> # ds2"
    by (auto simp: bind_eq_Some_conv)
  then show ?case
    using settled_direct_close [OF c(1)] Cons.IH [OF c(3)] settled_trans by auto
qed

lemma reopen_all_ids: "reopen_all temp ds w = (ds', w') \<Longrightarrow> map d_id ds' = map d_id ds"
  by (induction ds arbitrary: w ds' w') (auto split: prod.split_asm)

lemma settled_replace_decompressed:
  assumes "replace_decompressed f fs ft temp st sz w = Some (ok, g, w')"
  shows "settled f g"
proof -
  obtain ds w1 where ds: "reopen_all temp (head f) w = (ds, w1)" by fastforce
  define w3 where "w3 = snd (sys_fchmod ft (st_mode st) (snd (sys_fchown ft (st_uid st) (st_gid st) w1)))"
  obtain r4 w4 where rn: "sys_rename temp (filename f) w3 = (r4, w4)" by fastforce
  let ?f1 = "f\<lparr>head := ds\<rparr>"
  have f1: "settled f ?f1" by (rule settled_head) (simp_all add: reopen_all_ids [OF ds])
  have "settled ?f1 g"
    using assms ds rn
    by (auto simp: replace_decompressed_def Let_def w3_def [symmetric] bind_eq_Some_conv split_beta
        split: if_split_asm)
  with f1 show ?thesis by (rule settled_trans)
qed

lemma settled_decompress_source:
  assumes "decompress_source cfg f fs c hs w = Some (ok, g, w')"
  shows "settled f g"
proof -
  let ?f0 = "if fcompressor f = None then f\<lparr>fcompressor := Some c\<rparr> else f"
  obtain f1 ds w1 where fc: "fcompressor ?f0 = Some c" and ca: "close_all cfg ?f0 (head ?f0) w = Some (f1, ds, w1)"
    using assms by (auto simp: decompress_source_def bind_eq_Some_conv Let_def)
  have f1: "settled ?f0 f1" "head f1 = head ?f0" "map d_id ds = map d_id (head ?f0)"
    using settled_close_all [OF ca] by simp_all
  let ?f2 = "f1\<lparr>head := ds\<rparr>"
  have "settled f ?f0" by simp
  then have f2: "settled f ?f2"
    using settled_trans [OF _ f1(1)] f1(2,3) by (intro settled_head) auto
  obtain r st w2 where fs: "sys_fstat fs no_stat w1 = ((r, st), w2)" by (metis prod.collapse)
  obtain temp ft w3 where tmp: "file_create_temp w2 = ((temp, ft), w3)" by (metis prod.collapse)
  consider "r = -1 \<or> temp = None" | (go) t where "r \<noteq> -1" "temp = Some t" by auto
  then have "settled ?f2 g"
  proof cases
    case 1
    then show ?thesis using assms fc ca fs tmp
      by (auto simp: decompress_source_def bind_eq_Some_conv Let_def split: if_split_asm option.split_asm)
  next
    case go
    let ?f3 = "?f2\<lparr>status := insert DECOMPRESSING (status ?f2)\<rparr>"
    let ?f4 = "?f3\<lparr>status := status ?f3 - {DECOMPRESSING, CANCEL}\<rparr>"
    obtain m sz w4 where d: "module_of cfg c = Some m" "decompress m fs ft w3 = Some (sz, w4)"
      using assms fc ca fs tmp go by (auto simp: decompress_source_def bind_eq_Some_conv Let_def)
    have "g = ?f4 \<or> replace_decompressed ?f4 fs ft t st sz w4 = Some (ok, g, w')"
      using assms fc ca fs tmp go d
      by (auto simp: decompress_source_def bind_eq_Some_conv Let_def split: if_split_asm prod.split_asm)
    moreover have "settled ?f2 ?f4" by (auto simp: settled_def same_file_def)
    ultimately show ?thesis
      using settled_replace_decompressed [of ?f4] settled_trans by blast
  qed
  with f2 show ?thesis by (rule settled_trans)
qed

lemma settled_decompress:
  assumes "do_decompress cfg f w = Some (ok, g, w')"
  shows "settled f g"
proof -
  obtain r1 w1 where sv: "sys_statvfs (filename f) w = (r1, w1)" by fastforce
  obtain f1 w2 where fl: "flush_file_cache f w1 = (f1, w2)" by fastforce
  have f1: "settled f f1" by (rule settled_flush [OF fl])
  obtain fd w3 where op: "file_open (filename f1) {O_RDWR} w2 = (fd, w3)" by fastforce
  consider "r1 < 0 \<or> no_space (fsize f) w1 \<or> fd = FAIL"
    | (go) "\<not> r1 < 0" "\<not> no_space (fsize f) w1" "fd \<noteq> FAIL" by blast
  then show ?thesis
  proof cases
    case 1
    then show ?thesis using assms sv fl op f1 by (auto simp: do_decompress_def split: if_split_asm)
  next
    case go
    obtain res c hs w4 where h: "file_read_header_fd cfg fd None 0 w3 = Some (res, c, hs, w4)"
      using assms sv fl op go by (auto simp: do_decompress_def bind_eq_Some_conv)
    have "g = f1 \<or> g = f1\<lparr>fcompressor := None, fsize := -1\<rparr> \<or>
        (\<exists>c. decompress_source cfg f1 fd c hs w4 = Some (ok, g, w'))"
      using assms sv fl op go h
      by (auto simp: do_decompress_def bind_eq_Some_conv split: if_split_asm option.split_asm prod.split_asm)
    then show ?thesis
      using f1 settled_decompress_source settled_trans by auto
  qed
qed

end
