(* ===== verification/Fuse.thy ===== *)
theory Fuse
  imports FileDb Direct
begin

text \<open>
  The operations of the file system (\<^verbatim>\<open>fusecompress.c\<close>), on a state that holds the backing file
  system, the database of files with the queue, the deduplication database and the settings.

  The mutexes are modelled by what they are for. An operation holds the lock of its file from
  \<open>direct_open\<close> to its end, so it is one step; only \<open>fusecompress_rename\<close> gives the lock up in
  between, and is three steps. \<open>held\<close> are the files whose lock some operation returned without
  giving back (two error paths of \<open>fusecompress_open\<close>); whoever wants such a lock waits for ever
  (\<open>Hangs\<close>), with the database's lock held if it was in \<open>direct_open\<close> (\<open>db_locked\<close>).
  \<open>Waits i\<close> is a caller that waits for the background thread to finish with file \<open>i\<close>.

  A reply \<open>Err e\<close> is the return value \<open>-e\<close>. A \<open>descriptor_t *\<close> in \<open>fi->fh\<close> is its \<open>d_id\<close>.
  The caller's ids (\<open>fuse_get_context\<close>) are arguments.
\<close>

record fs =
  wd :: world
  fs_db :: fdb
  fs_ddb :: dedup_db
  fs_cfg :: config
  next_desc :: nat
  held :: "nat set"
  db_locked :: bool

datatype 'a reply = Ok 'a | Err errno | Waits nat | Hangs

section \<open>Names\<close>

definition fusecompress_getpath :: "string \<Rightarrow> string option" where
  "fusecompress_getpath path =
     (case path of
        [] \<Rightarrow> None
      | _ # rest \<Rightarrow> Some (if rest = [] then ''.'' else rest))"

section \<open>Entries\<close>

text \<open>The entries that a search for a name looks at, up to the one it finds.\<close>

definition scanned :: "u32 \<Rightarrow> path \<Rightarrow> fdb \<Rightarrow> nat list" where
  "scanned h fn db =
     (case lookup_file h fn db of
        None \<Rightarrow> database db
      | Some i \<Rightarrow> takeWhile (\<lambda>j. j \<noteq> i) (database db) @ [i])"

text \<open>
  \<open>direct_open\<close> takes the lock of every entry it looks at that has the hash of the name, and of every
  unused entry when it purges.
\<close>

definition file_is :: "(file_t \<Rightarrow> bool) \<Rightarrow> fdb \<Rightarrow> nat \<Rightarrow> bool" where
  "file_is P db i = (case files db i of None \<Rightarrow> False | Some f \<Rightarrow> P f)"

definition open_hangs :: "u32 \<Rightarrow> path \<Rightarrow> nat set \<Rightarrow> fdb \<Rightarrow> bool" where
  "open_hangs h fn hs db \<longleftrightarrow>
     list_ex (\<lambda>i. i \<in> hs \<and> file_is (\<lambda>f. filename_hash f = h) db i) (scanned h fn db) \<or>
     lookup_file h fn db = None \<and> db_entries db > MAX_DATABASE_LEN + comp_entries db \<and>
       list_ex (\<lambda>i. i \<in> hs \<and> file_is (\<lambda>f. accesses f = 0) db i) (database db)"

definition put_entry :: "nat \<Rightarrow> file_t \<Rightarrow> fs \<Rightarrow> fs" where
  "put_entry i f s = s\<lparr>fs_db := put_file i f (fs_db s)\<rparr>"

definition open_entry :: "path \<Rightarrow> bool \<Rightarrow> fs \<Rightarrow> (nat reply \<times> fs) option" where
  "open_entry full stabile s = do {
     (h, _) \<leftarrow> gethash full;
     if db_locked s then Some (Hangs, s)
     else if open_hangs h full (held s) (fs_db s) then Some (Hangs, s\<lparr>db_locked := True\<rparr>)
     else do {
       (r, db, w) \<leftarrow> direct_open (fs_cfg s) full stabile (fs_ddb s) (fs_db s) (wd s);
       let s = s\<lparr>fs_db := db, wd := w\<rparr>;
       Some (case r of Opened i \<Rightarrow> Ok i | Blocked i \<Rightarrow> Waits i, s)
     }
   }"

text \<open>\<open>direct_open\<close>, then the rest of an operation with the entry.\<close>

definition with_entry ::
  "path \<Rightarrow> bool \<Rightarrow> (nat \<Rightarrow> file_t \<Rightarrow> fs \<Rightarrow> ('a reply \<times> fs) option) \<Rightarrow> fs \<Rightarrow> ('a reply \<times> fs) option" where
  "with_entry full stabile act s = do {
     (r, s) \<leftarrow> open_entry full stabile s;
     case r of
       Ok i \<Rightarrow> do { f \<leftarrow> files (fs_db s) i; act i f s }
     | Err e \<Rightarrow> Some (Err e, s)
     | Waits i \<Rightarrow> Some (Waits i, s)
     | Hangs \<Rightarrow> Some (Hangs, s)
   }"

definition discard_entry :: "file_t \<Rightarrow> fs \<Rightarrow> (file_t \<times> fs) option" where
  "discard_entry f s =
     (if dedup_enabled (fs_cfg s)
      then do { (f, ddb) \<leftarrow> dedup_discard f (fs_ddb s); Some (f, s\<lparr>fs_ddb := ddb\<rparr>) }
      else Some (f, s))"

section \<open>getattr\<close>

text \<open>
  The names starting with \<open>_fc\<close> in the root are commands. \<open>st_blocks\<close>, which the last of them
  sets to the size of the deduplication database, is not part of \<open>stat\<close>.
\<close>

definition magic_getattr :: "string \<Rightarrow> fs \<Rightarrow> stat reply \<times> fs" where
  "magic_getattr cmd s =
     (if cmd = ''redupon'' then (Err EINPROGRESS, s\<lparr>fs_cfg := (fs_cfg s)\<lparr>dedup_redup := True\<rparr>\<rparr>)
      else if cmd = ''redupoff'' then (Err EINPROGRESS, s\<lparr>fs_cfg := (fs_cfg s)\<lparr>dedup_redup := False\<rparr>\<rparr>)
      else if cmd = ''stat''
      then (Ok (no_stat\<lparr>st_size := 0, st_mode := 32768, st_nlink := nat (comp_entries (fs_db s))\<rparr>), s)
      else (Err EINVAL, s))"

text \<open>From \<open>direct_open\<close> on: the size the user sees.\<close>

definition getattr_entry :: "path \<Rightarrow> stat \<Rightarrow> nat \<Rightarrow> file_t \<Rightarrow> fs \<Rightarrow> (stat reply \<times> fs) option" where
  "getattr_entry full st i f s = do {
     let links = (\<lambda>st. if dedup_enabled (fs_cfg s) then st\<lparr>st_nlink := 1\<rparr> else st);
     if fsize f = -1 then do {
       (res, c, sz, w) \<leftarrow>
         (if st_size st \<ge> int sizeof_header
          then file_read_header_name (fs_cfg s) full (fcompressor f) (st_size st) (wd s)
          else Some (0, fcompressor f, st_size st, wd s));
       let f = f\<lparr>fcompressor := c\<rparr>;
       let s = s\<lparr>wd := w\<rparr>;
       if res = FAIL then Some (Err (errno w), put_entry i f s)
       else Some (Ok (links (st\<lparr>st_size := sz\<rparr>)), put_entry i (f\<lparr>fsize := sz\<rparr>) s)
     }
     else Some (Ok (links (if fcompressor f \<noteq> None then st\<lparr>st_size := fsize f\<rparr> else st)), put_entry i f s)
   }"

definition fusecompress_getattr :: "string \<Rightarrow> fs \<Rightarrow> (stat reply \<times> fs) option" where
  "fusecompress_getattr path s = do {
     full \<leftarrow> fusecompress_getpath path;
     if take 3 full = ''_fc'' then Some (magic_getattr (drop 3 full) s)
     else do {
       let ((res, st), w) = (if dedup_enabled (fs_cfg s) then dedup_sys_getattr full no_stat (wd s)
                             else sys_lstat full no_stat (wd s));
       let s = s\<lparr>wd := w\<rparr>;
       if res = FAIL then Some (Err (errno w), s)
       else if \<not> S_ISREG (st_mode st) then Some (Ok st, s)
       else with_entry full False (getattr_entry full st) s
     }
   }"

section \<open>readdir\<close>

text \<open>
  What a directory listing shows. \<open>filler\<close> adds a name to the caller's buffer \<open>b\<close> and says whether
  the buffer is full.
\<close>

fun readdir_loop :: "(string \<Rightarrow> 'b \<Rightarrow> bool \<times> 'b) \<Rightarrow> string list \<Rightarrow> 'b \<Rightarrow> 'b" where
  "readdir_loop filler [] b = b"
| "readdir_loop filler (name # ns) b =
     (if strstr name FUSE \<noteq> None then readdir_loop filler ns b
      else if strncmp_prefix name FUSECOMPRESS_PREFIX then readdir_loop filler ns b
      else (let (stop, b) = filler name b in if stop then b else readdir_loop filler ns b))"

section \<open>mknod\<close>

text \<open>A new node owned by the caller; the umask is not modelled.\<close>

definition sys_mknod :: "path \<Rightarrow> nat \<Rightarrow> nat \<Rightarrow> nat \<Rightarrow> world \<Rightarrow> int \<times> world" where
  "sys_mknod p mode uid gid = syscall (\<lambda>w.
     if names w p \<noteq> None then fail EEXIST w
     else
       (let (n, w) = new_inode p mode w
        in (0, w\<lparr>inodes := (inodes w)(n := map_option (\<lambda>i. i\<lparr>iuid := uid, igid := gid,
                  imode := (if mode div 4096 = 0 then 32768 + mode else mode)\<rparr>) (inodes w n))\<rparr>)))"

definition fusecompress_mknod :: "string \<Rightarrow> nat \<Rightarrow> nat \<Rightarrow> nat \<Rightarrow> fs \<Rightarrow> (unit reply \<times> fs) option" where
  "fusecompress_mknod path mode uid gid s = do {
     full \<leftarrow> fusecompress_getpath path;
     with_entry full True (\<lambda>i f s.
       let (res, w) = sys_mknod full mode uid gid (wd s); s = s\<lparr>wd := w\<rparr>
       in Some (if res = -1 then Err (errno w) else Ok (), s)) s
   }"

section \<open>unlink\<close>

definition unlink_entry :: "path \<Rightarrow> nat \<Rightarrow> file_t \<Rightarrow> fs \<Rightarrow> (unit reply \<times> fs) option" where
  "unlink_entry full i f s = do {
     (f, s) \<leftarrow> discard_entry f s;
     let (res, w) = (if dedup_enabled (fs_cfg s) then dedup_sys_unlink full (wd s) else sys_unlink full (wd s));
     let s = s\<lparr>wd := w\<rparr>;
     if res = 0 then Some (Ok (), put_entry i (direct_delete f) s)
     else Some (Err (errno w), put_entry i f s)
   }"

definition fusecompress_unlink :: "string \<Rightarrow> fs \<Rightarrow> (unit reply \<times> fs) option" where
  "fusecompress_unlink path s = do {
     full \<leftarrow> fusecompress_getpath path;
     with_entry full True (unlink_entry full) s
   }"

section \<open>rename\<close>

text \<open>The first two steps: an entry is opened and kept from being purged.\<close>

definition hold_entry :: "string \<Rightarrow> fs \<Rightarrow> (nat reply \<times> fs) option" where
  "hold_entry path s = do {
     full \<leftarrow> fusecompress_getpath path;
     with_entry full True (\<lambda>i f s. Some (Ok i, put_entry i (f\<lparr>accesses := accesses f + 1\<rparr>) s)) s
   }"

text \<open>
  The last step, with both locks. The mutexes are not recursive: when both names have one entry,
  the second \<open>LOCK\<close> waits for the first.
\<close>

definition rename_entries :: "string \<Rightarrow> string \<Rightarrow> nat \<Rightarrow> nat \<Rightarrow> fs \<Rightarrow> (unit reply \<times> fs) option" where
  "rename_entries full_from full_to i j s = do {
     f \<leftarrow> files (fs_db s) i;
     let s = put_entry i (f\<lparr>accesses := accesses f - 1\<rparr>) s;
     g \<leftarrow> files (fs_db s) j;
     let s = put_entry j (g\<lparr>accesses := accesses g - 1\<rparr>) s;
     let (res, w) = (if dedup_enabled (fs_cfg s) then dedup_sys_rename full_from full_to (wd s)
                     else sys_rename full_from full_to (wd s));
     let s = s\<lparr>wd := w\<rparr>;
     if res = 0 then do {
       f \<leftarrow> files (fs_db s) i;
       g \<leftarrow> files (fs_db s) j;
       s \<leftarrow> (if dedup_enabled (fs_cfg s)
             then do { (g, ddb) \<leftarrow> dedup_rename f g (fs_ddb s); Some (put_entry j g (s\<lparr>fs_ddb := ddb\<rparr>)) }
             else Some s);
       (db, w) \<leftarrow> direct_rename i j (fs_db s) (wd s);
       Some (Ok (), s\<lparr>fs_db := db, wd := w\<rparr>)
     }
     else Some (Err (errno w), s)
   }"

definition finish_rename :: "string \<Rightarrow> string \<Rightarrow> nat \<Rightarrow> nat \<Rightarrow> fs \<Rightarrow> (unit reply \<times> fs) option" where
  "finish_rename from to i j s = do {
     full_from \<leftarrow> fusecompress_getpath from;
     full_to \<leftarrow> fusecompress_getpath to;
     if i = j \<or> i \<in> held s \<or> j \<in> held s then Some (Hangs, s)
     else rename_entries full_from full_to i j s
   }"

text \<open>Without other operations in between; a caller that waits keeps what it holds.\<close>

definition fusecompress_rename :: "string \<Rightarrow> string \<Rightarrow> fs \<Rightarrow> (unit reply \<times> fs) option" where
  "fusecompress_rename from to s = do {
     (r, s) \<leftarrow> hold_entry from s;
     case r of
       Ok i \<Rightarrow> do {
         (r, s) \<leftarrow> hold_entry to s;
         case r of
           Ok j \<Rightarrow> finish_rename from to i j s
         | Err e \<Rightarrow> Some (Err e, s) | Waits j \<Rightarrow> Some (Waits j, s) | Hangs \<Rightarrow> Some (Hangs, s)
       }
     | Err e \<Rightarrow> Some (Err e, s) | Waits i \<Rightarrow> Some (Waits i, s) | Hangs \<Rightarrow> Some (Hangs, s)
   }"

section \<open>link, chmod, chown, utime\<close>

definition link_entry :: "string \<Rightarrow> string \<Rightarrow> nat \<Rightarrow> file_t \<Rightarrow> fs \<Rightarrow> (unit reply \<times> fs) option" where
  "link_entry full_from full_to i f s = do {
     (ok, f, w) \<leftarrow> (if fcompressor f \<noteq> None then do_decompress (fs_cfg s) f (wd s) else Some (True, f, wd s));
     if \<not> ok then Some (Err (errno w), put_entry i f (s\<lparr>wd := w\<rparr>))
     else do {
       let (res, w) = sys_link full_from full_to w;
       let s = put_entry i (f\<lparr>dontcompress := True\<rparr>) (s\<lparr>wd := w\<rparr>);
       Some (if res = FAIL then Err (errno w) else Ok (), s)
     }
   }"

definition fusecompress_link :: "string \<Rightarrow> string \<Rightarrow> fs \<Rightarrow> (unit reply \<times> fs) option" where
  "fusecompress_link from to s = do {
     full_from \<leftarrow> fusecompress_getpath from;
     full_to \<leftarrow> fusecompress_getpath to;
     with_entry full_from True (link_entry full_from full_to) s
   }"

definition fusecompress_chmod :: "string \<Rightarrow> nat \<Rightarrow> fs \<Rightarrow> (unit reply \<times> fs) option" where
  "fusecompress_chmod path mode s = do {
     full \<leftarrow> fusecompress_getpath path;
     let (res, w) = (if dedup_enabled (fs_cfg s) then dedup_sys_chmod full mode (wd s)
                     else sys_chmod full mode (wd s));
     Some (if res = FAIL then Err (errno w) else Ok (), s\<lparr>wd := w\<rparr>)
   }"

definition fusecompress_chown :: "string \<Rightarrow> nat \<Rightarrow> nat \<Rightarrow> fs \<Rightarrow> (unit reply \<times> fs) option" where
  "fusecompress_chown path uid gid s = do {
     full \<leftarrow> fusecompress_getpath path;
     let (res, w) = (if dedup_enabled (fs_cfg s) then dedup_sys_chown full uid gid (wd s)
                     else sys_lchown full uid gid (wd s));
     Some (if res = FAIL then Err (errno w) else Ok (), s\<lparr>wd := w\<rparr>)
   }"

text \<open>The library never passes a NULL buffer; the times are whole seconds.\<close>

definition fusecompress_utime :: "string \<Rightarrow> int \<Rightarrow> int \<Rightarrow> fs \<Rightarrow> (unit reply \<times> fs) option" where
  "fusecompress_utime path actime modtime s = do {
     full \<leftarrow> fusecompress_getpath path;
     let a = (actime, 0);
     let m = (modtime, 0);
     let ((res, st), w) = sys_lstat full no_stat (wd s);
     if res = 0 \<and> \<not> S_ISREG (st_mode st) then do {
       let (res, w) = sys_lutimes full a m w;
       Some (if res < 0 then Err (errno w) else Ok (), s\<lparr>wd := w\<rparr>)
     }
     else with_entry full False (\<lambda>i f s.
       let (res, w) = (if dedup_enabled (fs_cfg s) then dedup_sys_utime full a m (wd s)
                       else sys_lutimes full a m (wd s))
       in Some (if res = -1 then Err (errno w) else Ok (), s\<lparr>wd := w\<rparr>)) (s\<lparr>wd := w\<rparr>)
   }"

section \<open>truncate\<close>

text \<open>Resetting the descriptors of a compressed file that is cut to nothing.\<close>

fun close_rewind_all ::
  "config \<Rightarrow> file_t \<Rightarrow> descriptor_t list \<Rightarrow> world \<Rightarrow> (file_t \<times> descriptor_t list \<times> world) option" where
  "close_rewind_all cfg f [] w = Some (f, [], w)"
| "close_rewind_all cfg f (d # ds) w = do {
     (_, f, d, w) \<leftarrow> direct_close cfg f d w;
     let w = snd (sys_lseek (d_fd d) 0 SEEK_SET w);
     (f, ds, w) \<leftarrow> close_rewind_all cfg f ds w;
     Some (f, d # ds, w)
   }"

text \<open>Before the file itself is cut: the result says whether to go on.\<close>

definition truncate_compressed :: "off \<Rightarrow> file_t \<Rightarrow> fs \<Rightarrow> (bool \<times> file_t \<times> fs) option" where
  "truncate_compressed sz f s =
     (if fcompressor f = None then Some (True, f, s)
      else if sz > 0 then do {
        (ok, f, w) \<leftarrow> do_decompress (fs_cfg s) f (wd s);
        Some (ok, f, s\<lparr>wd := w\<rparr>)
      }
      else if sz = 0 then do {
        (f, ds, w) \<leftarrow> close_rewind_all (fs_cfg s) f (head f) (wd s);
        Some (True, f\<lparr>head := ds, fcompressor := None\<rparr>, s\<lparr>wd := w\<rparr>)
      }
      else Some (True, f, s))"

definition truncate_entry :: "path \<Rightarrow> off \<Rightarrow> nat \<Rightarrow> file_t \<Rightarrow> fs \<Rightarrow> (unit reply \<times> fs) option" where
  "truncate_entry full sz i f s = do {
     (f, s) \<leftarrow> discard_entry f s;
     (ok, f, s) \<leftarrow> truncate_compressed sz f s;
     if \<not> ok then Some (Err (errno (wd s)), put_entry i f s)
     else do {
       let (fd, w) = file_open full {O_WRONLY} (wd s);
       if fd = FAIL then Some (Err (errno w), put_entry i f (s\<lparr>wd := w\<rparr>))
       else do {
         let (res, w) = sys_ftruncate fd sz w;
         let e = errno w;
         let w = snd (sys_close fd w);
         if res = FAIL then Some (Err e, put_entry i f (s\<lparr>wd := w\<rparr>))
         else Some (Ok (), put_entry i (f\<lparr>fsize := sz\<rparr>) (s\<lparr>wd := w\<rparr>))
       }
     }
   }"

definition fusecompress_truncate :: "string \<Rightarrow> off \<Rightarrow> fs \<Rightarrow> (unit reply \<times> fs) option" where
  "fusecompress_truncate path sz s = do {
     full \<leftarrow> fusecompress_getpath path;
     with_entry full True (truncate_entry full sz) s
   }"

section \<open>open\<close>

definition open_flags :: "oflag set \<Rightarrow> oflag set" where
  "open_flags flags =
     (let flags = (if O_WRONLY \<in> flags then insert O_RDWR (flags - {O_WRONLY}) else flags)
      in flags - {O_APPEND})"

text \<open>
  From the opened backing file on. Two error paths return with the lock held and the descriptor
  open. The new descriptor goes to the front of the list; its \<open>flags\<close> are never set.
\<close>

definition open_descriptor :: "nat \<Rightarrow> file_t \<Rightarrow> int \<Rightarrow> fs \<Rightarrow> (nat reply \<times> fs) option" where
  "open_descriptor i f fd s = do {
     let ((res, st), w) = sys_fstat fd no_stat (wd s);
     let s = s\<lparr>wd := w\<rparr>;
     if res = -1 then Some (Err (errno w), put_entry i f (s\<lparr>held := insert i (held s)\<rparr>))
     else do {
       let f = (if S_ISREG (st_mode st) \<and> st_nlink st > 1 then f\<lparr>dontcompress := True\<rparr> else f);
       (res, c, sz, w) \<leftarrow>
         (if st_size st \<ge> int sizeof_header
          then file_read_header_fd (fs_cfg s) fd (fcompressor f) (st_size st) w
          else Some (0, None, st_size st, w));
       let f = f\<lparr>fcompressor := c\<rparr>;
       let s = s\<lparr>wd := w\<rparr>;
       if res = FAIL then Some (Err EIO, put_entry i f (s\<lparr>held := insert i (held s)\<rparr>))
       else do {
         let d = \<lparr>d_id = next_desc s, d_fd = fd, d_flags = {}, d_handle = None, d_offset = 0\<rparr>;
         let f = f\<lparr>accesses := accesses f + 1, fsize := sz, head := d # head f\<rparr>;
         Some (Ok (next_desc s), put_entry i f (s\<lparr>next_desc := next_desc s + 1\<rparr>))
       }
     }
   }"

definition undedup_entry :: "oflag set \<Rightarrow> file_t \<Rightarrow> fs \<Rightarrow> (int \<times> file_t \<times> fs) option" where
  "undedup_entry flags f s =
     (if dedup_enabled (fs_cfg s) \<and> flags \<inter> {O_RDWR, O_CREAT, O_TRUNC} \<noteq> {} then do {
        (r, f, ddb, w) \<leftarrow> do_undedup f (fs_ddb s) (wd s);
        Some (r, f, s\<lparr>fs_ddb := ddb, wd := w\<rparr>)
      }
      else Some (0, f, s))"

definition fuse_open_entry :: "path \<Rightarrow> oflag set \<Rightarrow> nat \<Rightarrow> file_t \<Rightarrow> fs \<Rightarrow> (nat reply \<times> fs) option" where
  "fuse_open_entry full flags i f s = do {
     let flags = open_flags flags;
     (r, f, s) \<leftarrow> undedup_entry flags f s;
     if r = FAIL then Some (Err (errno (wd s)), put_entry i f s)
     else do {
       let (fd, w) = file_open full flags (wd s);
       let s = s\<lparr>wd := w\<rparr>;
       if fd = FAIL then Some (Err (errno w), put_entry i f s)
       else open_descriptor i f fd s
     }
   }"

definition fusecompress_open :: "string \<Rightarrow> oflag set \<Rightarrow> fs \<Rightarrow> (nat reply \<times> fs) option" where
  "fusecompress_open path flags s = do {
     full \<leftarrow> fusecompress_getpath path;
     with_entry full True (fuse_open_entry full flags) s
   }"

section \<open>read, write and release\<close>

text \<open>\<open>descriptor->file\<close>: the file that holds the descriptor.\<close>

definition desc_file :: "nat \<Rightarrow> fdb \<Rightarrow> nat option" where
  "desc_file d db = find (\<lambda>i. file_is (\<lambda>f. find_desc d f \<noteq> None) db i) [0..<next_fid db]"

definition with_desc ::
  "nat \<Rightarrow> (nat \<Rightarrow> file_t \<Rightarrow> descriptor_t \<Rightarrow> fs \<Rightarrow> ('a reply \<times> fs) option) \<Rightarrow> fs \<Rightarrow> ('a reply \<times> fs) option" where
  "with_desc d act s = do {
     i \<leftarrow> desc_file d (fs_db s);
     f \<leftarrow> files (fs_db s) i;
     x \<leftarrow> find_desc d f;
     if i \<in> held s then Some (Hangs, s) else act i f x s
   }"

text \<open>The reply to a read are the first \<open>ret\<close> bytes of the buffer.\<close>

definition read_desc ::
  "nat \<Rightarrow> off \<Rightarrow> nat \<Rightarrow> file_t \<Rightarrow> descriptor_t \<Rightarrow> fs \<Rightarrow> (byte list reply \<times> fs) option" where
  "read_desc n offset i f x s = do {
     (res, buf, f, w) \<leftarrow>
       (if fcompressor f \<noteq> None then direct_decompress (fs_cfg s) f (d_id x) n offset (wd s)
        else (let ((r, bs), w) = sys_pread (d_fd x) n offset (wd s) in Some (r, bs, f, w)));
     let s = s\<lparr>wd := w\<rparr>;
     if res = FAIL then Some (Err (errno w), put_entry i (f\<lparr>fsize := -1\<rparr>) s)
     else Some (Ok (take (nat res) buf), put_entry i f s)
   }"

definition fusecompress_read :: "nat \<Rightarrow> nat \<Rightarrow> off \<Rightarrow> fs \<Rightarrow> (byte list reply \<times> fs) option" where
  "fusecompress_read d n offset s = with_desc d (read_desc n offset) s"

text \<open>Which compressor a new file gets, decided at its first write.\<close>

definition write_choose :: "config \<Rightarrow> off \<Rightarrow> file_t \<Rightarrow> file_t option" where
  "write_choose cfg offset f = do {
     f \<leftarrow>
       (if \<not> dontcompress f \<and> fsize f = 0 \<and> accesses f = 1 \<and> offset = 0 then do {
          assert (fcompressor f = None);
          Some (f\<lparr>fcompressor := choose_compressor cfg (filename f)\<rparr>)
        }
        else Some f);
     Some (f\<lparr>dontcompress := True\<rparr>)
   }"

definition write_desc ::
  "byte list \<Rightarrow> off \<Rightarrow> nat \<Rightarrow> file_t \<Rightarrow> descriptor_t \<Rightarrow> fs \<Rightarrow> (int reply \<times> fs) option" where
  "write_desc buf offset i f x s = do {
     (f, s) \<leftarrow> discard_entry f s;
     f \<leftarrow> write_choose (fs_cfg s) offset f;
     (res, f, w) \<leftarrow>
       (if fcompressor f \<noteq> None then direct_compress (fs_cfg s) f (d_id x) buf offset (wd s)
        else (let (r, w) = sys_pwrite (d_fd x) buf offset (wd s) in Some (r, f, w)));
     let s = s\<lparr>wd := w\<rparr>;
     if res = FAIL then Some (Err (errno w), put_entry i (f\<lparr>fsize := -1\<rparr>) s)
     else Some (Ok res, put_entry i f s)
   }"

definition fusecompress_write :: "nat \<Rightarrow> byte list \<Rightarrow> off \<Rightarrow> fs \<Rightarrow> (int reply \<times> fs) option" where
  "fusecompress_write d buf offset s = with_desc d (write_desc buf offset) s"

definition release_desc :: "nat \<Rightarrow> file_t \<Rightarrow> descriptor_t \<Rightarrow> fs \<Rightarrow> (unit reply \<times> fs) option" where
  "release_desc i f x s = do {
     (f, x, w) \<leftarrow>
       (if fcompressor f \<noteq> None then do { (_, f, x, w) \<leftarrow> direct_close (fs_cfg s) f x (wd s); Some (f, x, w) }
        else Some (f, x, wd s));
     let f = f\<lparr>head := filter (\<lambda>y. d_id y \<noteq> d_id x) (head f), accesses := accesses f - 1\<rparr>;
     w \<leftarrow> (if d_fd x \<noteq> -1 then do { (_, w) \<leftarrow> file_close (d_fd x) w; Some w } else Some w);
     Some (Ok (), put_entry i f (s\<lparr>wd := w\<rparr>))
   }"

definition fusecompress_release :: "nat \<Rightarrow> fs \<Rightarrow> (unit reply \<times> fs) option" where
  "fusecompress_release d s = with_desc d release_desc s"

section \<open>init and destroy\<close>

definition REISERFS_SUPER_MAGIC :: int where
  "REISERFS_SUPER_MAGIC = 1382369651"

text \<open>What \<open>fusecompress_init\<close> computes from the result of \<open>fstatfs\<close>.\<close>

definition init_min_filesize :: "int \<Rightarrow> int \<Rightarrow> config \<Rightarrow> config" where
  "init_min_filesize f_type bsize cfg =
     cfg\<lparr>min_filesize_background := (if f_type = REISERFS_SUPER_MAGIC then 0 else bsize)\<rparr>"

text \<open>One round of the loop of \<open>fusecompress_destroy\<close>: whether it is the last, and the purge.\<close>

definition destroy_round :: "fs \<Rightarrow> (bool \<times> fs) option" where
  "destroy_round s =
     (if db_entries (fs_db s) = 0 then Some (comp_entries (fs_db s) = 0, s)
      else do {
        (db, w) \<leftarrow> direct_open_purge (fs_cfg s) True (fs_db s) (wd s);
        Some (False, s\<lparr>fs_db := db, wd := w\<rparr>)
      })"

end
