(* ===== verification/FuseKeep.thy ===== *)
theory FuseKeep
  imports SameFile Fuse DirectRead
begin

text \<open>
  What reading and writing through a compressor, and the steps of an operation on its entry, keep of
  the entry: the name, the users and the busy flags (\<open>settled\<close>). The operations as a whole are the
  subject of \<open>FuseInv\<close>.
\<close>

section \<open>Reading and writing through a compressor\<close>

lemma put_desc_ids: "map d_id (head (put_desc x f)) = map d_id (head f)"
  by (simp add: put_desc_def)

lemma settled_put_desc [simp]: "settled f (put_desc x g) = settled f g"
  by (simp add: settled_def same_file_def put_desc_ids) (simp add: put_desc_def)

lemma settled_cache_only: "cache_only f g \<Longrightarrow> settled f g"
  using cache_onlyD [of f g] unfolding cache_only_def settled_def same_file_def
  by (metis (no_types, lifting) Int_lower1 file_t.select_convs(2) file_t.surjective file_t.update_convs(7,12))

lemma skip_loop_cache_only:
  assumes "skip_loop cfg m caching room h p n f w = Some res"
  shows "cache_only f (snd (snd (snd (fst res))))"
  using assms
proof (rule skip_loop.raw_induct
    [where P = "\<lambda>cfg m caching room h p n f w res. cache_only f (snd (snd (snd (fst res))))", rotated])
  fix loop :: "config \<Rightarrow> compressor_t \<Rightarrow> bool \<Rightarrow> nat \<Rightarrow> handle \<Rightarrow> off \<Rightarrow> nat \<Rightarrow> file_t \<Rightarrow> world \<Rightarrow>
    ((int option \<times> handle \<times> off \<times> file_t) \<times> world) option"
  fix cfg m caching room h p n f w res
  assume IH: "\<And>cfg m caching room h p n f w res. loop cfg m caching room h p n f w = Some res \<Longrightarrow>
      cache_only f (snd (snd (snd (fst res))))"
  assume run: "(if n = 0 then Some ((None, h, p, f), w)
      else do {
        let readsize = min n DC_PAGE_SIZE;
        new \<leftarrow> caches_here cfg caching f p w;
        let w = (if new then w\<lparr>decomp_cache_size := decomp_cache_size w + page_size\<rparr> else w);
        ((len, bs, h), w) \<leftarrow> cread m h readsize w;
        assert (new \<or> length bs \<le> room);
        if len < 0 then Some ((Some (-1), h, p, f), EIO_FAIL w)
        else if len < int readsize \<and> (fsize f = -1 \<or> p + len < fsize f)
        then Some ((Some (-1), h, p, f), EIO_FAIL w)
        else if len = 0 then Some ((Some 0, h, p, f), w)
        else do {
          let f = (if new then cache_page p bs f else f\<lparr>skipped := skipped f + len\<rparr>);
          loop cfg m caching room h (p + len) (n - nat len) f w
        }
      }) = Some res"
  show "cache_only f (snd (snd (snd (fst res))))"
  proof (cases "n = 0")
    case True
    then show ?thesis using run by auto
  next
    case False
    then obtain new where new: "caches_here cfg caching f p w = Some new"
      using run by (auto simp: bind_eq_Some_conv Let_def)
    define v where "v = (if new then w\<lparr>decomp_cache_size := decomp_cache_size w + page_size\<rparr> else w)"
    obtain len bs h1 w1 where rd: "cread m h (min n DC_PAGE_SIZE) v = Some ((len, bs, h1), w1)"
      using run False new by (auto simp: bind_eq_Some_conv Let_def v_def)
    let ?f = "if new then cache_page p bs f else f\<lparr>skipped := skipped f + len\<rparr>"
    have f: "cache_only f ?f" by (simp add: cache_page_def)
    have "cache_only f (snd (snd (snd (fst res)))) \<or>
        loop cfg m caching room h1 (p + len) (n - nat len) ?f w1 = Some res"
      using run False new rd
      by (auto simp: bind_eq_Some_conv Let_def v_def [symmetric] split: if_split_asm)
    then show ?thesis using IH f cache_only_trans by blast
  qed
qed

lemma skip_forward_cache_only:
  assumes "skip_forward cfg m caching room h cur offset f w = Some ((r, h', p, g), w')"
  shows "cache_only f g"
proof (cases "offset > cur")
  case False
  then show ?thesis using assms by (simp add: skip_forward_def)
next
  case True
  let ?c = "caching \<and> \<not> offset - cur > max_decomp_cache_size cfg - decomp_cache_size w"
  let ?f = "if ?c then alloc_cache f else f"
  have "skip_loop cfg m ?c room h cur (nat (offset - cur)) ?f w = Some ((r, h', p, g), w')"
    using assms True by (simp add: skip_forward_def Let_def)
  then have "cache_only ?f g" using skip_loop_cache_only by fastforce
  moreover have "cache_only f ?f" by (simp add: alloc_cache_def)
  ultimately show ?thesis using cache_only_trans by blast
qed

lemma settled_read_stream:
  assumes "read_stream cfg m caching f x buf n offset w = Some (r, b, g, w')"
  shows "settled f g"
proof -
  obtain ok1 x1 w1 where 1: "rewind_stream m x offset w = Some (ok1, x1, w1)"
    using assms by (auto simp: read_stream_def bind_eq_Some_conv)
  show ?thesis
  proof (cases ok1)
    case False
    then show ?thesis using assms 1 by (auto simp: read_stream_def)
  next
    case True
    obtain ok2 x2 w2 where 2: "open_stream m x1 w1 = Some (ok2, x2, w2)"
      using assms 1 True by (auto simp: read_stream_def bind_eq_Some_conv)
    show ?thesis
    proof (cases ok2)
      case False
      then show ?thesis using assms 1 2 True by (auto simp: read_stream_def)
    next
      case ok2: True
      obtain h ret h1 p f1 w3 where 3: "d_handle x2 = Some h"
        "skip_forward cfg m caching n h (d_offset x2) offset f w2 = Some ((ret, h1, p, f1), w3)"
        using assms 1 2 True ok2 by (auto simp: read_stream_def bind_eq_Some_conv)
      have "settled f f1" by (rule settled_cache_only [OF skip_forward_cache_only [OF 3(2)]])
      then show ?thesis
        using assms 1 2 True ok2 3
        by (auto simp: read_stream_def bind_eq_Some_conv Let_def split: option.split_asm if_split_asm)
    qed
  qed
qed

lemma settled_decompress_fallback:
  assumes "decompress_fallback cfg f d buf n offset w = Some (r, b, g, w')"
  shows "settled f g"
proof -
  obtain ok f1 w1 where 1: "do_decompress cfg f w = Some (ok, f1, w1)"
    using assms by (auto simp: decompress_fallback_def bind_eq_Some_conv)
  have "settled f f1" by (rule settled_decompress [OF 1])
  then show ?thesis
    using assms 1 by (auto simp: decompress_fallback_def bind_eq_Some_conv Let_def split_beta split: if_split_asm)
qed

lemma serve_pages_cache_only:
  "serve_pages n i buf f w = Some (m, j, b, g, w') \<Longrightarrow> cache_only f g"
proof (induction n arbitrary: i buf f w)
  case 0
  then show ?case by simp
next
  case (Suc n)
  then obtain ps where ps: "cache f = Some ps" by (auto simp: bind_eq_Some_conv)
  show ?case
  proof (cases "ps ! i")
    case None
    then show ?thesis using Suc.prems ps by (auto simp: bind_eq_Some_conv)
  next
    case (Some page)
    then have "serve_pages n (i + 1) (buf @ page) (f\<lparr>cache := Some (ps[i := None])\<rparr>)
        (w\<lparr>decomp_cache_size := decomp_cache_size w - page_size\<rparr>) = Some (m, j, b, g, w')"
      using Suc.prems ps by (auto simp: bind_eq_Some_conv)
    from Suc.IH [OF this] show ?thesis using cache_only_trans [OF cache_only_update(1)] by blast
  qed
qed

lemma settled_direct_decompress:
  assumes "direct_decompress cfg f d n offset w = Some (r, b, g, w')"
  shows "settled f g"
proof -
  let ?f = "if ftype f = TYPE_NONE then f\<lparr>ftype := READ\<rparr> else f"
  let ?c = "cache_decompressed_data cfg \<and> offset mod page_size = 0 \<and> n mod DC_PAGE_SIZE = 0"
  obtain m c x k i buf f1 w1 where
    sv: "(if ?c \<and> ftype ?f = READ \<and> page_cached ?f offset
        then serve_pages (n div DC_PAGE_SIZE) (page_no offset) [] ?f w
        else Some (1, 0, [], ?f, w)) = Some (k, i, buf, f1, w1)"
    and rest: "(if k = 0 then Some (int (length buf), buf, f1, w1)
     else if must_fall_back cfg ?c f1 x (offset + int (length buf)) w1
     then decompress_fallback cfg f1 d buf (n - length buf) (offset + int (length buf)) w1
     else read_stream cfg m ?c f1 x buf (n - length buf) (offset + int (length buf)) w1) = Some (r, b, g, w')"
    using assms unfolding direct_decompress_def Let_def by (auto simp: bind_eq_Some_conv)
  have "cache_only ?f f1" using sv serve_pages_cache_only by (auto split: if_split_asm)
  then have "settled ?f f1" by (rule settled_cache_only)
  moreover have "settled f ?f" by simp
  moreover have "settled f1 g"
    using rest settled_decompress_fallback settled_read_stream by (auto split: if_split_asm)
  ultimately show ?thesis using settled_trans by blast
qed

lemma settled_direct_compress:
  assumes "direct_compress cfg f d buf offset w = Some (r, g, w')"
  shows "settled f g"
proof -
  obtain f1 w1 where fl: "flush_file_cache f w = (f1, w1)" by fastforce
  let ?f = "if ftype f1 = TYPE_NONE then f1\<lparr>ftype := WRITE\<rparr> else f1"
  obtain m x where
    rest: "(if d_offset x \<noteq> fsize ?f \<or> d_offset x \<noteq> offset \<or> ftype ?f \<noteq> WRITE \<or> accesses ?f > 1
     then compress_fallback cfg ?f d buf offset w1
     else do {
       (ok, x, w) \<leftarrow> start_stream cfg m ?f x w1;
       if \<not> ok then Some (FAIL, put_desc x ?f, w)
       else write_stream m ?f x buf w
     }) = Some (r, g, w')"
    using assms fl unfolding direct_compress_def Let_def by (auto simp: bind_eq_Some_conv)
  have f: "settled f ?f" using settled_flush [OF fl] by simp
  have ws: "settled h g'" if "write_stream m h y bs v = Some (a, g', v')" for h y bs v a g' v'
    using that
    by (auto simp: write_stream_def bind_eq_Some_conv Let_def split_beta split: if_split_asm)
  have fb: "settled h g'" if fall: "compress_fallback cfg h d buf offset v = Some (a, g', v')" for h v a g' v'
  proof -
    obtain ok h1 v1 where 1: "do_decompress cfg h v = Some (ok, h1, v1)"
      using fall by (auto simp: compress_fallback_def bind_eq_Some_conv)
    then show ?thesis using fall settled_decompress [OF 1]
      by (auto simp: compress_fallback_def bind_eq_Some_conv Let_def split_beta split: if_split_asm)
  qed
  have "settled ?f g"
    using rest ws fb by (auto simp: bind_eq_Some_conv split: if_split_asm)
  with f show ?thesis by (rule settled_trans)
qed

end
