(* ===== verification/FuseInv.thy ===== *)
theory FuseInv
  imports FuseKeep
begin

text \<open>
  The invariant of a mounted file system (\<open>fs_ok\<close>): the accounts of the database of files, the
  identities of the open descriptors, and who may be working on which file. Every operation of
  \<open>Fuse\<close> and every step of the background thread keeps it.
\<close>

section \<open>What an operation does with its entry\<close>

text \<open>It changes that entry only, and of that neither the name nor the users nor the busy flags.\<close>

abbreviation env :: "fs \<Rightarrow> nat \<times> compressor_t option list" where
  "env s \<equiv> (next_desc s, compressors (fs_cfg s))"

definition entry_step :: "nat \<Rightarrow> file_t \<Rightarrow> fs \<Rightarrow> fs \<Rightarrow> bool" where
  "entry_step i f s s' \<longleftrightarrow>
     (\<exists>g. fs_db s' = put_file i g (fs_db s) \<and> settled f g) \<and> env s' = env s"

lemma entry_stepI: "fs_db s' = put_file i g (fs_db s) \<Longrightarrow> settled f g \<Longrightarrow> env s' = env s \<Longrightarrow> entry_step i f s s'"
  by (auto simp: entry_step_def)

lemma fs_db_put_entry [simp]:
  "fs_db (put_entry i f s) = put_file i f (fs_db s)" "next_desc (put_entry i f s) = next_desc s"
  "fs_cfg (put_entry i f s) = fs_cfg s" "held (put_entry i f s) = held s" "wd (put_entry i f s) = wd s"
  "fs_ddb (put_entry i f s) = fs_ddb s" "db_locked (put_entry i f s) = db_locked s"
  by (simp_all add: put_entry_def)

lemma discard_entry_spec:
  assumes "discard_entry f s = Some (g, s')"
  shows "settled f g \<and> status g = status f \<and> fs_db s' = fs_db s \<and> env s' = env s \<and> fs_cfg s' = fs_cfg s"
proof -
  have "settled f g" using assms settled_discard
    by (auto simp: discard_entry_def bind_eq_Some_conv split: if_split_asm)
  moreover have "status g = status f" using assms
    by (auto simp: discard_entry_def dedup_discard_def bind_eq_Some_conv split: if_split_asm)
  ultimately show ?thesis using assms
    by (auto simp: discard_entry_def bind_eq_Some_conv split: if_split_asm)
qed

lemma getattr_entry_spec:
  assumes "getattr_entry full st i f s = Some (r, s')"
  shows "\<exists>g. fs_db s' = put_file i g (fs_db s) \<and> settled f g \<and> status g = status f \<and> env s' = env s"
  using assms by (auto simp: getattr_entry_def bind_eq_Some_conv Let_def split: if_split_asm)

lemma unlink_entry_step:
  assumes "unlink_entry full i f s = Some (r, s')"
  shows "entry_step i f s s'"
proof -
  obtain g s1 where d: "discard_entry f s = Some (g, s1)"
    using assms by (auto simp: unlink_entry_def bind_eq_Some_conv)
  note ds = discard_entry_spec [OF d]
  then have "fs_db s' = put_file i g (fs_db s) \<or> fs_db s' = put_file i (direct_delete g) (fs_db s)" "env s' = env s"
    using assms d by (auto simp: unlink_entry_def bind_eq_Some_conv Let_def split_beta split: if_split_asm)
  then show ?thesis using ds by (auto simp: entry_step_def)
qed

lemma link_entry_step:
  assumes "link_entry a b i f s = Some (r, s')"
  shows "entry_step i f s s'"
proof -
  obtain ok g w where d: "(if fcompressor f \<noteq> None then do_decompress (fs_cfg s) f (wd s) else Some (True, f, wd s)) = Some (ok, g, w)"
    using assms by (auto simp: link_entry_def bind_eq_Some_conv)
  then have "settled f g" using settled_decompress by (auto split: if_split_asm)
  then show ?thesis
    using assms d by (auto simp: link_entry_def bind_eq_Some_conv Let_def split_beta entry_step_def split: if_split_asm)
qed

lemma close_rewind_all_settled:
  "close_rewind_all cfg f ds w = Some (g, ds', w') \<Longrightarrow>
   settled f g \<and> head g = head f \<and> map d_id ds' = map d_id ds"
proof (induction ds arbitrary: f w g ds' w')
  case Nil
  then show ?case by simp
next
  case (Cons d ds)
  then obtain r f1 d1 w1 ds2 where c: "direct_close cfg f d w = Some (r, f1, d1, w1)"
    "close_rewind_all cfg f1 ds (snd (sys_lseek (d_fd d1) 0 SEEK_SET w1)) = Some (g, ds2, w')"
    "ds' = d1 # ds2"
    by (auto simp: bind_eq_Some_conv Let_def)
  then show ?case
    using settled_direct_close [OF c(1)] Cons.IH [OF c(2)] settled_trans by auto
qed

lemma truncate_compressed_settled:
  assumes "truncate_compressed sz f s = Some (ok, g, s')"
  shows "settled f g \<and> fs_db s' = fs_db s \<and> env s' = env s"
proof -
  consider "fcompressor f = None \<or> sz < 0" | (dec) "fcompressor f \<noteq> None" "sz > 0" | (zero) "fcompressor f \<noteq> None" "sz = 0"
    by linarith
  then show ?thesis
  proof cases
    case 1
    then show ?thesis using assms by (auto simp: truncate_compressed_def split: if_split_asm)
  next
    case dec
    then show ?thesis using assms settled_decompress
      by (auto simp: truncate_compressed_def bind_eq_Some_conv)
  next
    case zero
    then obtain f1 ds w1 where c: "close_rewind_all (fs_cfg s) f (head f) (wd s) = Some (f1, ds, w1)"
      "g = f1\<lparr>head := ds, fcompressor := None\<rparr>" "s' = s\<lparr>wd := w1\<rparr>"
      using assms by (auto simp: truncate_compressed_def bind_eq_Some_conv)
    then show ?thesis using close_rewind_all_settled [OF c(1)] settled_head [of f f1 ds] by simp
  qed
qed

lemma truncate_entry_step:
  assumes "truncate_entry full sz i f s = Some (r, s')"
  shows "entry_step i f s s'"
proof -
  obtain g s1 where d: "discard_entry f s = Some (g, s1)"
    using assms by (auto simp: truncate_entry_def bind_eq_Some_conv)
  obtain ok h s2 where t: "truncate_compressed sz g s1 = Some (ok, h, s2)"
    using assms d by (auto simp: truncate_entry_def bind_eq_Some_conv)
  have k: "settled f h" "fs_db s2 = fs_db s" "env s2 = env s"
    using discard_entry_spec [OF d] truncate_compressed_settled [OF t] settled_trans by auto
  show ?thesis
    using assms d t k
    by (auto simp: truncate_entry_def bind_eq_Some_conv Let_def split_beta entry_step_def split: if_split_asm)
qed

lemma read_desc_step:
  assumes "read_desc n offset i f x s = Some (r, s')"
  shows "entry_step i f s s'"
proof -
  obtain res buf g w where d: "(if fcompressor f \<noteq> None then direct_decompress (fs_cfg s) f (d_id x) n offset (wd s)
        else (let ((r, bs), w) = sys_pread (d_fd x) n offset (wd s) in Some (r, bs, f, w))) = Some (res, buf, g, w)"
    and r: "(if res = FAIL then Some (Err (errno w), put_entry i (g\<lparr>fsize := -1\<rparr>) (s\<lparr>wd := w\<rparr>))
       else Some (Ok (take (nat res) buf), put_entry i g (s\<lparr>wd := w\<rparr>))) = Some (r, s')"
    using assms by (auto simp: read_desc_def bind_eq_Some_conv Let_def)
  have "settled f g" using d settled_direct_decompress by (auto simp: Let_def split_beta split: if_split_asm)
  then show ?thesis using r by (auto simp: entry_step_def split: if_split_asm)
qed

lemma write_choose_settled: "write_choose cfg offset f = Some g \<Longrightarrow> settled f g"
  by (auto simp: write_choose_def bind_eq_Some_conv split: if_split_asm)

lemma write_desc_step:
  assumes "write_desc buf offset i f x s = Some (r, s')"
  shows "entry_step i f s s'"
proof -
  obtain f1 s1 where d: "discard_entry f s = Some (f1, s1)"
    using assms by (auto simp: write_desc_def bind_eq_Some_conv)
  obtain f2 where c: "write_choose (fs_cfg s1) offset f1 = Some f2"
    using assms d by (auto simp: write_desc_def bind_eq_Some_conv)
  obtain res g w where e: "(if fcompressor f2 \<noteq> None then direct_compress (fs_cfg s1) f2 (d_id x) buf offset (wd s1)
        else (let (r, w) = sys_pwrite (d_fd x) buf offset (wd s1) in Some (r, f2, w))) = Some (res, g, w)"
    and r: "(if res = FAIL then Some (Err (errno w), put_entry i (g\<lparr>fsize := -1\<rparr>) (s1\<lparr>wd := w\<rparr>))
       else Some (Ok res, put_entry i g (s1\<lparr>wd := w\<rparr>))) = Some (r, s')"
    using assms d c by (auto simp: write_desc_def bind_eq_Some_conv Let_def)
  have "settled f2 g" using e settled_direct_compress by (auto simp: Let_def split_beta split: if_split_asm)
  then have "settled f g"
    using discard_entry_spec [OF d] write_choose_settled [OF c] settled_trans by blast
  then show ?thesis using r discard_entry_spec [OF d] by (auto simp: entry_step_def split: if_split_asm)
qed

section \<open>The invariant\<close>

text \<open>
  A descriptor's identity is below the counter and belongs to one descriptor of one file. The thread
  works on a file it alone uses and whose flag it has set; nobody else sets COMPRESSING, and
  DECOMPRESSING is never left set.
\<close>

definition desc_ids :: "fdb \<Rightarrow> nat \<Rightarrow> nat list" where
  "desc_ids db i = (case files db i of None \<Rightarrow> [] | Some f \<Rightarrow> map d_id (head f))"

definition descs_ok :: "nat \<Rightarrow> (nat \<Rightarrow> nat list) \<Rightarrow> bool" where
  "descs_ok n D \<longleftrightarrow>
     (\<forall>i. distinct (D i)) \<and> (\<forall>i d. d \<in> set (D i) \<longrightarrow> d < n) \<and>
     (\<forall>i j d. d \<in> set (D i) \<longrightarrow> d \<in> set (D j) \<longrightarrow> i = j)"

definition working :: "worker \<Rightarrow> nat option" where
  "working t = (case t of Compressing i j \<Rightarrow> Some i | Deduping i \<Rightarrow> Some i | _ \<Rightarrow> None)"

definition taken :: "worker \<Rightarrow> nat option" where
  "taken t = (case t of Took i b \<Rightarrow> Some i | _ \<Rightarrow> working t)"

definition work_ok :: "worker \<Rightarrow> nat \<Rightarrow> file_t \<Rightarrow> bool" where
  "work_ok t i f \<longleftrightarrow>
     (COMPRESSING \<in> status f \<longleftrightarrow> (\<exists>j. t = Compressing i j)) \<and> DECOMPRESSING \<notin> status f \<and>
     (t = Deduping i \<longrightarrow> DEDUPING \<in> status f) \<and> (working t = Some i \<longrightarrow> accesses f = 1)"

text \<open>The files held: the thread's, and those of renames in progress, which are in \<open>R\<close> with their names.\<close>

definition holders :: "(nat \<times> path) list \<Rightarrow> worker \<Rightarrow> nat \<Rightarrow> nat" where
  "holders R t i = length (filter (\<lambda>e. fst e = i) R) + (if taken t = Some i then 1 else 0)"

definition fs_ok :: "(nat \<times> path) list \<Rightarrow> worker \<Rightarrow> fs \<Rightarrow> bool" where
  "fs_ok R t s \<longleftrightarrow>
     fdb_inv 0 (holders R t) (fs_db s) \<and> descs_ok (next_desc s) (desc_ids (fs_db s)) \<and>
     (\<forall>i p. (i, p) \<in> set R \<longrightarrow> (\<exists>f. files (fs_db s) i = Some f \<and> filename f = p)) \<and>
     modules_keep (fs_cfg s) \<and>
     (\<forall>i f. files (fs_db s) i = Some f \<longrightarrow> work_ok t i f)"

lemma fs_okD:
  assumes "fs_ok R t s"
  shows "fdb_inv 0 (holders R t) (fs_db s)" "descs_ok (next_desc s) (desc_ids (fs_db s))"
    "files (fs_db s) i = Some f \<Longrightarrow> work_ok t i f"
    "(i, p) \<in> set R \<Longrightarrow> \<exists>f. files (fs_db s) i = Some f \<and> filename f = p"
    "modules_keep (fs_cfg s)"
  using assms by (auto simp: fs_ok_def)

lemma modules_keep_cong: "compressors a = compressors b \<Longrightarrow> modules_keep a = modules_keep b"
  by (simp add: modules_keep_def module_of_def)

lemma taken_held: "taken t = Some i \<Longrightarrow> 0 < holders R t i"
  by (simp add: holders_def)

lemma rename_held: "(i, p) \<in> set R \<Longrightarrow> 0 < holders R t i"
  by (force simp: holders_def filter_empty_conv)

lemma working_taken: "working t = Some i \<Longrightarrow> taken t = Some i"
  by (cases t) (simp_all add: working_def taken_def)

lemma fs_ok_cong:
  "fs_db s' = fs_db s \<Longrightarrow> env s' = env s \<Longrightarrow> fs_ok R t s' = fs_ok R t s"
  using modules_keep_cong [of "fs_cfg s'" "fs_cfg s"] by (simp add: fs_ok_def)

text \<open>The thread's file exists; it is busy and not open.\<close>

lemma taken_exists:
  assumes "fs_ok R t s" and "taken t = Some i"
  obtains f where "files (fs_db s) i = Some f"
  using fdb_invD(8) [OF fs_okD(1) [OF assms(1)], of i] taken_held [OF assms(2)] that by auto

lemma not_working:
  assumes "fs_ok R t s" and "files (fs_db s) i = Some f" and "\<not> busy f \<or> head f \<noteq> []"
  shows "working t \<noteq> Some i"
proof
  assume w: "working t = Some i"
  have ok: "work_ok t i f" by (rule fs_okD(3) [OF assms(1,2)])
  have "busy f" using ok w by (cases t) (auto simp: work_ok_def working_def busy_def)
  then have h: "head f \<noteq> []" "0 < holders R t i" using assms(3) taken_held [OF working_taken [OF w]] by auto
  have "accesses f = int (uses (comp_queue (fs_db s)) (holders R t) i f)"
    by (rule fdb_inv_uses [OF fs_okD(1) [OF assms(1)] assms(2)])
  moreover have "uses (comp_queue (fs_db s)) (holders R t) i f \<ge> 2"
    using h by (cases "head f") (simp_all add: uses_def)
  moreover have "accesses f = 1" using ok w by (simp add: work_ok_def)
  ultimately show False by simp
qed

lemma descs_ok_sub:
  assumes "descs_ok n D" and "\<And>i. D' i = D i \<or> D' i = []"
  shows "descs_ok n D'"
proof -
  have "set (D' i) \<subseteq> set (D i)" "distinct (D i) \<Longrightarrow> distinct (D' i)" for i using assms(2) [of i] by auto
  then show ?thesis using assms(1) unfolding descs_ok_def by blast
qed

text \<open>Changing one entry.\<close>

lemma fs_ok_put:
  assumes "fs_ok R t s" and "files (fs_db s) i = Some f" and "settled f g"
    and "status g = status f \<or> working t \<noteq> Some i"
    and "fs_db s' = put_file i g (fs_db s)" and "env s' = env s"
  shows "fs_ok R t s'"
  unfolding fs_ok_def
proof (intro conjI allI impI)
  have sf: "same_file f g" by (rule settled_same_file [OF assms(3)])
  show "modules_keep (fs_cfg s')"
    using fs_okD(5) [OF assms(1)] assms(6) modules_keep_cong [of "fs_cfg s'" "fs_cfg s"] by simp
  show "\<exists>f. files (fs_db s') a = Some f \<and> filename f = p" if "(a, p) \<in> set R" for a p
    using fs_okD(4) [OF assms(1) that] assms(2,5) sf by (auto simp: same_file_def)
  show "fdb_inv 0 (holders R t) (fs_db s')"
    using fdb_inv_put [OF fs_okD(1) [OF assms(1)] assms(2) sf] assms(5) by simp
  have "desc_ids (fs_db s') = desc_ids (fs_db s)"
    using assms(2,5) sf by (auto simp: desc_ids_def same_file_def fun_eq_iff)
  then show "descs_ok (next_desc s') (desc_ids (fs_db s'))"
    using fs_okD(2) [OF assms(1)] assms(6) by simp
  fix a h assume h: "files (fs_db s') a = Some h"
  show "work_ok t a h"
  proof (cases "a = i")
    case False
    then show ?thesis using h assms(5) fs_okD(3) [OF assms(1)] by simp
  next
    case True
    have "work_ok t i f" by (rule fs_okD(3) [OF assms(1,2)])
    then show ?thesis
      using True h assms(3,4,5) sf
      by (auto simp: work_ok_def working_def settled_def same_file_def split: worker.splits)
  qed
qed

lemma entry_step_ok:
  assumes "fs_ok R t s" and "files (fs_db s) i = Some f" and "working t \<noteq> Some i" and "entry_step i f s s'"
  shows "fs_ok R t s'"
proof -
  obtain g where g: "fs_db s' = put_file i g (fs_db s)" "settled f g" and n: "env s' = env s"
    using assms(4) unfolding entry_step_def by blast
  show ?thesis by (rule fs_ok_put [OF assms(1,2) g(2) disjI2 [OF assms(3)] g(1) n])
qed

section \<open>Opening\<close>

lemma open_entry_ok:
  assumes "fs_ok R t s" and "name_ok full" and "open_entry full stabile s = Some (r, s')"
  shows "fs_ok R t s'" and "env s' = env s"
    and "r = Ok i \<Longrightarrow> \<exists>f. files (fs_db s') i = Some f \<and> filename f = full \<and> \<not> deleted f \<and> (stabile \<longrightarrow> \<not> busy f)"
    and "r = Waits i \<Longrightarrow> \<exists>f. files (fs_db s') i = Some f \<and> filename f = full \<and> busy f \<and> CANCEL \<in> status f"
proof -
  have h: "gethash full = Some (hash_of full, length full + 1)"
    using gethash_eq assms(2) by (simp add: name_ok_def)
  consider (stuck) "r = Hangs" "fs_db s' = fs_db s" "env s' = env s"
    | (go) x db w where "direct_open (fs_cfg s) full stabile (fs_ddb s) (fs_db s) (wd s) = Some (x, db, w)"
      "r = (case x of Opened i \<Rightarrow> Ok i | Blocked i \<Rightarrow> Waits i)" "s' = s\<lparr>fs_db := db, wd := w\<rparr>"
  proof (cases "db_locked s \<or> open_hangs (hash_of full) full (held s) (fs_db s)")
    case True
    then have "r = Hangs \<and> fs_db s' = fs_db s \<and> env s' = env s"
      using assms(3) h by (auto simp: open_entry_def split: if_split_asm)
    then show ?thesis using stuck by blast
  next
    case False
    then obtain x db w where "direct_open (fs_cfg s) full stabile (fs_ddb s) (fs_db s) (wd s) = Some (x, db, w)"
      "(case x of Opened i \<Rightarrow> Ok i | Blocked i \<Rightarrow> Waits i, s\<lparr>fs_db := db, wd := w\<rparr>) = (r, s')"
      using assms(3) h by (auto simp: open_entry_def bind_eq_Some_conv)
    then show ?thesis using go by blast
  qed
  then have "fs_ok R t s' \<and> env s' = env s \<and>
    (r = Ok i \<longrightarrow> (\<exists>f. files (fs_db s') i = Some f \<and> filename f = full \<and> \<not> deleted f \<and> (stabile \<longrightarrow> \<not> busy f))) \<and>
    (r = Waits i \<longrightarrow> (\<exists>f. files (fs_db s') i = Some f \<and> filename f = full \<and> busy f \<and> CANCEL \<in> status f))"
  proof cases
    case stuck
    then show ?thesis using assms(1) fs_ok_cong [OF stuck(2,3)] by simp
  next
    case go
    note d = fs_okD [OF assms(1)]
    obtain x' db' w' where run: "direct_open (fs_cfg s) full stabile (fs_ddb s) (fs_db s) (wd s) = Some (x', db', w')"
      and o': "fdb_inv 0 (holders R t) db'" "came_from (fs_db s) db'"
      "\<forall>j f. files (fs_db s) j = Some f \<longrightarrow> accesses f \<noteq> 0 \<longrightarrow> (\<exists>g. files db' j = Some g \<and> same_file f g)"
      "case x' of
       Opened i \<Rightarrow> \<exists>g. files db' i = Some g \<and> filename g = full \<and> \<not> deleted g \<and> (stabile \<longrightarrow> \<not> busy g)
     | Blocked i \<Rightarrow> stabile \<and> (\<exists>g. files db' i = Some g \<and> filename g = full \<and> busy g \<and> CANCEL \<in> status g)"
      using direct_open_spec [OF d(1) assms(2), of "fs_cfg s" stabile "fs_ddb s" "wd s"] by blast
    have eq: "x' = x" "db' = db" using run go(1) by simp_all
    note o = o' [unfolded eq]
    have from_old: "(\<exists>f. files (fs_db s) j = Some f \<and> head g = head f \<and> status g - {CANCEL} = status f - {CANCEL}) \<or>
        head g = [] \<and> status g = {} \<and> files (fs_db s) j = None" if "files db j = Some g" for j g
      using o(2) [unfolded came_from_def, rule_format, OF that] by meson
    have "desc_ids db j = desc_ids (fs_db s) j \<or> desc_ids db j = []" for j
    proof (cases "files db j")
      case (Some g)
      have "(\<exists>f. files (fs_db s) j = Some f \<and> head g = head f) \<or> head g = []"
        using from_old [OF Some] by blast
      then show ?thesis using Some by (auto simp: desc_ids_def)
    qed (simp add: desc_ids_def)
    then have ds: "descs_ok (next_desc s) (desc_ids db)" by (rule descs_ok_sub [OF d(2)])
    have "work_ok t j g" if g: "files db j = Some g" for j g
    proof -
      from from_old [OF g] show ?thesis
      proof (elim disjE exE conjE)
        fix f assume old: "files (fs_db s) j = Some f" "status g - {CANCEL} = status f - {CANCEL}"
        note wf = d(3) [OF old(1)]
        have "working t = Some j \<longrightarrow> accesses g = 1"
        proof
          assume "working t = Some j"
          then have a: "accesses f = 1" using wf by (simp add: work_ok_def)
          obtain g' where "files db j = Some g'" "same_file f g'"
            using o(3) [rule_format, OF old(1)] a by auto
          then show "accesses g = 1" using a g by (simp add: same_file_def)
        qed
        moreover have "x \<in> status g \<longleftrightarrow> x \<in> status f" if "x \<noteq> CANCEL" for x
          using old(2) that by blast
        ultimately show ?thesis using wf by (simp add: work_ok_def)
      next
        assume new: "status g = {}" "files (fs_db s) j = None"
        have "working t \<noteq> Some j"
        proof
          assume w: "working t = Some j"
          show False using taken_exists [OF assms(1) working_taken [OF w]] new(2) by auto
        qed
        then show ?thesis using new(1) by (auto simp: work_ok_def working_def split: worker.splits)
      qed
    qed
    moreover have "\<exists>g. files db a = Some g \<and> filename g = p" if h: "(a, p) \<in> set R" for a p
    proof -
      obtain f where f: "files (fs_db s) a = Some f" "filename f = p" using d(4) [OF h] by blast
      have "accesses f \<noteq> 0"
        using fdb_inv_uses [OF d(1) f(1)] rename_held [OF h, of t] by (simp add: uses_def)
      then show ?thesis using o(3) [rule_format, OF f(1)] f(2) by (auto simp: same_file_def)
    qed
    ultimately have ok: "fs_ok R t s'" using o(1) ds d(5) go(3) by (simp add: fs_ok_def)
    then show ?thesis using o(4) go(2,3) by (cases x) auto
  qed
  then show "fs_ok R t s'" "env s' = env s"
    "r = Ok i \<Longrightarrow> \<exists>f. files (fs_db s') i = Some f \<and> filename f = full \<and> \<not> deleted f \<and> (stabile \<longrightarrow> \<not> busy f)"
    "r = Waits i \<Longrightarrow> \<exists>f. files (fs_db s') i = Some f \<and> filename f = full \<and> busy f \<and> CANCEL \<in> status f"
    by blast+
qed

lemma with_entry_cases:
  assumes "fs_ok R t s" and "name_ok full" and "with_entry full stabile act s = Some (r, s')"
  obtains (act) i f s1 where "fs_ok R t s1" "files (fs_db s1) i = Some f" "filename f = full" "\<not> deleted f"
      "stabile \<longrightarrow> \<not> busy f" "env s1 = env s" "act i f s1 = Some (r, s')"
    | (no) "fs_ok R t s'" "env s' = env s" "\<forall>x. r \<noteq> Ok x"
proof -
  obtain x s1 where o: "open_entry full stabile s = Some (x, s1)"
    using assms(3) by (auto simp: with_entry_def bind_eq_Some_conv)
  note k = open_entry_ok [OF assms(1,2) o]
  show thesis
  proof (cases x)
    case (Ok i)
    obtain f where "files (fs_db s1) i = Some f" "filename f = full \<and> \<not> deleted f \<and> (stabile \<longrightarrow> \<not> busy f)"
      using k(3) [OF Ok] by blast
    then show ?thesis using act [OF k(1), of i f] k(2) assms(3) o Ok by (simp add: with_entry_def)
  qed (use no k(1,2) assms(3) o in \<open>auto simp: with_entry_def\<close>)
qed

text \<open>An operation that asks for a file nobody works on, and changes its entry only.\<close>

lemma with_entry_step_ok:
  assumes "fs_ok R t s" and "name_ok full" and "with_entry full True act s = Some (r, s')"
    and "\<And>i f s r s'. act i f s = Some (r, s') \<Longrightarrow> entry_step i f s s'"
  shows "fs_ok R t s'"
  using assms(1-3)
proof (cases rule: with_entry_cases)
  case (act i f s1)
  have "working t \<noteq> Some i" using not_working [OF act(1,2)] act(5) by simp
  then show ?thesis by (rule entry_step_ok [OF act(1,2) _ assms(4) [OF act(7)]])
qed

section \<open>The operations\<close>

text \<open>The paths the kernel passes on are absolute and hold no NUL.\<close>

definition path_ok :: "string \<Rightarrow> bool" where
  "path_ok path \<longleftrightarrow> (\<forall>full. fusecompress_getpath path = Some full \<longrightarrow> name_ok full)"

lemma path_okD: "path_ok path \<Longrightarrow> fusecompress_getpath path = Some full \<Longrightarrow> name_ok full"
  by (simp add: path_ok_def)

lemma fusecompress_getattr_ok:
  assumes "fs_ok R t s" and "path_ok path" and "fusecompress_getattr path s = Some (r, s')"
  shows "fs_ok R t s'"
proof -
  obtain full where full: "fusecompress_getpath path = Some full"
    using assms(3) by (auto simp: fusecompress_getattr_def bind_eq_Some_conv)
  note n = path_okD [OF assms(2) full]
  obtain res st w where l: "(if dedup_enabled (fs_cfg s) then dedup_sys_getattr full no_stat (wd s)
      else sys_lstat full no_stat (wd s)) = ((res, st), w)" by (metis prod.collapse)
  have ok1: "fs_ok R t (s\<lparr>wd := w\<rparr>)" using assms(1) fs_ok_cong [of "s\<lparr>wd := w\<rparr>" s] by simp
  consider (magic) "take 3 full = ''_fc''" | (out) "take 3 full \<noteq> ''_fc''" "res = FAIL \<or> \<not> S_ISREG (st_mode st)"
    | (go) "take 3 full \<noteq> ''_fc''" "\<not> (res = FAIL \<or> \<not> S_ISREG (st_mode st))" by blast
  then show ?thesis
  proof cases
    case magic
    then have "(r, s') = magic_getattr (drop 3 full) s"
      using assms(3) full by (simp add: fusecompress_getattr_def)
    then have "fs_db s' = fs_db s" "env s' = env s"
      by (auto simp: magic_getattr_def split: if_split_asm)
    then show ?thesis using assms(1) fs_ok_cong by blast
  next
    case out
    then have "s' = s\<lparr>wd := w\<rparr>"
      using assms(3) full l by (auto simp: fusecompress_getattr_def Let_def split: if_split_asm)
    then show ?thesis using ok1 by simp
  next
    case go
    then have "with_entry full False (getattr_entry full st) (s\<lparr>wd := w\<rparr>) = Some (r, s')"
      using assms(3) full l by (auto simp: fusecompress_getattr_def Let_def)
    with ok1 n show ?thesis
    proof (cases rule: with_entry_cases)
      case (act i f s1)
      show ?thesis using getattr_entry_spec [OF act(7)] fs_ok_put [OF act(1,2)] by blast
    qed
  qed
qed

lemma fusecompress_mknod_ok:
  assumes "fs_ok R t s" and "path_ok path" and "fusecompress_mknod path mode uid gid s = Some (r, s')"
  shows "fs_ok R t s'"
proof -
  obtain full where full: "fusecompress_getpath path = Some full"
    using assms(3) by (auto simp: fusecompress_mknod_def bind_eq_Some_conv)
  have "with_entry full True (\<lambda>i f s.
       let (res, w) = sys_mknod full mode uid gid (wd s); s = s\<lparr>wd := w\<rparr>
       in Some (if res = -1 then Err (errno w) else Ok (), s)) s = Some (r, s')"
    using assms(3) full by (simp add: fusecompress_mknod_def)
  with assms(1) path_okD [OF assms(2) full] show ?thesis
  proof (cases rule: with_entry_cases)
    case (act i f s1)
    then have "fs_db s' = fs_db s1" "env s' = env s1" by (auto simp: Let_def split_beta)
    then show ?thesis using act(1) fs_ok_cong by blast
  qed
qed

lemma fusecompress_unlink_ok:
  assumes "fs_ok R t s" and "path_ok path" and "fusecompress_unlink path s = Some (r, s')"
  shows "fs_ok R t s'"
proof -
  obtain full where full: "fusecompress_getpath path = Some full"
    using assms(3) by (auto simp: fusecompress_unlink_def bind_eq_Some_conv)
  show ?thesis
    by (rule with_entry_step_ok [OF assms(1) path_okD [OF assms(2) full], of "unlink_entry full" r])
      (use assms(3) full unlink_entry_step in \<open>auto simp: fusecompress_unlink_def\<close>)
qed

lemma fusecompress_link_ok:
  assumes "fs_ok R t s" and "path_ok from" and "fusecompress_link from to s = Some (r, s')"
  shows "fs_ok R t s'"
proof -
  obtain a b where full: "fusecompress_getpath from = Some a" "fusecompress_getpath to = Some b"
    using assms(3) by (auto simp: fusecompress_link_def bind_eq_Some_conv)
  show ?thesis
    by (rule with_entry_step_ok [OF assms(1) path_okD [OF assms(2) full(1)], of "link_entry a b" r])
      (use assms(3) full link_entry_step in \<open>auto simp: fusecompress_link_def\<close>)
qed

lemma fusecompress_truncate_ok:
  assumes "fs_ok R t s" and "path_ok path" and "fusecompress_truncate path sz s = Some (r, s')"
  shows "fs_ok R t s'"
proof -
  obtain full where full: "fusecompress_getpath path = Some full"
    using assms(3) by (auto simp: fusecompress_truncate_def bind_eq_Some_conv)
  show ?thesis
    by (rule with_entry_step_ok [OF assms(1) path_okD [OF assms(2) full], of "truncate_entry full sz" r])
      (use assms(3) full truncate_entry_step in \<open>auto simp: fusecompress_truncate_def\<close>)
qed

lemma fusecompress_chmod_ok:
  assumes "fs_ok R t s" and "fusecompress_chmod path mode s = Some (r, s')"
  shows "fs_ok R t s'"
proof -
  have "fs_db s' = fs_db s" "env s' = env s"
    using assms(2) by (auto simp: fusecompress_chmod_def bind_eq_Some_conv Let_def split_beta)
  then show ?thesis using assms(1) fs_ok_cong by blast
qed

lemma fusecompress_chown_ok:
  assumes "fs_ok R t s" and "fusecompress_chown path uid gid s = Some (r, s')"
  shows "fs_ok R t s'"
proof -
  have "fs_db s' = fs_db s" "env s' = env s"
    using assms(2) by (auto simp: fusecompress_chown_def bind_eq_Some_conv Let_def split_beta)
  then show ?thesis using assms(1) fs_ok_cong by blast
qed

lemma fusecompress_utime_ok:
  assumes "fs_ok R t s" and "path_ok path" and "fusecompress_utime path a m s = Some (r, s')"
  shows "fs_ok R t s'"
proof -
  obtain full where full: "fusecompress_getpath path = Some full"
    using assms(3) by (auto simp: fusecompress_utime_def bind_eq_Some_conv)
  obtain res st w where l: "sys_lstat full no_stat (wd s) = ((res, st), w)" by (metis prod.collapse)
  have ok1: "fs_ok R t (s\<lparr>wd := w\<rparr>)" using assms(1) fs_ok_cong [of "s\<lparr>wd := w\<rparr>" s] by simp
  show ?thesis
  proof (cases "res = 0 \<and> \<not> S_ISREG (st_mode st)")
    case True
    then have "fs_db s' = fs_db s" "env s' = env s"
      using assms(3) full l by (auto simp: fusecompress_utime_def Let_def split_beta)
    then show ?thesis using assms(1) fs_ok_cong by blast
  next
    case False
    then have "with_entry full False (\<lambda>i f s.
       let (res, w) = (if dedup_enabled (fs_cfg s) then dedup_sys_utime full (a, 0) (m, 0) (wd s)
                       else sys_lutimes full (a, 0) (m, 0) (wd s))
       in Some (if res = -1 then Err (errno w) else Ok (), s\<lparr>wd := w\<rparr>)) (s\<lparr>wd := w\<rparr>) = Some (r, s')"
      using assms(3) full l by (auto simp: fusecompress_utime_def Let_def)
    with ok1 path_okD [OF assms(2) full] show ?thesis
    proof (cases rule: with_entry_cases)
      case (act i f s1)
      then have "fs_db s' = fs_db s1" "env s' = env s1" by (auto simp: Let_def split_beta)
      then show ?thesis using act(1) fs_ok_cong by blast
    qed
  qed
qed

section \<open>Descriptors\<close>

text \<open>Adding a descriptor with a new identity, and taking one out.\<close>

lemma fs_ok_add_desc:
  assumes "fs_ok R t s" and "files (fs_db s) i = Some f" and "working t \<noteq> Some i" and "settled f g"
    and "d_id d = next_desc s" and "h = g\<lparr>accesses := accesses g + 1, fsize := sz, head := d # head g\<rparr>"
    and "fs_db s' = put_file i h (fs_db s)" and "env s' = (next_desc s + 1, compressors (fs_cfg s))"
  shows "fs_ok R t s'"
  unfolding fs_ok_def
proof (intro conjI allI impI)
  note o = fs_okD [OF assms(1)]
  have sf: "same_file f g" by (rule settled_same_file [OF assms(4)])
  show "\<exists>f. files (fs_db s') a = Some f \<and> filename f = p" if "(a, p) \<in> set R" for a p
    using o(4) [OF that] assms(2,6,7) sf by (auto simp: same_file_def)
  show "modules_keep (fs_cfg s')" using o(5) assms(8) modules_keep_cong [of "fs_cfg s'" "fs_cfg s"] by simp
  have u: "accesses f = int (uses (comp_queue (fs_db s)) (holders R t) i f)" by (rule fdb_inv_uses [OF o(1) assms(2)])
  have "fdb_inv 0 (holders R t) ((put_file i h (fs_db s))\<lparr>comp_queue := comp_queue (fs_db s), comp_entries := comp_entries (fs_db s)\<rparr>)"
  proof (rule fdb_inv_count [OF o(1) assms(2)])
    show "filename h = filename f" "filename_hash h = filename_hash f"
      using sf assms(6) by (simp_all add: same_file_def)
    show "accesses h = int (uses (comp_queue (fs_db s)) (holders R t) i h)"
      using u sf assms(6) same_file_uses [OF sf, of "comp_queue (fs_db s)" "holders R t" i]
      by (simp add: same_file_def uses_def)
  qed (use fdb_invD(3,7) [OF o(1)] in auto)
  then show "fdb_inv 0 (holders R t) (fs_db s')" using assms(7) by (simp add: put_file_def)
  have ids: "desc_ids (fs_db s') a = (if a = i then next_desc s # desc_ids (fs_db s) i else desc_ids (fs_db s) a)" for a
    using assms(2,5,6,7) sf by (simp add: desc_ids_def same_file_def)
  have new: "next_desc s \<notin> set (desc_ids (fs_db s) a)" for a
    using o(2) unfolding descs_ok_def by blast
  have ids_cases: "x = next_desc s \<and> a = i \<or> x \<in> set (desc_ids (fs_db s) a)"
    if "x \<in> set (desc_ids (fs_db s') a)" for a x using that ids by (auto split: if_split_asm)
  show "descs_ok (next_desc s') (desc_ids (fs_db s'))"
    unfolding descs_ok_def
  proof (intro conjI allI impI)
    show "distinct (desc_ids (fs_db s') a)" for a
      using ids [of a] new o(2) unfolding descs_ok_def by simp
    show "x < next_desc s'" if "x \<in> set (desc_ids (fs_db s') a)" for a x
      using ids_cases [OF that] o(2) assms(8) unfolding descs_ok_def by (auto simp: less_Suc_eq)
    show "a = b" if x: "x \<in> set (desc_ids (fs_db s') a)" "x \<in> set (desc_ids (fs_db s') b)" for a b x
      using ids_cases [OF x(1)] ids_cases [OF x(2)] new o(2) unfolding descs_ok_def by blast
  qed
  fix a x assume x: "files (fs_db s') a = Some x"
  show "work_ok t a x"
  proof (cases "a = i")
    case False
    then show ?thesis using x assms(7) o(3) by simp
  next
    case True
    have "work_ok t i f" by (rule o(3) [OF assms(2)])
    then show ?thesis
      using True x assms(3,4,6,7)
      by (auto simp: work_ok_def working_def settled_def split: worker.splits)
  qed
qed

lemma fs_ok_del_desc:
  assumes "fs_ok R t s" and "files (fs_db s) i = Some f" and "settled f g" and "d \<in> set (desc_ids (fs_db s) i)"
    and "h = g\<lparr>head := filter (\<lambda>y. d_id y \<noteq> d) (head g), accesses := accesses g - 1\<rparr>"
    and "fs_db s' = put_file i h (fs_db s)" and "env s' = env s"
  shows "fs_ok R t s'"
  unfolding fs_ok_def
proof (intro conjI allI impI)
  note o = fs_okD [OF assms(1)]
  have sf: "same_file f g" by (rule settled_same_file [OF assms(3)])
  show "\<exists>f. files (fs_db s') a = Some f \<and> filename f = p" if "(a, p) \<in> set R" for a p
    using o(4) [OF that] assms(2,5,6) sf by (auto simp: same_file_def)
  show "modules_keep (fs_cfg s')" using o(5) assms(7) modules_keep_cong [of "fs_cfg s'" "fs_cfg s"] by simp
  have ids: "map d_id (head g) = desc_ids (fs_db s) i"
    using assms(2) sf by (simp add: desc_ids_def same_file_def)
  have dist: "distinct (desc_ids (fs_db s) i)" using o(2) by (simp add: descs_ok_def)
  have flt: "map d_id (head h) = filter (\<lambda>x. x \<noteq> d) (desc_ids (fs_db s) i)"
    using assms(5) by (simp add: ids [symmetric] filter_map o_def)
  have "length (head h) = length (remove1 d (desc_ids (fs_db s) i))"
    using arg_cong [OF flt, of length] dist by (simp add: distinct_remove1_removeAll removeAll_filter_not_eq neq_commute)
  also have "\<dots> = length (head g) - 1" using assms(4) arg_cong [OF ids, of length] by (simp add: length_remove1)
  finally have len: "length (head h) = length (head g) - 1" .
  have pos: "length (head g) > 0" using assms(4) ids by (cases "head g") auto
  have "accesses g = int (uses (comp_queue (fs_db s)) (holders R t) i g)"
    using fdb_inv_uses [OF o(1) assms(2)] sf same_file_uses [OF sf] by (simp add: same_file_def)
  then have acc: "accesses h = int (uses (comp_queue (fs_db s)) (holders R t) i h)"
  proof -
    have "int (length (head h)) = int (length (head g)) - 1" using len pos by linarith
    then show ?thesis using assms(5) \<open>accesses g = _\<close> by (simp add: uses_def)
  qed
  have "fdb_inv 0 (holders R t) ((put_file i h (fs_db s))\<lparr>comp_queue := comp_queue (fs_db s), comp_entries := comp_entries (fs_db s)\<rparr>)"
    by (rule fdb_inv_count [OF o(1) assms(2)])
      (use sf assms(5) acc fdb_invD(3,7) [OF o(1)] in \<open>auto simp: same_file_def\<close>)
  then show "fdb_inv 0 (holders R t) (fs_db s')" using assms(6) by (simp add: put_file_def)
  have ids': "desc_ids (fs_db s') a = (if a = i then filter (\<lambda>x. x \<noteq> d) (desc_ids (fs_db s) i) else desc_ids (fs_db s) a)" for a
    using assms(6) flt by (simp add: desc_ids_def)
  have sub: "set (desc_ids (fs_db s') a) \<subseteq> set (desc_ids (fs_db s) a)" "distinct (desc_ids (fs_db s') a)" for a
    using ids' [of a] o(2) by (auto simp: descs_ok_def)
  show "descs_ok (next_desc s') (desc_ids (fs_db s'))"
  proof -
    have "next_desc s' = next_desc s" using assms(7) by simp
    then show ?thesis using o(2) sub unfolding descs_ok_def by (metis subsetD)
  qed
  have w: "working t \<noteq> Some i"
    by (rule not_working [OF assms(1,2)]) (use pos sf in \<open>auto simp: same_file_def\<close>)
  fix a x assume x: "files (fs_db s') a = Some x"
  show "work_ok t a x"
  proof (cases "a = i")
    case False
    then show ?thesis using x assms(6) o(3) by simp
  next
    case True
    have "work_ok t i f" by (rule o(3) [OF assms(2)])
    then show ?thesis
      using True x assms(3,5,6) w
      by (auto simp: work_ok_def working_def settled_def split: worker.splits)
  qed
qed

lemma fs_ok_held [simp]: "fs_ok R t (s\<lparr>held := h\<rparr>) = fs_ok R t s" "fs_ok R t (s\<lparr>wd := w\<rparr>) = fs_ok R t s"
  by (simp_all add: fs_ok_def)

lemma open_descriptor_ok:
  assumes "fs_ok R t s" and "files (fs_db s) i = Some f" and "working t \<noteq> Some i" and "settled f g"
    and "fs_db s1 = fs_db s" and "env s1 = env s"
    and "open_descriptor i g fd s1 = Some (r, s')"
  shows "fs_ok R t s'"
proof -
  obtain res st w where fs: "sys_fstat fd no_stat (wd s1) = ((res, st), w)" by (metis prod.collapse)
  define g1 where "g1 = (if S_ISREG (st_mode st) \<and> st_nlink st > 1 then g\<lparr>dontcompress := True\<rparr> else g)"
  define d where "d = \<lparr>d_id = next_desc s1, d_fd = fd, d_flags = {}, d_handle = None, d_offset = 0\<rparr>"
  have g1: "settled f g1" "head g1 = head g" "accesses g1 = accesses g" using assms(4) by (simp_all add: g1_def)
  consider (failed) k where "fs_db s' = put_file i k (fs_db s1)" "settled f k" "env s' = env s1"
    | (opened) c sz where "fs_db s' = put_file i (g1\<lparr>fcompressor := c, accesses := accesses g1 + 1, fsize := sz,
        head := d # head g1\<rparr>) (fs_db s1)" "env s' = (next_desc s1 + 1, compressors (fs_cfg s1))"
  proof (cases "res = -1")
    case True
    then have "fs_db s' = put_file i g (fs_db s1)" "env s' = env s1"
      using assms(7) fs by (auto simp: open_descriptor_def)
    then show ?thesis using failed assms(4) by blast
  next
    case False
    let ?X = "if st_size st \<ge> int sizeof_header
          then file_read_header_fd (fs_cfg s1) fd (fcompressor g1) (st_size st) w
          else Some (0, None, st_size st, w)"
    have "?X \<noteq> None"
    proof
      assume "?X = None"
      then have "open_descriptor i g fd s1 = None"
        using fs False by (auto simp: open_descriptor_def Let_def g1_def split: if_split_asm)
      then show False using assms(7) by simp
    qed
    then obtain rs c sz w1 where h: "?X = Some (rs, c, sz, w1)" by (metis not_Some_eq prod_cases4)
    have run: "open_descriptor i g fd s1 =
      (if rs = FAIL then Some (Err EIO, put_entry i (g1\<lparr>fcompressor := c\<rparr>) (s1\<lparr>wd := w1, held := insert i (held s1)\<rparr>))
       else Some (Ok (next_desc s1), put_entry i (g1\<lparr>fcompressor := c, accesses := accesses g1 + 1, fsize := sz,
         head := d # head g1\<rparr>) (s1\<lparr>wd := w1, next_desc := next_desc s1 + 1\<rparr>)))"
      using fs False h by (auto simp: open_descriptor_def Let_def d_def g1_def split: if_split_asm)
    show ?thesis using assms(7) failed [of "g1\<lparr>fcompressor := c\<rparr>"] opened g1(1)
      unfolding run by (cases "rs = FAIL") auto
  qed
  then show ?thesis
  proof cases
    case (failed k)
    then show ?thesis using fs_ok_put [OF assms(1,2) failed(2) disjI2 [OF assms(3)]] assms(5,6) by simp
  next
    case (opened c sz)
    define h where "h = (g1\<lparr>fcompressor := c\<rparr>)\<lparr>accesses := accesses (g1\<lparr>fcompressor := c\<rparr>) + 1, fsize := sz,
        head := d # head (g1\<lparr>fcompressor := c\<rparr>)\<rparr>"
    have "fs_db s' = put_file i h (fs_db s)" "env s' = (next_desc s + 1, compressors (fs_cfg s))" "d_id d = next_desc s"
      using opened assms(5,6) by (simp_all add: h_def d_def)
    moreover have "settled f (g1\<lparr>fcompressor := c\<rparr>)" using g1(1) by simp
    ultimately show ?thesis using fs_ok_add_desc [OF assms(1,2,3) _ _ h_def] by blast
  qed
qed

lemma undedup_entry_spec:
  assumes "undedup_entry flags f s = Some (r, g, s')"
  shows "settled f g \<and> fs_db s' = fs_db s \<and> env s' = env s \<and> fs_cfg s' = fs_cfg s"
  using assms settled_undedup by (auto simp: undedup_entry_def bind_eq_Some_conv split: if_split_asm)

lemma fusecompress_open_ok:
  assumes "fs_ok R t s" and "path_ok path" and "fusecompress_open path flags s = Some (r, s')"
  shows "fs_ok R t s'"
proof -
  obtain full where full: "fusecompress_getpath path = Some full"
    using assms(3) by (auto simp: fusecompress_open_def bind_eq_Some_conv)
  have "with_entry full True (fuse_open_entry full flags) s = Some (r, s')"
    using assms(3) full by (simp add: fusecompress_open_def)
  with assms(1) path_okD [OF assms(2) full] show ?thesis
  proof (cases rule: with_entry_cases)
    case (act i f s1)
    have nw: "working t \<noteq> Some i" using not_working [OF act(1,2)] act(5) by simp
    obtain x g s2 where u: "undedup_entry (open_flags flags) f s1 = Some (x, g, s2)"
      using act(7) by (auto simp: fuse_open_entry_def bind_eq_Some_conv Let_def)
    note us = undedup_entry_spec [OF u]
    obtain fd w where o: "file_open full (open_flags flags) (wd s2) = (fd, w)" by fastforce
    show ?thesis
    proof (cases "x = FAIL \<or> fd = FAIL")
      case True
      then have "fs_db s' = put_file i g (fs_db s1)" "env s' = env s1"
        using act(7) u o us by (auto simp: fuse_open_entry_def Let_def split: if_split_asm)
      then show ?thesis using fs_ok_put [OF act(1,2) _ disjI2 [OF nw]] us by blast
    next
      case False
      then have "open_descriptor i g fd (s2\<lparr>wd := w\<rparr>) = Some (r, s')"
        using act(7) u o by (auto simp: fuse_open_entry_def Let_def)
      then show ?thesis using open_descriptor_ok [OF act(1,2) nw, of g "s2\<lparr>wd := w\<rparr>"] us by simp
    qed
  qed
qed

text \<open>A descriptor leads to the file that has it.\<close>

lemma find_desc_Some: "find_desc d f = Some x \<Longrightarrow> x \<in> set (head f) \<and> d_id x = d"
  by (auto simp: find_desc_def find_Some_iff)

lemma with_desc_cases:
  assumes "fs_ok R t s" and "with_desc d act s = Some (r, s')"
  obtains (act) i f x where "files (fs_db s) i = Some f" "find_desc d f = Some x" "d \<in> set (desc_ids (fs_db s) i)"
      "working t \<noteq> Some i" "i \<notin> held s" "act i f x s = Some (r, s')"
    | (no) "r = Hangs" "s' = s"
proof -
  obtain i f x where f: "files (fs_db s) i = Some f" "find_desc d f = Some x"
    and run: "(if i \<in> held s then Some (Hangs, s) else act i f x s) = Some (r, s')"
    using assms(2) by (auto simp: with_desc_def bind_eq_Some_conv)
  have h: "x \<in> set (head f)" "d_id x = d" using find_desc_Some [OF f(2)] by simp_all
  then have "d \<in> set (desc_ids (fs_db s) i)" using f(1) by (auto simp: desc_ids_def)
  moreover have "working t \<noteq> Some i" by (rule not_working [OF assms(1) f(1)]) (use h in auto)
  ultimately show ?thesis using that f run by (auto split: if_split_asm)
qed

lemma fusecompress_read_ok:
  assumes "fs_ok R t s" and "fusecompress_read d n offset s = Some (r, s')"
  shows "fs_ok R t s'"
  using assms(1) assms(2) [unfolded fusecompress_read_def]
proof (cases rule: with_desc_cases)
  case (act i f x)
  show ?thesis by (rule entry_step_ok [OF assms(1) act(1,4) read_desc_step [OF act(6)]])
qed (use assms(1) in simp)

lemma fusecompress_write_ok:
  assumes "fs_ok R t s" and "fusecompress_write d buf offset s = Some (r, s')"
  shows "fs_ok R t s'"
  using assms(1) assms(2) [unfolded fusecompress_write_def]
proof (cases rule: with_desc_cases)
  case (act i f x)
  show ?thesis by (rule entry_step_ok [OF assms(1) act(1,4) write_desc_step [OF act(6)]])
qed (use assms(1) in simp)

lemma release_desc_result:
  assumes "release_desc i f x s = Some (r, s')"
  shows "\<exists>g. settled f g \<and> env s' = env s \<and>
    fs_db s' = put_file i (g\<lparr>head := filter (\<lambda>z. d_id z \<noteq> d_id x) (head g), accesses := accesses g - 1\<rparr>) (fs_db s)"
proof -
  obtain g y w where c: "(if fcompressor f \<noteq> None
        then do { (_, f, x, w) \<leftarrow> direct_close (fs_cfg s) f x (wd s); Some (f, x, w) }
        else Some (f, x, wd s)) = Some (g, y, w)"
    using assms by (auto simp: release_desc_def bind_eq_Some_conv)
  have "settled f g" "d_id y = d_id x"
    using c settled_direct_close by (auto simp: bind_eq_Some_conv split: if_split_asm)
  then show ?thesis using assms c by (auto simp: release_desc_def bind_eq_Some_conv)
qed

lemma fusecompress_release_ok:
  assumes "fs_ok R t s" and "fusecompress_release d s = Some (r, s')"
  shows "fs_ok R t s'"
  using assms(1) assms(2) [unfolded fusecompress_release_def]
proof (cases rule: with_desc_cases)
  case (act i f x)
  obtain g where g: "settled f g" "env s' = env s"
    "fs_db s' = put_file i (g\<lparr>head := filter (\<lambda>z. d_id z \<noteq> d) (head g), accesses := accesses g - 1\<rparr>) (fs_db s)"
    using release_desc_result [OF act(6)] find_desc_Some [OF act(2)] by auto
  show ?thesis by (rule fs_ok_del_desc [OF assms(1) act(1) g(1) act(3) refl g(3,2)])
qed (use assms(1) in simp)

section \<open>What a descriptor leads to\<close>

lemma desc_file_iff:
  assumes "fdb_inv 0 H db" and "descs_ok n (desc_ids db)"
  shows "desc_file d db = Some i \<longleftrightarrow> (\<exists>f. files db i = Some f \<and> d \<in> d_id ` set (head f))"
proof -
  let ?P = "\<lambda>i. file_is (\<lambda>f. find_desc d f \<noteq> None) db i"
  have P: "?P i \<longleftrightarrow> (\<exists>f. files db i = Some f \<and> d \<in> d_id ` set (head f))" for i
    by (auto simp: file_is_def find_desc_def find_None_iff split: option.splits)
  have D: "?P i \<longleftrightarrow> d \<in> set (desc_ids db i)" for i
    unfolding P by (cases "files db i") (auto simp: desc_ids_def)
  have uniq: "i = j" if "?P i" "?P j" for i j
    using that assms(2) unfolding D descs_ok_def by blast
  have low: "i < next_fid db" if "?P i" for i
    using that fdb_invD(5) [OF assms(1)] unfolding P by blast
  have "desc_file d db = Some i \<longleftrightarrow> ?P i"
  proof
    assume "desc_file d db = Some i"
    then show "?P i" by (auto simp: desc_file_def find_Some_iff)
  next
    assume i: "?P i"
    then have "desc_file d db \<noteq> None" using low by (auto simp: desc_file_def find_None_iff)
    then obtain j where j: "desc_file d db = Some j" by blast
    then have "?P j" by (auto simp: desc_file_def find_Some_iff)
    then show "desc_file d db = Some i" using uniq [OF i] j by simp
  qed
  then show ?thesis using P by simp
qed

lemma desc_file_ids:
  assumes "fs_ok R t s"
  shows "desc_file d (fs_db s) = Some i \<longleftrightarrow> d \<in> set (desc_ids (fs_db s) i)"
  unfolding desc_file_iff [OF fs_okD(1,2) [OF assms]]
  by (cases "files (fs_db s) i") (auto simp: desc_ids_def)

lemma open_descriptor_result:
  assumes "open_descriptor i g fd s = Some (Ok d, s')"
  shows "d = next_desc s \<and> (\<exists>h. fs_db s' = put_file i h (fs_db s) \<and> filename h = filename g \<and> d \<in> d_id ` set (head h))"
  using assms
  by (auto simp: open_descriptor_def bind_eq_Some_conv Let_def split_beta split: if_split_asm)

lemma fusecompress_open_result:
  assumes "fs_ok R t s" and "path_ok path" and "fusecompress_open path flags s = Some (Ok d, s')"
  shows "\<exists>i f. d = next_desc s \<and> files (fs_db s') i = Some f \<and> d \<in> d_id ` set (head f) \<and>
    fusecompress_getpath path = Some (filename f)"
proof -
  obtain full where full: "fusecompress_getpath path = Some full"
    using assms(3) by (auto simp: fusecompress_open_def bind_eq_Some_conv)
  have "with_entry full True (fuse_open_entry full flags) s = Some (Ok d, s')"
    using assms(3) full by (simp add: fusecompress_open_def)
  with assms(1) path_okD [OF assms(2) full] show ?thesis
  proof (cases rule: with_entry_cases)
    case (act i f s1)
    obtain x g s2 where u: "undedup_entry (open_flags flags) f s1 = Some (x, g, s2)"
      using act(7) by (auto simp: fuse_open_entry_def bind_eq_Some_conv Let_def)
    obtain fd w where o: "file_open full (open_flags flags) (wd s2) = (fd, w)" by fastforce
    have "open_descriptor i g fd (s2\<lparr>wd := w\<rparr>) = Some (Ok d, s')"
      using act(7) u o by (auto simp: fuse_open_entry_def Let_def split: if_split_asm)
    then have "d = next_desc s2 \<and> (\<exists>h. fs_db s' = put_file i h (fs_db s2) \<and> filename h = filename g \<and> d \<in> d_id ` set (head h))"
      using open_descriptor_result by fastforce
    moreover have "filename g = filename f" "next_desc s2 = next_desc s"
      using undedup_entry_spec [OF u] act(6) by (auto simp: settled_def same_file_def)
    ultimately show ?thesis using act(3) full by auto
  qed simp
qed

lemma fusecompress_release_result:
  assumes "fs_ok R t s" and "fusecompress_release d s = Some (Ok r, s')"
  shows "desc_file d (fs_db s') = None"
proof (rule ccontr)
  assume "desc_file d (fs_db s') \<noteq> None"
  note ok' = fusecompress_release_ok [OF assms]
  obtain a k where a: "files (fs_db s') a = Some k" "d \<in> d_id ` set (head k)"
    using \<open>desc_file d (fs_db s') \<noteq> None\<close> desc_file_iff [OF fs_okD(1,2) [OF ok']] by blast
  show False using assms(1) assms(2) [unfolded fusecompress_release_def]
  proof (cases rule: with_desc_cases)
    case (act i f x)
    obtain g where g: "files (fs_db s') = (files (fs_db s))(i \<mapsto> g)" "d \<notin> d_id ` set (head g)"
      using release_desc_result [OF act(6)] find_desc_Some [OF act(2)] by fastforce
    then have "a \<noteq> i" "files (fs_db s) a = Some k" using a by (auto split: if_split_asm)
    then have "d \<in> set (desc_ids (fs_db s) a)" using a(2) by (auto simp: desc_ids_def)
    then show False using act(3) fs_okD(2) [OF assms(1)] \<open>a \<noteq> i\<close> unfolding descs_ok_def by blast
  qed simp
qed

section \<open>Renaming\<close>

text \<open>A file that a rename holds has another user, so the thread is not working on it.\<close>

lemma rename_not_working:
  assumes "fs_ok R t s" and "(i, p) \<in> set R"
  shows "working t \<noteq> Some i"
proof
  assume w: "working t = Some i"
  obtain f where f: "files (fs_db s) i = Some f" using fs_okD(4) [OF assms] by blast
  have "filter (\<lambda>e. fst e = i) R \<noteq> []" using assms(2) by (force simp: filter_empty_conv)
  then have "length (filter (\<lambda>e. fst e = i) R) \<ge> 1" by (simp add: Suc_leI)
  then have "2 \<le> holders R t i" using working_taken [OF w] by (simp add: holders_def)
  then have "accesses f \<ge> 2"
    using fdb_inv_uses [OF fs_okD(1) [OF assms(1)] f] by (simp add: uses_def)
  then show False using fs_okD(3) [OF assms(1) f] w by (simp add: work_ok_def)
qed

lemma fdb_inv_holders:
  assumes "fdb_inv 0 H db" and "files db i = Some f" and "same_file f g"
    and "int (H' i) = int (H i) + k" and "\<And>j. j \<noteq> i \<Longrightarrow> H' j = H j"
  shows "fdb_inv 0 H' (put_file i (g\<lparr>accesses := accesses g + k\<rparr>) db)"
proof -
  let ?h = "g\<lparr>accesses := accesses g + k\<rparr>"
  have "uses (comp_queue db) H' i ?h = length (head g) + queued (comp_queue db) i + H' i"
    by (simp add: uses_def)
  moreover have "accesses g = int (length (head g) + queued (comp_queue db) i + H i)"
    using fdb_inv_uses [OF assms(1,2)] same_file_uses [OF assms(3)] assms(3) by (simp add: same_file_def uses_def)
  ultimately have "accesses ?h = int (uses (comp_queue db) H' i ?h)" using assms(4) by simp
  then have "fdb_inv 0 H' ((put_file i ?h db)\<lparr>comp_queue := comp_queue db, comp_entries := comp_entries db\<rparr>)"
    by (intro fdb_inv_count [OF assms(1,2)])
      (use assms(3,5) fdb_invD(3,7) [OF assms(1)] in \<open>auto simp: same_file_def\<close>)
  then show ?thesis by (simp add: put_file_def)
qed

lemma fs_ok_hold:
  assumes "fs_ok R t s" and "files (fs_db s) i = Some f" and "working t \<noteq> Some i"
  shows "fs_ok ((i, filename f) # R) t (put_entry i (f\<lparr>accesses := accesses f + 1\<rparr>) s)"
  unfolding fs_ok_def
proof (intro conjI allI impI)
  note o = fs_okD [OF assms(1)]
  let ?s = "put_entry i (f\<lparr>accesses := accesses f + 1\<rparr>) s"
  show "fdb_inv 0 (holders ((i, filename f) # R) t) (fs_db ?s)"
    using fdb_inv_holders [OF o(1) assms(2) same_file_refl, of "holders ((i, filename f) # R) t" 1]
    by (simp add: holders_def)
  have "desc_ids (fs_db ?s) = desc_ids (fs_db s)" using assms(2) by (auto simp: desc_ids_def fun_eq_iff)
  then show "descs_ok (next_desc ?s) (desc_ids (fs_db ?s))" using o(2) by simp
  show "modules_keep (fs_cfg ?s)" using o(5) by simp
  show "\<exists>g. files (fs_db ?s) a = Some g \<and> filename g = p" if "(a, p) \<in> set ((i, filename f) # R)" for a p
    using that o(4) [of a p] assms(2) by (cases "a = i") auto
  show "work_ok t a g" if "files (fs_db ?s) a = Some g" for a g
    using that o(3) [of a] assms(2,3) by (cases "a = i") (auto simp: work_ok_def)
qed

lemma length_filter_remove1:
  "e \<in> set R \<Longrightarrow> length (filter P (remove1 e R)) + (if P e then 1 else 0) = length (filter P R)"
  by (induction R) auto

lemma fs_ok_unhold:
  assumes "fs_ok R t s" and "(i, p) \<in> set R" and "files (fs_db s) i = Some f"
  shows "fs_ok (remove1 (i, p) R) t (put_entry i (f\<lparr>accesses := accesses f - 1\<rparr>) s)"
  unfolding fs_ok_def
proof (intro conjI allI impI)
  note o = fs_okD [OF assms(1)]
  let ?s = "put_entry i (f\<lparr>accesses := accesses f - 1\<rparr>) s"
  have "int (holders (remove1 (i, p) R) t i) = int (holders R t i) + - 1"
    using length_filter_remove1 [OF assms(2), of "\<lambda>e. fst e = i"] by (simp add: holders_def)
  moreover have "holders (remove1 (i, p) R) t j = holders R t j" if "j \<noteq> i" for j
    using length_filter_remove1 [OF assms(2), of "\<lambda>e. fst e = j"] that by (simp add: holders_def)
  ultimately show "fdb_inv 0 (holders (remove1 (i, p) R) t) (fs_db ?s)"
    using fdb_inv_holders [OF o(1) assms(3) same_file_refl, of "holders (remove1 (i, p) R) t" "- 1"] by simp
  have "desc_ids (fs_db ?s) = desc_ids (fs_db s)" using assms(3) by (auto simp: desc_ids_def fun_eq_iff)
  then show "descs_ok (next_desc ?s) (desc_ids (fs_db ?s))" using o(2) by simp
  show "modules_keep (fs_cfg ?s)" using o(5) by simp
  show "\<exists>g. files (fs_db ?s) a = Some g \<and> filename g = q" if "(a, q) \<in> set (remove1 (i, p) R)" for a q
    using o(4) [of a q] that assms(3) set_remove1_subset [of "(i, p)" R] by (cases "a = i") auto
  show "work_ok t a g" if "files (fs_db ?s) a = Some g" for a g
    using that o(3) [of a] assms(3) rename_not_working [OF assms(1,2)] by (cases "a = i") (auto simp: work_ok_def)
qed

lemma hold_entry_ok:
  assumes "fs_ok R t s" and "path_ok path" and "hold_entry path s = Some (r, s')"
  shows "case r of
      Ok i \<Rightarrow> \<exists>full. fusecompress_getpath path = Some full \<and> fs_ok ((i, full) # R) t s'
    | _ \<Rightarrow> fs_ok R t s'"
proof -
  obtain full where full: "fusecompress_getpath path = Some full"
    using assms(3) by (auto simp: hold_entry_def bind_eq_Some_conv)
  have "with_entry full True (\<lambda>i f s. Some (Ok i, put_entry i (f\<lparr>accesses := accesses f + 1\<rparr>) s)) s = Some (r, s')"
    using assms(3) full by (simp add: hold_entry_def)
  with assms(1) path_okD [OF assms(2) full] show ?thesis
  proof (cases rule: with_entry_cases)
    case (act i f s1)
    have "working t \<noteq> Some i" using not_working [OF act(1,2)] act(5) by simp
    from fs_ok_hold [OF act(1,2) this] show ?thesis using act(3,7) full by auto
  next
    case no
    then show ?thesis by (cases r) auto
  qed
qed

lemma dedup_rename_same: "dedup_rename f g db = Some (h, db') \<Longrightarrow> settled g h \<and> status h = status g"
  by (auto simp: dedup_rename_def dedup_discard_def bind_eq_Some_conv Let_def split: if_split_asm)

text \<open>Two entries change places: the descriptors and busy flags of the first go to the second.\<close>

lemma direct_rename_ok:
  assumes "fs_ok R t s" and "i \<noteq> j" and "working t \<noteq> Some i" and "working t \<noteq> Some j"
    and "files (fs_db s) i = Some f" and "files (fs_db s) j = Some g" and "i \<notin> fst ` set R"
    and "direct_rename i j (fs_db s) w = Some (db', w')"
  shows "fs_ok R t (s\<lparr>fs_db := db', wd := w'\<rparr>)"
proof -
  note o = fs_okD [OF assms(1)]
  have "filter (\<lambda>e. fst e = i) R = []" using assms(7) by (force simp: filter_empty_conv)
  then have h1: "holders R t i \<le> 1" by (simp add: holders_def)
  obtain db1 w1 f' g' where r: "direct_rename i j (fs_db s) w = Some (db1, w1)" "fdb_inv 0 (holders R t) db1"
    "files db1 = (files (fs_db s))(i \<mapsto> f', j \<mapsto> g')"
    "head f' = []" "head g' = rev (head f) @ head g" "filename f' = filename f" "filename g' = filename g"
    "status g' = status f"
    using direct_rename_spec [OF o(1) assms(2,5,6) h1, of w] by blast
  have db: "db1 = db'" using r(1) assms(8) by simp
  have st: "status f' = status f"
  proof -
    obtain g0 w0 where fl: "flush_file_cache g w = (g0, w0)" by fastforce
    let ?to = "g0\<lparr>fsize := fsize f, fcompressor := fcompressor f,
                 dontcompress := dontcompress f, ftype := ftype f, status := status f\<rparr>"
    obtain f1 g1 where m: "move_descriptors (head f) f ?to = (f1, g1)" by fastforce
    obtain q f2 g2 where q: "retarget i j (comp_queue (fs_db s)) f1 g1 = (q, f2, g2)" by (metis prod_cases3)
    have "status f2 = status f" using m q by (auto simp: move_descriptors_eq retarget_eq)
    moreover have "files db' i = Some (direct_delete f2)"
      using assms(2,5,6,8) fl m q by (auto simp: direct_rename_def Let_def bind_eq_Some_conv)
    ultimately show ?thesis using r(3) db assms(2) by (simp add: direct_delete_def)
  qed
  have ids: "desc_ids db' a = (if a = i then [] else if a = j
      then rev (desc_ids (fs_db s) i) @ desc_ids (fs_db s) j else desc_ids (fs_db s) a)" for a
    using r(3,4,5) db assms(2,5,6) by (simp add: desc_ids_def rev_map)
  have "descs_ok (next_desc s) (desc_ids db')"
    unfolding descs_ok_def
  proof (intro conjI allI impI)
    have dj: "set (desc_ids (fs_db s) i) \<inter> set (desc_ids (fs_db s) j) = {}"
      using o(2) assms(2) unfolding descs_ok_def by blast
    show "distinct (desc_ids db' a)" for a
      using ids [of a] dj o(2) unfolding descs_ok_def by auto
    show "x < next_desc s" if "x \<in> set (desc_ids db' a)" for a x
      using ids [of a] that o(2) unfolding descs_ok_def by (auto split: if_split_asm)
    have src: "x \<in> set (desc_ids (fs_db s) a) \<and> a \<noteq> i \<or> a = j \<and> x \<in> set (desc_ids (fs_db s) i)"
      if "x \<in> set (desc_ids db' a)" for a x using ids [of a] that assms(2) by (auto split: if_split_asm)
    show "a = b" if "x \<in> set (desc_ids db' a)" "x \<in> set (desc_ids db' b)" for a b x
      using src [OF that(1)] src [OF that(2)] o(2) unfolding descs_ok_def by blast
  qed
  moreover have "\<exists>h. files db' a = Some h \<and> filename h = p" if "(a, p) \<in> set R" for a p
    using o(4) [OF that] r(3,6,7) db assms(5,6) by (auto split: if_split_asm)
  moreover have "work_ok t a h" if "files db' a = Some h" for a h
  proof -
    have "work_ok t i f" "work_ok t j g" by (rule o(3) [OF assms(5)], rule o(3) [OF assms(6)])
    then have "work_ok t i f'" "work_ok t j g'"
      using st r(8) assms(3,4) by (auto simp: work_ok_def working_def split: worker.splits)
    then show ?thesis using that r(3) db o(3) by (auto split: if_split_asm)
  qed
  ultimately show ?thesis using r(2) db o(5) by (simp add: fs_ok_def)
qed

text \<open>What \<open>rename_entries\<close> does, in the order of its parts.\<close>

lemma rename_entries_cases:
  assumes "fs_ok R t s" and "(i, a) \<in> set R" and "(j, b) \<in> set (remove1 (i, a) R)" and "i \<noteq> j"
    and "files (fs_db s) i = Some f" and "files (fs_db s) j = Some g"
    and "rename_entries full_from full_to i j s = Some (r, s')"
  obtains (failed) s2 w e where "fs_ok (remove1 (j, b) (remove1 (i, a) R)) t s2" "r = Err e" "s' = s2\<lparr>wd := w\<rparr>"
    | (renamed) s3 f3 g3 db w where "fs_ok (remove1 (j, b) (remove1 (i, a) R)) t s3"
      "files (fs_db s3) = (files (fs_db s))(i \<mapsto> f3, j \<mapsto> g3)" "comp_queue (fs_db s3) = comp_queue (fs_db s)"
      "head f3 = head f" "map d_id (head g3) = map d_id (head g)"
      "direct_rename i j (fs_db s3) (wd s3) = Some (db, w)" "r = Ok ()" "s' = s3\<lparr>fs_db := db, wd := w\<rparr>"
proof -
  let ?R1 = "remove1 (i, a) R"
  let ?R2 = "remove1 (j, b) ?R1"
  let ?f = "f\<lparr>accesses := accesses f - 1\<rparr>" and ?g = "g\<lparr>accesses := accesses g - 1\<rparr>"
  define s1 where "s1 = put_entry i ?f s"
  have ok1: "fs_ok ?R1 t s1" unfolding s1_def by (rule fs_ok_unhold [OF assms(1,2,5)])
  have g: "files (fs_db s1) j = Some g" using assms(4,6) by (simp add: s1_def)
  define s2 where "s2 = put_entry j ?g s1"
  have ok2: "fs_ok ?R2 t s2" unfolding s2_def by (rule fs_ok_unhold [OF ok1 assms(3) g])
  have fg: "files (fs_db s2) = (files (fs_db s))(i \<mapsto> ?f, j \<mapsto> ?g)" "comp_queue (fs_db s2) = comp_queue (fs_db s)"
    by (simp_all add: s1_def s2_def)
  obtain res w where sys: "(if dedup_enabled (fs_cfg s2) then dedup_sys_rename full_from full_to (wd s2)
                     else sys_rename full_from full_to (wd s2)) = (res, w)" by fastforce
  have run: "(if res = 0 then do {
       f \<leftarrow> files (fs_db s2) i;
       g \<leftarrow> files (fs_db s2) j;
       s \<leftarrow> (if dedup_enabled (fs_cfg s2)
             then do { (g, ddb) \<leftarrow> dedup_rename f g (fs_ddb s2); Some (put_entry j g (s2\<lparr>wd := w, fs_ddb := ddb\<rparr>)) }
             else Some (s2\<lparr>wd := w\<rparr>));
       (db, w) \<leftarrow> direct_rename i j (fs_db s) (wd s);
       Some (Ok (), s\<lparr>fs_db := db, wd := w\<rparr>)
     }
     else Some (Err (errno w), s2\<lparr>wd := w\<rparr>)) = Some (r, s')"
    using assms(7) unfolding rename_entries_def assms(5) bind.bind_lunit Let_def s1_def [symmetric] g s2_def [symmetric] sys
    by (cases "res = 0"; cases "dedup_enabled (fs_cfg s2)"; simp)
  show ?thesis
  proof (cases "res = 0")
    case False
    then show ?thesis using run failed [OF ok2] by auto
  next
    case True
    obtain s3 db w3 where s3: "(if dedup_enabled (fs_cfg s2)
        then do { (g, ddb) \<leftarrow> dedup_rename ?f ?g (fs_ddb s2); Some (put_entry j g (s2\<lparr>wd := w, fs_ddb := ddb\<rparr>)) }
        else Some (s2\<lparr>wd := w\<rparr>)) = Some s3"
      and dr: "direct_rename i j (fs_db s3) (wd s3) = Some (db, w3)" "r = Ok ()" "s' = s3\<lparr>fs_db := db, wd := w3\<rparr>"
      using run True fg(1) assms(4) by (auto simp: bind_eq_Some_conv)
    show ?thesis
    proof (cases "dedup_enabled (fs_cfg s2)")
      case False
      then show ?thesis using s3 ok2 fg dr by (intro renamed [of s3 ?f ?g db w3]) auto
    next
      case True
      then obtain h ddb where h: "dedup_rename ?f ?g (fs_ddb s2) = Some (h, ddb)"
        "s3 = put_entry j h (s2\<lparr>wd := w, fs_ddb := ddb\<rparr>)"
        using s3 by (auto simp: bind_eq_Some_conv)
      have g2: "files (fs_db s2) j = Some ?g" using fg(1) by simp
      have same: "settled ?g h" "status h = status ?g" using dedup_rename_same [OF h(1)] by simp_all
      have "fs_ok ?R2 t s3"
        by (rule fs_ok_put [OF ok2 g2 same(1)]) (use same(2) h(2) in auto)
      moreover have "map d_id (head h) = map d_id (head g)"
        using settled_same_file [OF same(1)] by (simp add: same_file_def)
      ultimately show ?thesis using h(2) fg dr by (intro renamed [of s3 ?f h db w3]) auto
    qed
  qed
qed

lemma rename_entries_ok:
  assumes "fs_ok R t s" and "(i, a) \<in> set R" and "(j, b) \<in> set (remove1 (i, a) R)" and "i \<noteq> j"
    and "i \<notin> fst ` set (remove1 (j, b) (remove1 (i, a) R))"
    and "rename_entries full_from full_to i j s = Some (r, s')"
  shows "fs_ok (remove1 (j, b) (remove1 (i, a) R)) t s'"
proof -
  have jb: "(j, b) \<in> set R" by (rule subsetD [OF set_remove1_subset assms(3)])
  obtain f where f: "files (fs_db s) i = Some f" using fs_okD(4) [OF assms(1,2)] by auto
  obtain g where g: "files (fs_db s) j = Some g" using fs_okD(4) [OF assms(1) jb] by auto
  note nw = rename_not_working [OF assms(1,2)] rename_not_working [OF assms(1) jb]
  from assms(1-4) f g assms(6) show ?thesis
  proof (cases rule: rename_entries_cases)
    case (renamed s3 f3 g3 db w)
    show ?thesis
      unfolding renamed(8)
      by (rule direct_rename_ok [OF renamed(1) assms(4) nw _ _ assms(5) renamed(6)]) (use renamed(2) assms(4) in auto)
  qed simp
qed

text \<open>What a successful rename leaves.\<close>

lemma rename_entries_result:
  assumes "fs_ok R t s" and "(i, a) \<in> set R" and "(j, b) \<in> set (remove1 (i, a) R)" and "i \<noteq> j"
    and "i \<notin> fst ` set (remove1 (j, b) (remove1 (i, a) R))"
    and "rename_entries full_from full_to i j s = Some (Ok (), s')"
    and "files (fs_db s) i = Some f" and "files (fs_db s) j = Some g"
  shows "\<exists>f' g'. files (fs_db s') = (files (fs_db s))(i \<mapsto> f', j \<mapsto> g') \<and> head f' = [] \<and> deleted f' \<and>
    map d_id (head g') = rev (map d_id (head f)) @ map d_id (head g) \<and>
    comp_queue (fs_db s') = map (\<lambda>e. (if fst e = i then j else fst e, snd e)) (comp_queue (fs_db s))"
  using assms(1-4,7,8,6)
proof (cases rule: rename_entries_cases)
  case (renamed s3 f3 g3 db w)
  let ?R = "remove1 (j, b) (remove1 (i, a) R)"
  have "filter (\<lambda>e. fst e = i) ?R = []" using assms(5) by (force simp: filter_empty_conv)
  then have h1: "holders ?R t i \<le> 1" by (simp add: holders_def)
  have e: "files (fs_db s3) i = Some f3" "files (fs_db s3) j = Some g3" using renamed(2) assms(4) by simp_all
  obtain db1 w1 f' g' where r: "direct_rename i j (fs_db s3) (wd s3) = Some (db1, w1)"
    "files db1 = (files (fs_db s3))(i \<mapsto> f', j \<mapsto> g')"
    "comp_queue db1 = map (\<lambda>e. (if fst e = i then j else fst e, snd e)) (comp_queue (fs_db s3))"
    "head f' = []" "deleted f'" "head g' = rev (head f3) @ head g3"
    using direct_rename_spec [OF fs_okD(1) [OF renamed(1)] assms(4) e h1, of "wd s3"] by blast
  have "fs_db s' = db1" using r(1) renamed(6,8) by simp
  moreover have "files db1 = (files (fs_db s))(i \<mapsto> f', j \<mapsto> g')"
    using r(2) renamed(2) assms(4) by (simp add: fun_upd_twist)
  moreover have "map d_id (head g') = rev (map d_id (head f)) @ map d_id (head g)"
    using r(6) renamed(4,5) by (simp add: rev_map)
  ultimately show ?thesis using r(3-5) renamed(3) by auto
qed simp

end
