(* ===== verification/ThreadInv.thy ===== *)
theory ThreadInv
  imports FuseInv
begin

text \<open>
  The steps of the background thread keep the invariant \<open>fs_ok\<close>.
\<close>

section \<open>Flags\<close>

lemma compress_begin_status:
  assumes "do_compress_begin cfg f w = Some (j, g, w')"
  shows "status g = (if j = None then status f else insert COMPRESSING (status f))"
proof -
  obtain fd w1 where op: "file_open (filename f) {O_RDWR} w = (fd, w1)" by fastforce
  obtain r st w2 where fs: "sys_fstat fd no_stat w1 = ((r, st), w2)" by (metis prod.collapse)
  have start: "status g = (if j = None then status h else insert COMPRESSING (status h))"
    if "compress_start cfg h fd st c v = Some (j, g, w')" for h c v
    using that by (auto simp: compress_start_def bind_eq_Some_conv split: prod.split_asm option.split_asm if_split_asm)
  consider "fd = FAIL \<or> r = FAIL \<or> st_size st < min_filesize_background cfg"
    | (go) "fd \<noteq> FAIL" "r \<noteq> FAIL" "\<not> st_size st < min_filesize_background cfg" by blast
  then show ?thesis
  proof cases
    case 1
    then show ?thesis using assms op fs
      by (auto simp: do_compress_begin_def Let_def direct_delete_def split: if_split_asm)
  next
    case go
    then obtain stop f1 w3 where h:
      "(if st_size st \<ge> int sizeof_header then do {
          (res, c, s, w) \<leftarrow> file_read_header_fd cfg fd (fcompressor f) (fsize f) w2;
          let f = f\<lparr>fcompressor := c, fsize := s\<rparr>;
          if res = 0 \<and> c \<noteq> None then Some (True, f, w)
          else Some (False, f, snd (sys_lseek fd 0 SEEK_SET w))
        } else Some (False, f, w2)) = Some (stop, f1, w3)"
      and rest: "(if stop then Some (None, f1, compress_out fd FAIL None w3)
         else (case choose_compressor cfg (filename f1) of
             None \<Rightarrow> Some (None, f1, compress_out fd FAIL None w3)
           | Some c \<Rightarrow> compress_start cfg f1 fd st c w3)) = Some (j, g, w')"
      using assms op fs by (auto simp: do_compress_begin_def Let_def bind_eq_Some_conv)
    have "status f1 = status f" using h by (auto simp: bind_eq_Some_conv Let_def split: if_split_asm)
    then show ?thesis using rest start by (auto split: if_split_asm option.split_asm)
  qed
qed

lemma compress_end_status:
  assumes "do_compress_end cfg f db j w = Some (g, db', w')"
  shows "COMPRESSING \<notin> status g"
proof -
  obtain m sz f1 w1 where m: "module_of cfg (j_comp j) = Some m"
    "compress m f (j_fd j) (j_fd_temp j) w = Some (sz, f1, w1)"
    using assms by (auto simp: do_compress_end_def bind_eq_Some_conv)
  obtain c f2 w2 where tc: "compress_testcancel f1 w1 = ((c, f2), w2)" by (metis prod.collapse)
  let ?f3 = "f2\<lparr>status := status f2 - {COMPRESSING}\<rparr>"
  have "g = ?f3\<lparr>status := status ?f3 - {CANCEL}\<rparr> \<or>
      replace_compressed cfg ?f3 db (j_fd j) (j_fd_temp j) (j_temp j) (j_stat j) (j_comp j) sz w2 = Some (g, db', w')"
    using assms m tc by (auto simp: do_compress_end_def Let_def split: if_split_asm)
  then show ?thesis
  proof
    assume "replace_compressed cfg ?f3 db (j_fd j) (j_fd_temp j) (j_temp j) (j_stat j) (j_comp j) sz w2 = Some (g, db', w')"
    then have "settled ?f3 g" by (rule settled_replace_compressed)
    then show ?thesis by (auto simp: settled_def)
  qed auto
qed

section \<open>Taking, beginning and ending\<close>

lemma thread_take_ok:
  assumes "fs_ok R Waiting s" and "thread_take (fs_db s) = Some (t, db')"
  shows "fs_ok R t (s\<lparr>fs_db := db'\<rparr>) \<and> (\<exists>i b. t = Took i b)"
proof -
  note o = fs_okD [OF assms(1)]
  obtain i b q where q: "comp_queue (fs_db s) = (i, b) # q" "t = Took i b"
    "db' = (fs_db s)\<lparr>comp_queue := q, comp_entries := comp_entries (fs_db s) - 1\<rparr>"
    using assms(2) by (auto simp: thread_take_def split: list.split_asm)
  obtain f where f: "files (fs_db s) i = Some f"
    using fdb_invD(7) [OF o(1), of i b] q(1) by auto
  have [simp]: "put_file i f (fs_db s) = fs_db s" using f by (simp add: put_file_def fun_upd_idem)
  have "fdb_inv 0 (holders R t)
      ((put_file i f (fs_db s))\<lparr>comp_queue := q, comp_entries := comp_entries (fs_db s) - 1\<rparr>)"
  proof (rule fdb_inv_count [OF o(1) f])
    show "accesses f = int (uses q (holders R t) i f)"
      using fdb_inv_uses [OF o(1) f] q(1,2) by (simp add: uses_def holders_def taken_def working_def)
    show "queued q a + holders R t a = queued (comp_queue (fs_db s)) a + holders R Waiting a" if "a \<noteq> i" for a
      using that q(1,2) by (simp add: holders_def taken_def working_def)
    show "files (fs_db s) a \<noteq> None" if "(a, c) \<in> set q" for a c
      using fdb_invD(7) [OF o(1), of a c] that q(1) by auto
    show "comp_entries (fs_db s) - 1 = int (length q)" using fdb_invD(3) [OF o(1)] q(1) by simp
  qed simp_all
  then have inv: "fdb_inv 0 (holders R t) db'" using q(3) by simp
  have "files db' = files (fs_db s)" using q(3) by simp
  moreover from this have "desc_ids db' = desc_ids (fs_db s)" by (simp add: desc_ids_def fun_eq_iff)
  moreover have "work_ok t a g" if "work_ok Waiting a g" for a g
    using that q(2) by (auto simp: work_ok_def working_def)
  ultimately show ?thesis using inv o(2-5) q(2) by (auto simp: fs_ok_def)
qed

text \<open>The thread changes the entry it has, and goes on with it or is done with it.\<close>

lemma fs_ok_goes_on:
  assumes "fs_ok R (Took i b) s" and "files (fs_db s) i = Some f" and "same_file f g"
    and "taken t = Some i" and "work_ok t i g" and "fs_db s' = put_file i g (fs_db s)" and "env s' = env s"
  shows "fs_ok R t s'"
  unfolding fs_ok_def
proof (intro conjI allI impI)
  note o = fs_okD [OF assms(1)]
  have "holders R t = holders R (Took i b)" using assms(4) by (auto simp: holders_def taken_def)
  then show "fdb_inv 0 (holders R t) (fs_db s')" using fdb_inv_put [OF o(1) assms(2,3)] assms(6) by simp
  have "desc_ids (fs_db s') = desc_ids (fs_db s)"
    using assms(2,3,6) by (auto simp: desc_ids_def same_file_def fun_eq_iff)
  then show "descs_ok (next_desc s') (desc_ids (fs_db s'))" using o(2) assms(7) by simp
  show "modules_keep (fs_cfg s')" using o(5) assms(7) modules_keep_cong [of "fs_cfg s'" "fs_cfg s"] by simp
  show "\<exists>h. files (fs_db s') a = Some h \<and> filename h = p" if "(a, p) \<in> set R" for a p
    using o(4) [OF that] assms(2,3,6) by (auto simp: same_file_def)
  show "work_ok t a h" if "files (fs_db s') a = Some h" for a h
  proof (cases "a = i")
    case False
    then have "work_ok (Took i b) a h" using that assms(6) o(3) by simp
    then show ?thesis
      using False assms(4) by (auto simp: work_ok_def working_def taken_def split: worker.split_asm)
  qed (use that assms(5,6) in simp)
qed

lemma fs_ok_done:
  assumes "fs_ok R t s" and "files (fs_db s) i = Some f" and "taken t = Some i" and "same_file f g"
    and "COMPRESSING \<notin> status g" and "DECOMPRESSING \<notin> status g"
    and "fs_db s' = put_file i (g\<lparr>accesses := accesses g - 1\<rparr>) (fs_db s)" and "env s' = env s"
  shows "fs_ok R Waiting s'"
  unfolding fs_ok_def
proof (intro conjI allI impI)
  note o = fs_okD [OF assms(1)]
  show "fdb_inv 0 (holders R Waiting) (fs_db s')"
    using fdb_inv_holders [OF o(1) assms(2,4), of "holders R Waiting" "- 1"] assms(3,7)
    by (simp add: holders_def taken_def working_def)
  have "desc_ids (fs_db s') = desc_ids (fs_db s)"
    using assms(2,4,7) by (auto simp: desc_ids_def same_file_def fun_eq_iff)
  then show "descs_ok (next_desc s') (desc_ids (fs_db s'))" using o(2) assms(8) by simp
  show "modules_keep (fs_cfg s')" using o(5) assms(8) modules_keep_cong [of "fs_cfg s'" "fs_cfg s"] by simp
  show "\<exists>h. files (fs_db s') a = Some h \<and> filename h = p" if "(a, p) \<in> set R" for a p
    using o(4) [OF that] assms(2,4,7) by (auto simp: same_file_def)
  show "work_ok Waiting a h" if "files (fs_db s') a = Some h" for a h
  proof (cases "a = i")
    case True
    then show ?thesis using that assms(5-7) by (auto simp: work_ok_def working_def)
  next
    case False
    then have "work_ok t a h" using that assms(7) o(3) by simp
    moreover have "t \<noteq> Compressing a j" for j using False assms(3) by (auto simp: taken_def working_def)
    ultimately show ?thesis by (auto simp: work_ok_def working_def)
  qed
qed

lemma taken_used:
  assumes "fs_ok R t s" and "taken t = Some i" and "files (fs_db s) i = Some f"
  shows "0 < accesses f"
  using fdb_inv_uses [OF fs_okD(1) [OF assms(1)] assms(3)] taken_held [OF assms(2), of R] by (simp add: uses_def)

lemma thread_done_cases:
  assumes "thread_done cfg i b f ddb db w = Some (t, ddb', db', w')"
  shows "t = Waiting \<and> w' = w \<and>
    (\<exists>g. settled f g \<and> status g = status f \<and> db' = put_file i (g\<lparr>accesses := accesses g - 1\<rparr>) db)"
proof -
  obtain g where g: "(if \<not> b \<and> dedup_enabled cfg then dedup_discard f ddb else Some (f, ddb)) = Some (g, ddb')"
    "t = Waiting" "db' = put_file i (g\<lparr>accesses := accesses g - 1\<rparr>) db" "w' = w"
    using assms by (auto simp: thread_done_def bind_eq_Some_conv)
  have "settled f g" using g(1) settled_discard by (auto split: if_split_asm)
  moreover have "status g = status f" using g(1) by (auto simp: dedup_discard_def bind_eq_Some_conv split: if_split_asm)
  ultimately show ?thesis using g by blast
qed

lemma thread_begin_ok:
  assumes "fs_ok R (Took i b) s"
    and "thread_begin (fs_cfg s) i b (fs_ddb s) (fs_db s) (wd s) = Some (t, ddb', db', w')"
  shows "fs_ok R t (s\<lparr>fs_db := db', fs_ddb := ddb', wd := w'\<rparr>)"
proof -
  let ?s = "s\<lparr>fs_db := db', fs_ddb := ddb', wd := w'\<rparr>"
  have tk: "taken (Took i b) = Some i" by (simp add: taken_def)
  obtain f where f: "files (fs_db s) i = Some f" using assms(2) by (auto simp: thread_begin_def bind_eq_Some_conv)
  have wf: "work_ok (Took i b) i f" by (rule fs_okD(3) [OF assms(1) f])
  have flags: "COMPRESSING \<notin> status f" "DECOMPRESSING \<notin> status f" using wf by (auto simp: work_ok_def)
  have finished: "fs_ok R t ?s"
    if ends: "thread_done (fs_cfg s) i b g (fs_ddb s) (fs_db s) v = Some (t, ddb', db', w')" "same_file f g" "status g = status f" for g v
  proof -
    obtain h where h: "settled g h" "status h = status g" "db' = put_file i (h\<lparr>accesses := accesses h - 1\<rparr>) (fs_db s)"
      and t: "t = Waiting"
      using thread_done_cases [OF ends(1)] by blast
    have "same_file f h" by (rule same_file_trans [OF ends(2) settled_same_file [OF h(1)]])
    then show ?thesis
      unfolding t using fs_ok_done [OF assms(1) f tk, of h ?s] flags h ends(3) by simp
  qed
  consider (comp) "\<not> b" "accesses f = 1"
      "do { (job, f, w) \<leftarrow> do_compress_begin (fs_cfg s) f (wd s);
         case job of None \<Rightarrow> thread_done (fs_cfg s) i b f (fs_ddb s) (fs_db s) w
         | Some j \<Rightarrow> Some (Compressing i j, fs_ddb s, put_file i f (fs_db s), w) } = Some (t, ddb', db', w')"
    | (dedup) "b" "accesses f = 1" "t = Deduping i" "db' = put_file i (f\<lparr>status := insert DEDUPING (status f)\<rparr>) (fs_db s)"
    | (skip) "thread_done (fs_cfg s) i b f (fs_ddb s) (fs_db s) (wd s) = Some (t, ddb', db', w')"
    using assms(2) f taken_used [OF assms(1) tk f] by (auto simp: thread_begin_def split: if_split_asm)
  then show ?thesis
  proof cases
    case comp
    then obtain job g v where j: "do_compress_begin (fs_cfg s) f (wd s) = Some (job, g, v)"
      "(case job of None \<Rightarrow> thread_done (fs_cfg s) i b g (fs_ddb s) (fs_db s) v
         | Some j \<Rightarrow> Some (Compressing i j, fs_ddb s, put_file i g (fs_db s), v)) = Some (t, ddb', db', w')"
      by (auto simp: bind_eq_Some_conv)
    note g = same_file_compress_begin [OF j(1)] compress_begin_status [OF j(1)]
    show ?thesis
    proof (cases job)
      case None
      then show ?thesis using finished [of g v] j(2) g by simp
    next
      case (Some k)
      then have t: "t = Compressing i k" "db' = put_file i g (fs_db s)" using j(2) by auto
      have "work_ok t i g"
        using g Some t(1) comp(2) flags by (simp add: work_ok_def working_def same_file_def)
      then show ?thesis using fs_ok_goes_on [OF assms(1) f g(1)] t by (simp add: taken_def working_def)
    qed
  next
    case dedup
    let ?g = "f\<lparr>status := insert DEDUPING (status f)\<rparr>"
    have "work_ok t i ?g" using dedup(2,3) flags by (simp add: work_ok_def working_def)
    then show ?thesis
      using fs_ok_goes_on [OF assms(1) f, of ?g] dedup(3,4) by (simp add: taken_def working_def)
  next
    case skip
    then show ?thesis using finished by simp
  qed
qed

lemma thread_end_ok:
  assumes "fs_ok R t s"
    and "thread_end (fs_cfg s) mhash pid t (fs_ddb s) (fs_db s) (wd s) = Some (t', ddb', db', w')"
  shows "t' = Waiting \<and> fs_ok R Waiting (s\<lparr>fs_db := db', fs_ddb := ddb', wd := w'\<rparr>) \<and>
    (\<exists>i. taken t = Some i)"
proof -
  let ?s = "s\<lparr>fs_db := db', fs_ddb := ddb', wd := w'\<rparr>"
  have finish: "t' = Waiting \<and> fs_ok R Waiting ?s"
    if ends: "taken t = Some i" "files (fs_db s) i = Some f" "settled f g" "COMPRESSING \<notin> status g"
      "thread_done (fs_cfg s) i b g ddb (fs_db s) v = Some (t', ddb', db', w')" for i f g b ddb v
  proof -
    obtain h where h: "settled g h" "status h = status g" "db' = put_file i (h\<lparr>accesses := accesses h - 1\<rparr>) (fs_db s)"
      and t: "t' = Waiting"
      using thread_done_cases [OF ends(5)] by blast
    have sf: "same_file f h" using settled_same_file [OF settled_trans [OF ends(3) h(1)]] .
    have "DECOMPRESSING \<notin> status f" using fs_okD(3) [OF assms(1) ends(2)] by (simp add: work_ok_def)
    then have "DECOMPRESSING \<notin> status h" using settled_trans [OF ends(3) h(1)] by (auto simp: settled_def)
    then show ?thesis
      using t fs_ok_done [OF assms(1) ends(2,1) sf, of ?s] ends(4) h by simp
  qed
  consider (comp) i j where "t = Compressing i j" | (dedup) i where "t = Deduping i"
    using assms(2) by (cases t) (auto simp: thread_end_def)
  then show ?thesis
  proof cases
    case comp
    obtain f g ddb v where e: "files (fs_db s) i = Some f" "do_compress_end (fs_cfg s) f (fs_ddb s) j (wd s) = Some (g, ddb, v)"
      "thread_done (fs_cfg s) i False g ddb (fs_db s) v = Some (t', ddb', db', w')"
      using assms(2) comp by (auto simp: thread_end_def bind_eq_Some_conv)
    have "taken t = Some i" using comp by (simp add: taken_def working_def)
    then show ?thesis
      using finish [OF _ e(1) settled_compress_end [OF fs_okD(5) [OF assms(1)] e(2)] compress_end_status [OF e(2)] e(3)] by simp
  next
    case dedup
    obtain f g ddb v where e: "files (fs_db s) i = Some f" "do_dedup_end (fs_cfg s) mhash pid f (fs_ddb s) (wd s) = Some (g, ddb, v)"
      "thread_done (fs_cfg s) i True g ddb (fs_db s) v = Some (t', ddb', db', w')"
      using assms(2) dedup by (auto simp: thread_end_def bind_eq_Some_conv)
    have tk: "taken t = Some i" using dedup by (simp add: taken_def working_def)
    have "COMPRESSING \<notin> status f" using fs_okD(3) [OF assms(1) e(1)] dedup by (simp add: work_ok_def)
    then have "COMPRESSING \<notin> status g" using settled_dedup_end [OF e(2)] by (auto simp: settled_def)
    then show ?thesis using finish [OF tk e(1) settled_dedup_end [OF e(2)] _ e(3)] tk by simp
  qed
qed

end
