(* ===== verification/FuseDirs.thy ===== *)
theory FuseDirs
  imports FuseInv DedupSave
begin

text \<open>
  The operations of \<^verbatim>\<open>fusecompress.c\<close> that do not touch the database of files: directories, symbolic
  links, \<open>fsync\<close> and \<open>statfs\<close>. A directory is an inode of its type; that it is not empty is for the
  script of the environment to say. A symbolic link is an inode whose data are its target. The kernel
  resolves links before it calls, so the other operations never get a path to one.
\<close>

section \<open>System calls\<close>

definition S_ISDIR :: "nat \<Rightarrow> bool" where
  "S_ISDIR m \<longleftrightarrow> m div 4096 mod 16 = 4"

definition S_ISLNK :: "nat \<Rightarrow> bool" where
  "S_ISLNK m \<longleftrightarrow> m div 4096 mod 16 = 10"

definition sys_mkdir :: "path \<Rightarrow> nat \<Rightarrow> nat \<Rightarrow> nat \<Rightarrow> world \<Rightarrow> int \<times> world" where
  "sys_mkdir p mode uid gid = syscall (\<lambda>w.
     if names w p \<noteq> None then fail EEXIST w
     else
       (let (n, w) = new_inode p mode w
        in (0, w\<lparr>inodes := (inodes w)(n := map_option (\<lambda>i. i\<lparr>iuid := uid, igid := gid,
                  imode := 4 * 4096 + mode mod 4096, inlink := 2\<rparr>) (inodes w n))\<rparr>)))"

definition sys_rmdir :: "path \<Rightarrow> world \<Rightarrow> int \<times> world" where
  "sys_rmdir p = syscall (\<lambda>w.
     case names w p of
       None \<Rightarrow> fail ENOENT w
     | Some n \<Rightarrow>
         (case inodes w n of
            None \<Rightarrow> fail ENOENT w
          | Some i \<Rightarrow>
              if \<not> S_ISDIR (imode i) then fail ENOTDIR w
              else (0, set_inode n (i\<lparr>inlink := 0\<rparr>) (w\<lparr>names := (names w)(p := None)\<rparr>))))"

definition sys_symlink :: "string \<Rightarrow> path \<Rightarrow> world \<Rightarrow> int \<times> world" where
  "sys_symlink target p = syscall (\<lambda>w.
     if target = [] then fail ENOENT w
     else if names w p \<noteq> None then fail EEXIST w
     else
       (let (n, w) = new_inode p 0 w
        in (0, w\<lparr>inodes := (inodes w)(n := map_option (\<lambda>i. i\<lparr>idata := bytes_of target,
                  imode := 10 * 4096 + 511\<rparr>) (inodes w n))\<rparr>)))"

definition sys_readlink :: "path \<Rightarrow> nat \<Rightarrow> world \<Rightarrow> (int \<times> byte list) \<times> world" where
  "sys_readlink p n w =
     (case next_outcome w of
        (Fault e, w) \<Rightarrow> ((-1, []), w\<lparr>errno := e\<rparr>)
      | (_, w) \<Rightarrow>
          (case file_of w p of
             None \<Rightarrow> ((-1, []), w\<lparr>errno := ENOENT\<rparr>)
           | Some i \<Rightarrow>
               if \<not> S_ISLNK (imode i) \<or> n = 0 then ((-1, []), w\<lparr>errno := EINVAL\<rparr>)
               else ((int (min n (length (idata i))), take n (idata i)), w)))"

text \<open>\<open>fsync\<close> and \<open>fdatasync\<close>: what is written is on disk at once here.\<close>

definition sys_fsync :: "int \<Rightarrow> world \<Rightarrow> int \<times> world" where
  "sys_fsync fd = syscall (\<lambda>w. if fdtab w fd = None then fail EBADF w else (0, w))"

section \<open>The operations\<close>

text \<open>What an operation replies that only makes one call.\<close>

definition reply_of :: "int \<Rightarrow> world \<Rightarrow> fs \<Rightarrow> (unit reply \<times> fs) option" where
  "reply_of res w s = Some (if res = -1 then Err (errno w) else Ok (), s\<lparr>wd := w\<rparr>)"

definition fusecompress_readlink :: "string \<Rightarrow> nat \<Rightarrow> fs \<Rightarrow> (string reply \<times> fs) option" where
  "fusecompress_readlink path sz s = do {
     full \<leftarrow> fusecompress_getpath path;
     assert (sz > 0);
     let ((res, bs), w) = sys_readlink full (sz - 1) (wd s);
     Some (if res = -1 then Err (errno w) else Ok (chars_of bs), s\<lparr>wd := w\<rparr>)
   }"

definition fusecompress_mkdir :: "string \<Rightarrow> nat \<Rightarrow> nat \<Rightarrow> nat \<Rightarrow> fs \<Rightarrow> (unit reply \<times> fs) option" where
  "fusecompress_mkdir path mode uid gid s = do {
     full \<leftarrow> fusecompress_getpath path;
     let (res, w) = sys_mkdir full mode uid gid (wd s);
     reply_of res w s
   }"

definition fusecompress_rmdir :: "string \<Rightarrow> fs \<Rightarrow> (unit reply \<times> fs) option" where
  "fusecompress_rmdir path s = do {
     full \<leftarrow> fusecompress_getpath path;
     let (res, w) = sys_rmdir full (wd s);
     reply_of res w s
   }"

definition fusecompress_symlink :: "string \<Rightarrow> string \<Rightarrow> nat \<Rightarrow> nat \<Rightarrow> fs \<Rightarrow> (unit reply \<times> fs) option" where
  "fusecompress_symlink from to uid gid s = do {
     full_to \<leftarrow> fusecompress_getpath to;
     let (res, w) = sys_symlink from full_to (wd s);
     if res = -1 then reply_of res w s
     else reply_of 0 (snd (sys_lchown full_to uid gid w)) s
   }"

definition fusecompress_fsync :: "nat \<Rightarrow> fs \<Rightarrow> (unit reply \<times> fs) option" where
  "fusecompress_fsync d s = do {
     i \<leftarrow> desc_file d (fs_db s);
     f \<leftarrow> files (fs_db s) i;
     x \<leftarrow> find_desc d f;
     let (res, w) = sys_fsync (d_fd x) (wd s);
     reply_of res w s
   }"

definition fusecompress_statfs :: "string \<Rightarrow> fs \<Rightarrow> ((u64 \<times> u64 \<times> u64) reply \<times> fs) option" where
  "fusecompress_statfs path s = do {
     full \<leftarrow> fusecompress_getpath path;
     let (res, w) = sys_statvfs full (wd s);
     Some (if res = -1 then Err (errno w) else Ok (f_bsize w, f_bavail w, f_bfree w), s\<lparr>wd := w\<rparr>)
   }"

text \<open>
  \<open>ns\<close> are the names in the directory in the order \<open>readdir\<close> has them; whether it can be opened is
  for the script to say.
\<close>

definition sys_opendir :: "world \<Rightarrow> int \<times> world" where
  "sys_opendir = syscall (\<lambda>w. (0, w))"

definition fusecompress_readdir ::
  "string \<Rightarrow> string list \<Rightarrow> (string \<Rightarrow> 'b \<Rightarrow> bool \<times> 'b) \<Rightarrow> 'b \<Rightarrow> fs \<Rightarrow> (unit reply \<times> 'b \<times> fs) option" where
  "fusecompress_readdir path ns filler b s = do {
     full \<leftarrow> fusecompress_getpath path;
     let (r, w) = sys_opendir (wd s);
     if r = -1 then Some (Err (errno w), b, s\<lparr>wd := w\<rparr>)
     else Some (Ok (), readdir_loop filler ns b, s\<lparr>wd := w\<rparr>)
   }"

section \<open>What they keep\<close>

lemma reply_of_Some: "reply_of res w s = Some (r, s') \<longleftrightarrow> s' = s\<lparr>wd := w\<rparr> \<and> r = (if res = -1 then Err (errno w) else Ok ())"
  by (auto simp: reply_of_def)

lemma world_only:
  assumes "fs_ok R t s" and "s' = s\<lparr>wd := w\<rparr>"
  shows "fs_ok R t s'"
  using assms fs_ok_cong [of s' s] by simp

lemma dirs_ok:
  assumes "fs_ok R t s"
  shows "fusecompress_readlink path sz s = Some (rs, s') \<Longrightarrow> fs_ok R t s'"
    and "fusecompress_mkdir path mode uid gid s = Some (r, s') \<Longrightarrow> fs_ok R t s'"
    and "fusecompress_rmdir path s = Some (r, s') \<Longrightarrow> fs_ok R t s'"
    and "fusecompress_symlink from to uid gid s = Some (r, s') \<Longrightarrow> fs_ok R t s'"
    and "fusecompress_fsync d s = Some (r, s') \<Longrightarrow> fs_ok R t s'"
    and "fusecompress_statfs path s = Some (rv, s') \<Longrightarrow> fs_ok R t s'"
  using world_only [OF assms]
  by (auto simp: fusecompress_readlink_def fusecompress_mkdir_def fusecompress_rmdir_def fusecompress_symlink_def
      fusecompress_fsync_def fusecompress_statfs_def bind_eq_Some_conv reply_of_Some split_beta Let_def split: if_splits)

text \<open>A listing shows every name but those of temporary files of FUSE and of files for internal use.\<close>

lemma readdir_shows:
  "readdir_loop (\<lambda>name b. (False, b @ [name])) ns b =
   b @ filter (\<lambda>name. \<not> sublist FUSE name \<and> \<not> prefix FUSECOMPRESS_PREFIX name) ns"
  by (induction ns arbitrary: b) (auto simp: strncmp_prefix_def strstr_iff simp del: not_None_eq)

lemma chars_of_take: "chars_of (take n bs) = take n (chars_of bs)"
  by (simp add: chars_of_def take_map)

text \<open>A link gives back its target, as much of it as fits with the terminator, and the target's owner is not asked.\<close>

lemma readlink_symlink:
  assumes "fusecompress_symlink from to uid gid s = Some (Ok (), s1)" and "clean (wd s)"
    and "fusecompress_getpath to = Some full" and "1 < sz"
  shows "\<exists>s2. fusecompress_readlink to sz s1 = Some (Ok (take (sz - 1) from), s2)"
proof -
  obtain w where w: "sys_symlink from full (wd s) = (0, w)" "wd s1 = snd (sys_lchown full uid gid w)"
    "from \<noteq> []" "names (wd s) full = None"
    using assms(1-3)
    by (auto simp: fusecompress_symlink_def reply_of_Some split_beta sys_symlink_def syscall_clean fail_def
        Let_def new_inode_def split: if_splits)
  have "file_of (wd s1) full = Some (\<lparr>idata = bytes_of from, imode = 10 * 4096 + 511, iuid = uid, igid = gid,
      iatim = now (wd s), imtim = now (wd s), inlink = 1\<rparr>)" "clean (wd s1)"
    using w assms(2)
    by (auto simp: sys_symlink_def sys_lchown_def on_path_def syscall_clean new_inode_def set_inode_def file_of_def)
  then show ?thesis
    using assms(3,4)
    by (simp add: fusecompress_readlink_def sys_readlink_def next_outcome_clean S_ISLNK_def chars_of_take)
qed

end
