(* ===== verification/System.thy ===== *)
theory System
  imports ThreadInv FuseDirs
begin

text \<open>
  A mounted file system: the requests of the kernel, renames in progress and the background thread,
  in any order (\<open>step\<close>), and the invariant of every reachable state.

  A request is one step. A rename is three: between them it holds its first file, or both, without
  their locks. The kernel locks the directories of a rename, so two renames in progress have no name
  in common, and the two names of one differ (the kernel answers a rename of a name to itself). A
  request that has to wait for the thread, or for a lock that was never given back, leaves the state
  as \<open>open_entry\<close> says, and its caller tries again. The thread takes the next entry of the queue,
  begins to work on the file when it gets its lock, and ends when it has it again.
\<close>

section \<open>Requests\<close>

datatype request =
    Getattr string
  | Mknod string nat nat nat
  | Unlink string
  | Link string string
  | Chmod string nat
  | Chown string nat nat
  | Utime string int int
  | Truncate string off
  | Open string "oflag set"
  | Read nat nat off
  | Write nat "byte list" off
  | Release nat
  | Readlink string nat
  | Mkdir string nat nat nat
  | Rmdir string
  | Symlink string string nat nat
  | Fsync nat
  | Statfs string

text \<open>The state after a request, and whether the caller has to wait.\<close>

definition answer :: "('a reply \<times> fs) option \<Rightarrow> (unit reply \<times> fs) option" where
  "answer x = map_option (\<lambda>(r, s). (map_reply (\<lambda>_. ()) r, s)) x"

fun serve :: "request \<Rightarrow> fs \<Rightarrow> (unit reply \<times> fs) option" where
  "serve (Getattr path) s = answer (fusecompress_getattr path s)"
| "serve (Mknod path mode uid gid) s = fusecompress_mknod path mode uid gid s"
| "serve (Unlink path) s = fusecompress_unlink path s"
| "serve (Link from to) s = fusecompress_link from to s"
| "serve (Chmod path mode) s = fusecompress_chmod path mode s"
| "serve (Chown path uid gid) s = fusecompress_chown path uid gid s"
| "serve (Utime path a m) s = fusecompress_utime path a m s"
| "serve (Truncate path sz) s = fusecompress_truncate path sz s"
| "serve (Open path flags) s = answer (fusecompress_open path flags s)"
| "serve (Read d n offset) s = answer (fusecompress_read d n offset s)"
| "serve (Write d buf offset) s = answer (fusecompress_write d buf offset s)"
| "serve (Release d) s = fusecompress_release d s"
| "serve (Readlink path sz) s = answer (fusecompress_readlink path sz s)"
| "serve (Mkdir path mode uid gid) s = fusecompress_mkdir path mode uid gid s"
| "serve (Rmdir path) s = fusecompress_rmdir path s"
| "serve (Symlink from to uid gid) s = fusecompress_symlink from to uid gid s"
| "serve (Fsync d) s = fusecompress_fsync d s"
| "serve (Statfs path) s = answer (fusecompress_statfs path s)"

fun request_paths :: "request \<Rightarrow> string list" where
  "request_paths (Getattr path) = [path]"
| "request_paths (Mknod path mode uid gid) = [path]"
| "request_paths (Unlink path) = [path]"
| "request_paths (Link from to) = [from, to]"
| "request_paths (Chmod path mode) = [path]"
| "request_paths (Chown path uid gid) = [path]"
| "request_paths (Utime path a m) = [path]"
| "request_paths (Truncate path sz) = [path]"
| "request_paths (Open path flags) = [path]"
| "request_paths _ = []"

lemma answer_Some: "answer x = Some (r, s) \<longleftrightarrow> (\<exists>q. x = Some (q, s) \<and> r = map_reply (\<lambda>_. ()) q)"
  by (auto simp: answer_def)

lemma serve_ok:
  assumes "fs_ok R t s" and "list_all path_ok (request_paths rq)" and "serve rq s = Some (r, s')"
  shows "fs_ok R t s'"
  using assms
  by (cases rq)
    (auto simp: answer_Some intro: fusecompress_getattr_ok fusecompress_mknod_ok fusecompress_unlink_ok
      fusecompress_link_ok fusecompress_chmod_ok fusecompress_chown_ok fusecompress_utime_ok
      fusecompress_truncate_ok fusecompress_open_ok fusecompress_read_ok fusecompress_write_ok
      fusecompress_release_ok dirs_ok)

section \<open>The state\<close>

text \<open>A rename in progress: its two paths, the first file, and the second once it is open.\<close>

datatype rename = Renaming string string nat "nat option"

record sys =
  fsys :: fs
  thread :: worker
  renames :: "rename list"

fun rename_names :: "rename \<Rightarrow> path set" where
  "rename_names (Renaming from to i j) = {the (fusecompress_getpath from), the (fusecompress_getpath to)}"

fun rename_holds :: "rename \<Rightarrow> (nat \<times> path) list" where
  "rename_holds (Renaming from to i j) =
     (i, the (fusecompress_getpath from)) #
     (case j of None \<Rightarrow> [] | Some k \<Rightarrow> [(k, the (fusecompress_getpath to))])"

definition holds :: "rename list \<Rightarrow> (nat \<times> path) list" where
  "holds rs = concat (map rename_holds rs)"

definition path_pair_ok :: "string \<Rightarrow> string \<Rightarrow> bool" where
  "path_pair_ok from to \<longleftrightarrow>
     path_ok from \<and> path_ok to \<and> fusecompress_getpath from \<noteq> fusecompress_getpath to \<and>
     fusecompress_getpath from \<noteq> None \<and> fusecompress_getpath to \<noteq> None"

section \<open>Steps\<close>

text \<open>\<open>mhash\<close> and \<open>pid\<close> are those of theory \<open>DedupFs\<close>.\<close>

inductive step :: "(byte list \<Rightarrow> byte list) \<Rightarrow> string \<Rightarrow> sys \<Rightarrow> sys \<Rightarrow> bool" for mhash pid where
  request: "list_all path_ok (request_paths rq) \<Longrightarrow> serve rq (fsys S) = Some (r, s) \<Longrightarrow>
    step mhash pid S (S\<lparr>fsys := s\<rparr>)"
| rename_first: "path_pair_ok from to \<Longrightarrow>
    \<forall>n \<in> set (renames S). rename_names n \<inter> rename_names (Renaming from to i None) = {} \<Longrightarrow>
    hold_entry from (fsys S) = Some (Ok i, s) \<Longrightarrow>
    step mhash pid S (S\<lparr>fsys := s, renames := Renaming from to i None # renames S\<rparr>)"
| rename_first_not: "path_pair_ok from to \<Longrightarrow>
    hold_entry from (fsys S) = Some (r, s) \<Longrightarrow> \<forall>i. r \<noteq> Ok i \<Longrightarrow> step mhash pid S (S\<lparr>fsys := s\<rparr>)"
| rename_second: "renames S = us @ Renaming from to i None # vs \<Longrightarrow>
    hold_entry to (fsys S) = Some (Ok j, s) \<Longrightarrow>
    step mhash pid S (S\<lparr>fsys := s, renames := us @ Renaming from to i (Some j) # vs\<rparr>)"
| rename_second_not: "renames S = us @ Renaming from to i None # vs \<Longrightarrow>
    hold_entry to (fsys S) = Some (r, s) \<Longrightarrow> \<forall>i. r \<noteq> Ok i \<Longrightarrow> step mhash pid S (S\<lparr>fsys := s\<rparr>)"
| rename_third: "renames S = us @ Renaming from to i (Some j) # vs \<Longrightarrow>
    finish_rename from to i j (fsys S) = Some (r, s) \<Longrightarrow> r \<noteq> Hangs \<Longrightarrow>
    step mhash pid S (S\<lparr>fsys := s, renames := us @ vs\<rparr>)"
| take_entry: "thread S = Waiting \<Longrightarrow> thread_take (fs_db (fsys S)) = Some (t, db) \<Longrightarrow>
    step mhash pid S (S\<lparr>fsys := (fsys S)\<lparr>fs_db := db\<rparr>, thread := t\<rparr>)"
| begin_work: "thread S = Took i b \<Longrightarrow> i \<notin> held (fsys S) \<Longrightarrow>
    thread_begin (fs_cfg (fsys S)) i b (fs_ddb (fsys S)) (fs_db (fsys S)) (wd (fsys S)) = Some (t, ddb, db, w) \<Longrightarrow>
    step mhash pid S (S\<lparr>fsys := (fsys S)\<lparr>fs_db := db, fs_ddb := ddb, wd := w\<rparr>, thread := t\<rparr>)"
| end_work: "working (thread S) = Some i \<Longrightarrow> i \<notin> held (fsys S) \<Longrightarrow>
    thread_end (fs_cfg (fsys S)) mhash pid (thread S) (fs_ddb (fsys S)) (fs_db (fsys S)) (wd (fsys S)) =
      Some (t, ddb, db, w) \<Longrightarrow>
    step mhash pid S (S\<lparr>fsys := (fsys S)\<lparr>fs_db := db, fs_ddb := ddb, wd := w\<rparr>, thread := t\<rparr>)"

inductive_cases stepE: "step mhash pid S S'"

lemmas step_cases = stepE [consumes 1, case_names request rename_first rename_first_not rename_second
  rename_second_not rename_third take_entry begin_work end_work]

definition initial :: "config \<Rightarrow> dedup_db \<Rightarrow> world \<Rightarrow> sys" where
  "initial cfg ddb w =
     \<lparr>fsys = \<lparr>wd = w, fs_db = empty_fdb, fs_ddb = ddb, fs_cfg = cfg, next_desc = 0, held = {}, db_locked = False\<rparr>,
      thread = Waiting, renames = []\<rparr>"

inductive reachable :: "(byte list \<Rightarrow> byte list) \<Rightarrow> string \<Rightarrow> config \<Rightarrow> dedup_db \<Rightarrow> world \<Rightarrow> sys \<Rightarrow> bool"
  for mhash pid cfg ddb w where
  start: "reachable mhash pid cfg ddb w (initial cfg ddb w)"
| more: "reachable mhash pid cfg ddb w S \<Longrightarrow> step mhash pid S S' \<Longrightarrow> reachable mhash pid cfg ddb w S'"

section \<open>The invariant\<close>

text \<open>The renames in progress are between valid names, and no two have a name in common.\<close>

fun rename_ok :: "rename \<Rightarrow> bool" where
  "rename_ok (Renaming from to i j) = path_pair_ok from to"

definition apart :: "rename list \<Rightarrow> bool" where
  "apart rs \<longleftrightarrow> sorted_wrt (\<lambda>a b. rename_names a \<inter> rename_names b = {}) rs"

definition sys_ok :: "sys \<Rightarrow> bool" where
  "sys_ok S \<longleftrightarrow> fs_ok (holds (renames S)) (thread S) (fsys S) \<and> list_all rename_ok (renames S) \<and> apart (renames S)"

lemma sys_okD:
  assumes "sys_ok S"
  shows "fs_ok (holds (renames S)) (thread S) (fsys S)" "list_all rename_ok (renames S)" "apart (renames S)"
  using assms by (simp_all add: sys_ok_def)

text \<open>Only what is held counts, not in which order.\<close>

lemma fs_ok_mset:
  assumes "mset R = mset R'"
  shows "fs_ok R t s = fs_ok R' t s"
proof -
  have "length (filter P R) = length (filter P R')" for P
    using assms by (metis mset_filter size_mset)
  then have "holders R t = holders R' t" by (simp add: holders_def fun_eq_iff)
  moreover have "set R = set R'" using assms by (metis set_mset_mset)
  ultimately show ?thesis by (simp add: fs_ok_def)
qed

lemma initial_ok: "modules_keep cfg \<Longrightarrow> sys_ok (initial cfg ddb w)"
  by (simp add: sys_ok_def initial_def fs_ok_def fdb_inv_def holds_def apart_def descs_ok_def desc_ids_def
      empty_fdb_def holders_def taken_def working_def)

section \<open>Every step keeps it\<close>

lemma holds_simps [simp]:
  "holds [] = []" "holds (r # rs) = rename_holds r @ holds rs" "holds (xs @ ys) = holds xs @ holds ys"
  by (simp_all add: holds_def)

lemma holds_names:
  assumes "(i, p) \<in> set (holds rs)"
  obtains r where "r \<in> set rs" "p \<in> rename_names r"
proof -
  obtain r where r: "r \<in> set rs" "(i, p) \<in> set (rename_holds r)"
    using assms by (auto simp: holds_def)
  from r(2) have "p \<in> rename_names r" by (cases r) (auto split: option.split_asm)
  with r that show ?thesis by blast
qed

lemma apart_middle:
  assumes "apart (us @ r # vs)"
  shows "apart (us @ vs)" and "x \<in> set (us @ vs) \<Longrightarrow> rename_names x \<inter> rename_names r = {}"
  using assms by (auto simp: apart_def sorted_wrt_append)

lemma apart_replace:
  assumes "apart (us @ r # vs)" and "rename_names r' = rename_names r"
  shows "apart (us @ r' # vs)"
  using assms by (auto simp: apart_def sorted_wrt_append)

text \<open>A rename that has both its files: they differ, and no other rename holds them.\<close>

lemma rename_apart:
  assumes "sys_ok S" and "renames S = us @ Renaming from to i (Some j) # vs"
  shows "i \<noteq> j" and "\<exists>a b. fusecompress_getpath from = Some a \<and> fusecompress_getpath to = Some b \<and>
      fs_ok ((i, a) # (j, b) # holds (us @ vs)) (thread S) (fsys S)"
    and "i \<notin> fst ` set (holds (us @ vs))"
proof -
  note o = sys_okD [OF assms(1)]
  obtain a b where n: "fusecompress_getpath from = Some a" "fusecompress_getpath to = Some b" "a \<noteq> b"
    using o(2) assms(2) by (auto simp: path_pair_ok_def)
  have "mset (holds (renames S)) = mset ((i, a) # (j, b) # holds (us @ vs))" using assms(2) n by simp
  then have ok: "fs_ok ((i, a) # (j, b) # holds (us @ vs)) (thread S) (fsys S)"
    using o(1) fs_ok_mset by blast
  have fi: "\<exists>f. files (fs_db (fsys S)) i = Some f \<and> filename f = a"
    and fj: "\<exists>f. files (fs_db (fsys S)) j = Some f \<and> filename f = b"
    using fs_okD(4) [OF ok, of i a] fs_okD(4) [OF ok, of j b] by simp_all
  show "i \<noteq> j" using fi fj n(3) by auto
  show "\<exists>a b. fusecompress_getpath from = Some a \<and> fusecompress_getpath to = Some b \<and>
      fs_ok ((i, a) # (j, b) # holds (us @ vs)) (thread S) (fsys S)" using n ok by blast
  show "i \<notin> fst ` set (holds (us @ vs))"
  proof
    assume "i \<in> fst ` set (holds (us @ vs))"
    then obtain p where p: "(i, p) \<in> set (holds (us @ vs))" by (metis imageE prod.collapse)
    then obtain x where x: "x \<in> set (us @ vs)" "p \<in> rename_names x" by (rule holds_names)
    have "p = a" using fs_okD(4) [OF ok, of i p] p fi by auto
    moreover have "rename_names x \<inter> rename_names (Renaming from to i (Some j)) = {}"
      using apart_middle(2) [of us "Renaming from to i (Some j)" vs x] o(3) assms(2) x(1) by simp
    ultimately show False using x(2) n by auto
  qed
qed

text \<open>The last step of a rename.\<close>

lemma finish_rename_ok:
  assumes "sys_ok S" and "renames S = us @ Renaming from to i (Some j) # vs"
    and "finish_rename from to i j (fsys S) = Some (r, s)" and "r \<noteq> Hangs"
  shows "fs_ok (holds (us @ vs)) (thread S) s"
proof -
  obtain a b where n: "fusecompress_getpath from = Some a" "fusecompress_getpath to = Some b"
    and ok: "fs_ok ((i, a) # (j, b) # holds (us @ vs)) (thread S) (fsys S)"
    using rename_apart(2) [OF assms(1,2)] by blast
  have "rename_entries a b i j (fsys S) = Some (r, s)"
    using assms(3,4) n by (auto simp: finish_rename_def split: if_split_asm)
  then show ?thesis
    using rename_entries_ok [OF ok, of i a j b a b r s] rename_apart(1,3) [OF assms(1,2)] by simp
qed

text \<open>After the rename has given up its own accesses, \<open>direct_rename\<close> finds what it asserts.\<close>

lemma rename_returns:
  assumes "sys_ok S" and "renames S = us @ Renaming from to i (Some j) # vs"
  shows "\<exists>f g. files (fs_db (fsys S)) i = Some f \<and> files (fs_db (fsys S)) j = Some g \<and>
    direct_rename i j (put_file j (g\<lparr>accesses := accesses g - 1\<rparr>)
      (put_file i (f\<lparr>accesses := accesses f - 1\<rparr>) (fs_db (fsys S)))) w \<noteq> None"
proof -
  note ij = rename_apart(1) [OF assms]
  obtain a b where ok: "fs_ok ((i, a) # (j, b) # holds (us @ vs)) (thread S) (fsys S)"
    using rename_apart(2) [OF assms] by blast
  obtain f g where f: "files (fs_db (fsys S)) i = Some f" and g: "files (fs_db (fsys S)) j = Some g"
    using fs_okD(4) [OF ok, of i a] fs_okD(4) [OF ok, of j b] by auto
  let ?s1 = "put_entry i (f\<lparr>accesses := accesses f - 1\<rparr>) (fsys S)"
  let ?s2 = "put_entry j (g\<lparr>accesses := accesses g - 1\<rparr>) ?s1"
  have ok1: "fs_ok ((j, b) # holds (us @ vs)) (thread S) ?s1"
    using fs_ok_unhold [OF ok _ f, of a] by simp
  have g1: "files (fs_db ?s1) j = Some g" using g ij by simp
  have ok2: "fs_ok (holds (us @ vs)) (thread S) ?s2"
    using fs_ok_unhold [OF ok1 _ g1, of b] by simp
  have "filter (\<lambda>e. fst e = i) (holds (us @ vs)) = []"
    using rename_apart(3) [OF assms] by (force simp: filter_empty_conv)
  then have h: "holders (holds (us @ vs)) (thread S) i \<le> 1" by (simp add: holders_def)
  have "files (fs_db ?s2) i = Some (f\<lparr>accesses := accesses f - 1\<rparr>)"
    "files (fs_db ?s2) j = Some (g\<lparr>accesses := accesses g - 1\<rparr>)" using f ij by simp_all
  from direct_rename_spec [OF fs_okD(1) [OF ok2] ij this h, of w]
  have "direct_rename i j (fs_db ?s2) w \<noteq> None" by auto
  then show ?thesis using f g by auto
qed

lemma step_ok:
  assumes "step mhash pid S S'" and "sys_ok S"
  shows "sys_ok S'"
  using assms(1)
proof (cases rule: step_cases)
  note o = sys_okD [OF assms(2)]
  note ok = o(1)
  {
    case (request rq r s)
    then show ?thesis using serve_ok [OF ok, of rq r s] o(2,3) by (simp add: sys_ok_def)
  next
    case (rename_first p q i s)
    obtain a where a: "fusecompress_getpath p = Some a" "fs_ok ((i, a) # holds (renames S)) (thread S) s"
      using hold_entry_ok [OF ok _ rename_first(4)] rename_first(2) by (auto simp: path_pair_ok_def)
    have "apart (Renaming p q i None # renames S)"
      using o(3) rename_first(3) by (auto simp: apart_def)
    then show ?thesis using a rename_first(1,2) o(2) by (simp add: sys_ok_def)
  next
    case (rename_first_not p q r s)
    have "fs_ok (holds (renames S)) (thread S) s"
      using hold_entry_ok [OF ok _ rename_first_not(3)] rename_first_not(2,4)
      by (cases r) (auto simp: path_pair_ok_def)
    then show ?thesis using rename_first_not(1) o(2,3) by (simp add: sys_ok_def)
  next
    case (rename_second us p q i vs j s)
    have po: "path_pair_ok p q" using o(2) rename_second(2) by simp
    obtain b where b: "fusecompress_getpath q = Some b" "fs_ok ((j, b) # holds (renames S)) (thread S) s"
      using hold_entry_ok [OF ok _ rename_second(3)] po by (auto simp: path_pair_ok_def)
    have "mset ((j, b) # holds (renames S)) = mset (holds (us @ Renaming p q i (Some j) # vs))"
      using b(1) rename_second(2) by simp
    then have "fs_ok (holds (us @ Renaming p q i (Some j) # vs)) (thread S) s"
      using b(2) fs_ok_mset by blast
    moreover have "apart (us @ Renaming p q i (Some j) # vs)"
      using o(3) rename_second(2) apart_replace [of us "Renaming p q i None" vs] by simp
    ultimately show ?thesis using rename_second(1,2) o(2) by (simp add: sys_ok_def)
  next
    case (rename_second_not us p q i vs r s)
    have po: "path_ok q" using o(2) rename_second_not(2) by (simp add: path_pair_ok_def)
    have "fs_ok (holds (renames S)) (thread S) s"
      using hold_entry_ok [OF ok po rename_second_not(3)] rename_second_not(4) by (cases r) auto
    then show ?thesis using rename_second_not(1) o(2,3) by (simp add: sys_ok_def)
  next
    case (rename_third us p q i j vs r s)
    have "fs_ok (holds (us @ vs)) (thread S) s"
      by (rule finish_rename_ok [OF assms(2) rename_third(2,3,4)])
    then show ?thesis using rename_third(1,2) o(2,3) apart_middle(1) [of us _ vs] by (simp add: sys_ok_def)
  next
    case (take_entry t db)
    then show ?thesis using thread_take_ok [of "holds (renames S)" "fsys S" t db] o by (simp add: sys_ok_def)
  next
    case (begin_work i b t ddb db w)
    then show ?thesis using thread_begin_ok [of "holds (renames S)" i b "fsys S"] o by (simp add: sys_ok_def)
  next
    case (end_work i t ddb db w)
    then show ?thesis using thread_end_ok [OF ok end_work(4)] o(2,3) by (simp add: sys_ok_def)
  }
qed

lemma reachable_ok:
  assumes "reachable mhash pid cfg ddb w S" and "modules_keep cfg"
  shows "sys_ok S"
  using assms(1)
proof (induction rule: reachable.induct)
  case start
  show ?case by (rule initial_ok [OF assms(2)])
next
  case (more S S')
  then show ?case using step_ok by blast
qed

end
