(* ===== verification/Waiting.thy ===== *)
theory Waiting
  imports System CompressFacts
begin

text \<open>
  Who waits for the background thread, and what ends the waiting: opening a file that is in the
  database, the end of the thread's turn, and that the turn does end.
\<close>

section \<open>Opening a file that has an entry\<close>

lemma lookup_present:
  assumes "fdb_inv k H db" and "files db i = Some f"
  shows "lookup_file (hash_of (filename f)) (filename f) db = Some i"
proof (cases "lookup_file (hash_of (filename f)) (filename f) db")
  case None
  then show ?thesis using lookup_file_None [OF assms(1) None assms(2)] by simp
next
  case (Some j)
  then obtain g where "files db j = Some g" "filename g = filename f" using lookup_file_Some by blast
  then show ?thesis using fdb_invD(6) [OF assms(1)] assms(2) Some by blast
qed

lemma open_entry_present:
  assumes "fs_ok R t s" and "files (fs_db s) i = Some f"
    and "\<not> db_locked s" and "\<not> open_hangs (hash_of (filename f)) (filename f) (held s) (fs_db s)"
  shows "\<exists>s'. open_entry (filename f) True s = Some (if busy f then Waits i else Ok i, s') \<and>
    files (fs_db s') i = Some (if busy f then f\<lparr>deleted := False, status := insert CANCEL (status f)\<rparr>
      else f\<lparr>deleted := False\<rparr>)"
proof -
  note inv = fs_okD(1) [OF assms(1)]
  have n: "name_ok (filename f)" using fdb_inv_name [OF inv assms(2)] by simp
  have h: "gethash (filename f) = Some (hash_of (filename f), length (filename f) + 1)"
    using gethash_eq n by (simp add: name_ok_def)
  obtain f' r g where o: "files (fs_db s) i = Some f'"
    "direct_open (fs_cfg s) (filename f) True (fs_ddb s) (fs_db s) (wd s) = Some (r, put_file i g (fs_db s), wd s)"
    "if True \<and> busy f' then r = Blocked i \<and> g = f'\<lparr>deleted := False, status := insert CANCEL (status f')\<rparr>
     else r = Opened i \<and> g = f'\<lparr>deleted := False\<rparr>"
    using direct_open_found [OF inv n lookup_present [OF inv assms(2)], of "fs_cfg s" True "fs_ddb s" "wd s"]
    by blast
  have "f' = f" using o(1) assms(2) by simp
  then show ?thesis
    using assms(3,4) h o(2,3) by (cases "busy f") (simp_all add: open_entry_def)
qed

text \<open>A stable open of the thread's file waits, and asks the thread to stop.\<close>

lemma working_busy:
  assumes "fs_ok R t s" and "files (fs_db s) i = Some f" and "working t = Some i"
  shows "busy f"
  using not_working [OF assms(1,2)] assms(3) by blast

lemma open_entry_waits:
  assumes "fs_ok R t s" and "files (fs_db s) i = Some f" and "working t = Some i"
  shows "\<exists>r s'. open_entry (filename f) True s = Some (r, s') \<and>
    (r = Hangs \<or> r = Waits i \<and> (\<exists>g. files (fs_db s') i = Some g \<and> CANCEL \<in> status g))"
proof (cases "db_locked s \<or> open_hangs (hash_of (filename f)) (filename f) (held s) (fs_db s)")
  case True
  have n: "name_ok (filename f)" using fdb_inv_name [OF fs_okD(1) [OF assms(1)] assms(2)] by simp
  then have "gethash (filename f) = Some (hash_of (filename f), length (filename f) + 1)"
    using gethash_eq by (simp add: name_ok_def)
  then show ?thesis using True by (auto simp: open_entry_def)
next
  case False
  then show ?thesis
    using open_entry_present [OF assms(1,2)] working_busy [OF assms] by (auto intro: exI [of _ "Waits i"])
qed

lemma with_entry_waits:
  assumes "fs_ok R t s" and "files (fs_db s) i = Some f" and "working t = Some i"
  shows "\<exists>r s'. with_entry (filename f) True act s = Some (r, s') \<and>
    (r = Hangs \<or> r = Waits i \<and> (\<exists>g. files (fs_db s') i = Some g \<and> CANCEL \<in> status g))"
proof -
  obtain r s' where "open_entry (filename f) True s = Some (r, s')"
    "r = Hangs \<or> r = Waits i \<and> (\<exists>g. files (fs_db s') i = Some g \<and> CANCEL \<in> status g)"
    using open_entry_waits [OF assms] by blast
  then show ?thesis by (auto simp: with_entry_def)
qed

section \<open>The end of a turn\<close>

lemma thread_done_total:
  assumes "name_ok (filename f)"
  shows "\<exists>res. thread_done cfg i b f ddb db w = Some res"
  using dedup_discard_total [OF assms, of ddb] by (auto simp: thread_done_def)

lemma replace_compressed_total:
  assumes "name_ok (filename f)"
  shows "\<exists>res. replace_compressed cfg f ddb fd fd_temp temp st c sz w = Some res"
  using dedup_discard_total [of "f\<lparr>fcompressor := Some c, fsize := sz\<rparr>" ddb] assms
  by (auto simp: replace_compressed_def Let_def split_beta)

text \<open>The compression ends when its descriptors are still those of two files.\<close>

definition job_ready :: "config \<Rightarrow> compress_job \<Rightarrow> world \<Rightarrow> bool" where
  "job_ready cfg j w \<longleftrightarrow>
     module_of cfg (j_comp j) \<noteq> None \<and> world_ok w \<and> at_end w (j_fd_temp j) \<and> separate w (j_fd j) (j_fd_temp j)"

lemma do_compress_end_total:
  assumes "table_ok cfg decode" and "job_ready cfg j w" and "name_ok (filename f)"
  shows "\<exists>res. do_compress_end cfg f ddb j w = Some res"
proof -
  obtain m where m: "module_of cfg (j_comp j) = Some m" using assms(2) by (auto simp: job_ready_def)
  note c = compress_module.comp_total [OF table_ok_module(2) [OF assms(1) m]]
  obtain r g w1 where g: "compress m f (j_fd j) (j_fd_temp j) w = Some (r, g, w1)" "may_cancel f g"
    using c [of w "j_fd_temp j" "j_fd j" f] assms(2) by (auto simp: job_ready_def)
  obtain x h w2 where tc: "compress_testcancel g w1 = ((x, h), w2)" by (metis prod.collapse)
  have "filename h = filename f"
    using g(2) compress_testcancel_spec [OF tc] by (auto simp: may_cancel_def)
  then have "name_ok (filename (h\<lparr>status := status h - {COMPRESSING}\<rparr>))" using assms(3) by simp
  then obtain res where "replace_compressed cfg (h\<lparr>status := status h - {COMPRESSING}\<rparr>) ddb (j_fd j) (j_fd_temp j)
      (j_temp j) (j_stat j) (j_comp j) r w2 = Some res"
    using replace_compressed_total by blast
  then show ?thesis using m g(1) tc by (cases res) (auto simp: do_compress_end_def Let_def)
qed

lemma thread_end_total:
  assumes "fs_ok R (Compressing i j) s" and "table_ok (fs_cfg s) decode" and "job_ready (fs_cfg s) j (wd s)"
  shows "\<exists>t ddb db w. thread_end (fs_cfg s) mhash pid (Compressing i j) (fs_ddb s) (fs_db s) (wd s) = Some (t, ddb, db, w)"
proof -
  obtain f where f: "files (fs_db s) i = Some f"
    using taken_exists [OF assms(1), of i] by (auto simp: taken_def working_def)
  have n: "name_ok (filename f)" using fdb_inv_name [OF fs_okD(1) [OF assms(1)] f] by simp
  obtain g ddb w where g: "do_compress_end (fs_cfg s) f (fs_ddb s) j (wd s) = Some (g, ddb, w)"
    using do_compress_end_total [OF assms(2,3) n] by (metis prod_cases3)
  have "filename g = filename f"
    using settled_same_file [OF settled_compress_end [OF fs_okD(5) [OF assms(1)] g]] by (simp add: same_file_def)
  then obtain res where "thread_done (fs_cfg s) i False g ddb (fs_db s) w = Some res"
    using thread_done_total n by metis
  then show ?thesis using f g by (cases res) (simp add: thread_end_def)
qed

text \<open>What the end of a compression leaves of the file's flags.\<close>

lemma thread_end_compressing:
  assumes "fs_ok R (Compressing i j) s" and "files (fs_db s) i = Some f"
    and "thread_end (fs_cfg s) mhash pid (Compressing i j) (fs_ddb s) (fs_db s) (wd s) = Some (t, ddb, db, w)"
  shows "\<exists>g. files db i = Some g \<and> filename g = filename f \<and> COMPRESSING \<notin> status g \<and> DECOMPRESSING \<notin> status g \<and>
    (DEDUPING \<in> status g \<longrightarrow> DEDUPING \<in> status f) \<and> accesses g = 0"
proof -
  obtain g ddb1 v where e: "do_compress_end (fs_cfg s) f (fs_ddb s) j (wd s) = Some (g, ddb1, v)"
    "thread_done (fs_cfg s) i False g ddb1 (fs_db s) v = Some (t, ddb, db, w)"
    using assms(2,3) by (auto simp: thread_end_def bind_eq_Some_conv)
  note sg = settled_compress_end [OF fs_okD(5) [OF assms(1)] e(1)]
  obtain h where h: "settled g h" "status h = status g" "db = put_file i (h\<lparr>accesses := accesses h - 1\<rparr>) (fs_db s)"
    using thread_done_cases [OF e(2)] by blast
  have "work_ok (Compressing i j) i f" by (rule fs_okD(3) [OF assms(1,2)])
  then show ?thesis
    using h compress_end_status [OF e(1)] settled_trans [OF sg h(1)] sg
    by (auto simp: work_ok_def working_def settled_def same_file_def)
qed

section \<open>What the end of a compression does to the files\<close>

text \<open>
  The others have left the job alone: the file still has the bytes it had when the compression began,
  and the temporary file is another one, known by its name only.
\<close>

definition job_intact :: "config \<Rightarrow> compress_job \<Rightarrow> path \<Rightarrow> byte list \<Rightarrow> world \<Rightarrow> bool" where
  "job_intact cfg j p bs w \<longleftrightarrow>
     module_of cfg (j_comp j) \<noteq> None \<and> world_ok w \<and> contents w p = Some bs \<and> p \<noteq> j_temp j \<and>
     st_size (j_stat j) = int (length bs) \<and> at_end w (j_fd_temp j) \<and> separate w (j_fd j) (j_fd_temp j) \<and>
     (\<exists>n. names w (j_temp j) = Some n \<and> ino_of w (j_fd_temp j) = Some n \<and>
        (\<forall>q. names w q = Some n \<longrightarrow> q = j_temp j))"

text \<open>Without the name of the temporary file, the state is one that the end of the compression keeps.\<close>

definition without_name :: "path \<Rightarrow> world \<Rightarrow> world" where
  "without_name t w = w\<lparr>names := (names w)(t := None)\<rparr>"

lemma without_name:
  assumes "world_ok w"
  shows "world_ok (without_name t w)" "kept (without_name t w) w" "names (without_name t w) t = None"
    "q \<noteq> t \<Longrightarrow> contents (without_name t w) q = contents w q"
  using assms by (auto simp: without_name_def world_ok_def kept_def contents_def file_of_def)

definition job_header :: "config \<Rightarrow> compress_job \<Rightarrow> byte list \<Rightarrow> world \<Rightarrow> bool" where
  "job_header cfg j bs w \<longleftrightarrow>
     can_read w (j_fd j) \<and> rest_of w (j_fd j) = bs \<and> int (length bs) < 2 ^ 63 \<and>
     (\<forall>m. module_of cfg (j_comp j) = Some m \<longrightarrow>
        data_of w (j_fd_temp j) = header_bytes (new_header m (int (length bs))))"

lemma do_compress_end_contents:
  assumes "table_ok cfg decode" and "job_intact cfg j (filename f) bs w" and "name_ok (filename f)"
  shows "\<exists>f' ddb' w'. do_compress_end cfg f ddb j w = Some (f', ddb', w') \<and>
    outcome_ok (without_name (j_temp j) w) w' f f' bs (j_comp j)
      (\<lambda>new. clean w \<and> job_header cfg j bs w \<longrightarrow> compressed_form cfg decode (j_comp j) bs new) (int (length bs))"
proof -
  obtain m n where j: "module_of cfg (j_comp j) = Some m" "world_ok w" "contents w (filename f) = Some bs"
    "filename f \<noteq> j_temp j" "st_size (j_stat j) = int (length bs)" "at_end w (j_fd_temp j)"
    "separate w (j_fd j) (j_fd_temp j)" "names w (j_temp j) = Some n" "ino_of w (j_fd_temp j) = Some n"
    "\<forall>q. names w q = Some n \<longrightarrow> q = j_temp j"
    using assms(2) unfolding job_intact_def not_None_eq by blast
  let ?w0 = "without_name (j_temp j) w"
  note w0 = without_name [OF j(2), where t = "j_temp j"]
  have c0: "contents ?w0 (filename f) = Some bs" using w0(4) [OF j(4)] j(3) by simp
  have n0: "next_ino ?w0 \<le> n \<or> (\<forall>p. names ?w0 p \<noteq> Some n)" using j(10) by (simp add: without_name_def) blast?
  have P: "(\<lambda>new. clean w \<and> job_header cfg j bs w \<longrightarrow> compressed_form cfg decode (j_comp j) bs new) =
      (\<lambda>new. clean w \<and> can_read w (j_fd j) \<and> rest_of w (j_fd j) = bs \<and> int (length bs) < 2 ^ 63 \<and>
         data_of w (j_fd_temp j) = header_bytes (new_header m (int (length bs))) \<longrightarrow>
         compressed_form cfg decode (j_comp j) bs new)"
    using j(1) by (simp add: job_header_def)
  show ?thesis
    unfolding P by (rule compress_end_spec [OF assms(1) j(1) w0(2,1) c0 assms(3) w0(3) j(8) n0 j(9,6,7,5)])
qed

lemma thread_done_result:
  assumes "name_ok (filename f)"
  shows "\<exists>b ddb'. thread_done cfg i is_dedup f ddb db w =
    Some (Waiting, ddb', put_file i (f\<lparr>deduped := b, accesses := accesses f - 1\<rparr>) db, w)"
proof -
  obtain ddb' where d: "dedup_discard f ddb = Some (f\<lparr>deduped := False\<rparr>, ddb')"
    using dedup_discard_total [OF assms] by blast
  show ?thesis
  proof (cases "\<not> is_dedup \<and> dedup_enabled cfg")
    case True
    then show ?thesis using d by (auto simp: thread_done_def)
  next
    case False
    then show ?thesis by (intro exI [of _ "deduped f"] exI [of _ ddb]) (auto simp: thread_done_def)
  qed
qed

end
