(* ===== verification/SystemProps.thy ===== *)
theory SystemProps
  imports Waiting CompressProps
begin

text \<open>
  The properties of a mounted file system: what holds in every reachable state, who may touch a
  file while the thread works on it, that waiting ends, what descriptors lead to, and three ways in
  which the program loses its lock discipline.
\<close>

section \<open>Concrete states\<close>

definition ex_db :: "file_t \<Rightarrow> fdb" where
  "ex_db f = \<lparr>files = [0 \<mapsto> f], database = [0], db_entries = 1, comp_queue = [], comp_entries = 0, next_fid = 1\<rparr>"

definition ex_fs :: "file_t \<Rightarrow> world \<Rightarrow> fs" where
  "ex_fs f w = \<lparr>wd = w, fs_db = ex_db f, fs_ddb = dedup_init_db, fs_cfg = ex_cfg, next_desc = 1, held = {}, db_locked = False\<rparr>"




lemma ex_modules_keep: "modules_keep ex_cfg"
  using null_keeps by (auto simp: modules_keep_def ex_module module_null_def)

lemma ex_file_name: "name_ok ''f''" "filename_hash ex_file = hash_of ''f''" "filename ex_file = ''f''"
  by (code_simp, code_simp, code_simp)

lemma ex_fs_ok:
  assumes "filename f = ''f''" and "filename_hash f = hash_of ''f''"
    and "accesses f = int (length (head f) + holders R t 0)" and "\<And>i. i \<noteq> 0 \<Longrightarrow> holders R t i = 0"
    and "distinct (map d_id (head f))" and "\<forall>d \<in> set (head f). d_id d < 1"
    and "\<And>i p. (i, p) \<in> set R \<Longrightarrow> i = 0 \<and> p = ''f''" and "work_ok t 0 f"
  shows "fs_ok R t (ex_fs f w)"
  using assms ex_modules_keep ex_file_name(1)
  by (auto simp: fs_ok_def ex_fs_def ex_db_def fdb_inv_def file_ok_def uses_def descs_ok_def desc_ids_def)



section \<open>Reachable states\<close>



section \<open>The thread alone\<close>




section \<open>Waiting ends\<close>



section \<open>An interrupted compression\<close>







section \<open>Assertions\<close>

text \<open>
  C26: The two assertions about the number of users never fail. When the thread gets the lock of the
  entry it took from the queue, the entry still exists and has a user. When a rename comes to its
  last step, it holds two different entries, and once it has given up its own two accesses,
  \<open>direct_rename\<close> finds at most one user left of the old name: it returns.
\<close>

theorem user_counts_suffice:
  assumes "sys_ok S"
  shows "(\<forall>i b. thread S = Took i b \<longrightarrow> (\<exists>f. files (fs_db (fsys S)) i = Some f \<and> 0 < accesses f)) \<and>
    (\<forall>us vs from to i j w. renames S = us @ Renaming from to i (Some j) # vs \<longrightarrow>
       i \<noteq> j \<and> (\<exists>f g. files (fs_db (fsys S)) i = Some f \<and> files (fs_db (fsys S)) j = Some g \<and>
         direct_rename i j (put_file j (g\<lparr>accesses := accesses g - 1\<rparr>)
           (put_file i (f\<lparr>accesses := accesses f - 1\<rparr>) (fs_db (fsys S)))) w \<noteq> None))"
proof (intro conjI allI impI)
  note ok = sys_okD(1) [OF assms]
  fix i b assume t: "thread S = Took i b"
  then have tk: "taken (thread S) = Some i" by (simp add: taken_def)
  obtain f where f: "files (fs_db (fsys S)) i = Some f" using taken_exists [OF ok tk] .
  then show "\<exists>f. files (fs_db (fsys S)) i = Some f \<and> 0 < accesses f" using taken_used [OF ok tk f] by blast
next
  fix us vs "from" to i j assume r: "renames S = us @ Renaming from to i (Some j) # vs"
  show "i \<noteq> j" using rename_apart(1) [OF assms r] by blast
  fix w
  show "\<exists>f g. files (fs_db (fsys S)) i = Some f \<and> files (fs_db (fsys S)) j = Some g \<and>
         direct_rename i j (put_file j (g\<lparr>accesses := accesses g - 1\<rparr>)
           (put_file i (f\<lparr>accesses := accesses f - 1\<rparr>) (fs_db (fsys S)))) w \<noteq> None"
    using rename_returns [OF assms r] by blast
qed

definition ex_took :: sys where
  "ex_took = \<lparr>fsys = ex_fs (ex_file\<lparr>accesses := 1\<rparr>) (ex_world []), thread = Took 0 False, renames = []\<rparr>"

lemma ex_took_ok: "sys_ok ex_took"
  using ex_file_name
  by (auto simp: sys_ok_def ex_took_def apart_def holders_def taken_def working_def work_ok_def
      intro!: ex_fs_ok) (simp_all add: ex_file_def)

theorem user_counts_suffice_witness:
  "\<exists>f. files (fs_db (fsys ex_took)) 0 = Some f \<and> 0 < accesses f"
proof -
  have "thread ex_took = Took 0 False" by (simp add: ex_took_def)
  from conjunct1 [OF user_counts_suffice [OF ex_took_ok], rule_format, OF this] show ?thesis .
qed

section \<open>Descriptors\<close>


definition ex_open :: sys where
  "ex_open = \<lparr>fsys = ex_fs (ex_file\<lparr>accesses := 1,
     head := [\<lparr>d_id = 0, d_fd = 3, d_flags = {}, d_handle = None, d_offset = 0\<rparr>]\<rparr>) (ex_fds []),
     thread = Waiting, renames = []\<rparr>"

lemma ex_open_ok: "sys_ok ex_open"
  using ex_file_name
  by (auto simp: sys_ok_def ex_open_def apart_def holders_def taken_def working_def work_ok_def
      intro!: ex_fs_ok) (simp_all add: ex_file_def)


text \<open>
  C28: Opening gives out a new descriptor of the file with that name, and releasing it takes it away
  again. The reply \<open>Ok d\<close> of an open is a descriptor that led nowhere before and leads to the entry
  of the path afterwards; after a successful release it leads nowhere.
\<close>

theorem open_release_descriptor:
  assumes "sys_ok S" and "path_ok path" and "fusecompress_open path flags (fsys S) = Some (Ok d, s)"
  shows "desc_file d (fs_db (fsys S)) = None \<and>
    (\<exists>i f. desc_file d (fs_db s) = Some i \<and> files (fs_db s) i = Some f \<and>
       fusecompress_getpath path = Some (filename f)) \<and>
    (\<forall>s'. fusecompress_release d s = Some (Ok (), s') \<longrightarrow> desc_file d (fs_db s') = None)"
proof -
  note ok = sys_okD(1) [OF assms(1)]
  have ok': "fs_ok (holds (renames S)) (thread S) s" by (rule fusecompress_open_ok [OF ok assms(2,3)])
  obtain i f where o: "d = next_desc (fsys S)" "files (fs_db s) i = Some f" "d \<in> d_id ` set (head f)"
    "fusecompress_getpath path = Some (filename f)"
    using fusecompress_open_result [OF ok assms(2,3)] by blast
  have "desc_file d (fs_db (fsys S)) = None"
  proof (rule ccontr)
    assume "desc_file d (fs_db (fsys S)) \<noteq> None"
    then obtain a g where "files (fs_db (fsys S)) a = Some g" "d \<in> d_id ` set (head g)"
      using desc_file_iff [OF fs_okD(1,2) [OF ok]] by blast
    then have "d \<in> set (desc_ids (fs_db (fsys S)) a)" by (auto simp: desc_ids_def)
    then have "d < next_desc (fsys S)" using fs_okD(2) [OF ok] unfolding descs_ok_def by blast
    then show False using o(1) by simp
  qed
  moreover have "desc_file d (fs_db s) = Some i"
    using desc_file_iff [OF fs_okD(1,2) [OF ok']] o(2,3) by blast
  moreover have "desc_file d (fs_db s') = None" if "fusecompress_release d s = Some (Ok (), s')" for s'
    by (rule fusecompress_release_result [OF ok' that])
  ultimately show ?thesis using o(2,4) by blast
qed

theorem open_release_descriptor_witness:
  "\<exists>d s. fusecompress_open ''/f'' {O_RDWR} (fsys ex_open) = Some (Ok d, s) \<and> desc_file d (fs_db (fsys ex_open)) = None"
proof -
  have "map_option (\<lambda>(r, s). r) (fusecompress_open ''/f'' {O_RDWR} (fsys ex_open)) = Some (Ok 1)" by code_simp
  then obtain s where s: "fusecompress_open ''/f'' {O_RDWR} (fsys ex_open) = Some (Ok 1, s)" by auto
  have "path_ok ''/f''" using ex_file_name(1) by (simp add: path_ok_def fusecompress_getpath_def)
  from open_release_descriptor [OF ex_open_ok this s] s show ?thesis by blast
qed

text \<open>
  C27: A rename takes the open descriptors along. When the last step of a rename succeeds, every
  descriptor that led to the entry of the old name leads to the entry of the new one afterwards,
  those of other entries lead where they led, and the old entry is marked as deleted with nobody
  having it open; in the queue, the new entry takes the place of the old one.
\<close>

theorem rename_moves_descriptors:
  assumes "sys_ok S" and "renames S = us @ Renaming from to i (Some j) # vs"
    and "finish_rename from to i j (fsys S) = Some (Ok (), s)"
  shows "desc_file d (fs_db s) = (if desc_file d (fs_db (fsys S)) = Some i then Some j else desc_file d (fs_db (fsys S))) \<and>
    (\<exists>f. files (fs_db s) i = Some f \<and> deleted f \<and> head f = []) \<and>
    comp_queue (fs_db s) = map (\<lambda>e. (if fst e = i then j else fst e, snd e)) (comp_queue (fs_db (fsys S)))"
proof -
  obtain a b where n: "fusecompress_getpath from = Some a" "fusecompress_getpath to = Some b"
    and ok: "fs_ok ((i, a) # (j, b) # holds (us @ vs)) (thread S) (fsys S)"
    using rename_apart(2) [OF assms(1,2)] by blast
  note ij = rename_apart(1) [OF assms(1,2)]
  have run: "rename_entries a b i j (fsys S) = Some (Ok (), s)"
    using assms(3) n by (auto simp: finish_rename_def split: if_split_asm)
  have ok': "fs_ok (holds (us @ vs)) (thread S) s"
    by (rule finish_rename_ok [OF assms(1-3)]) simp
  obtain f g where e: "files (fs_db (fsys S)) i = Some f" "files (fs_db (fsys S)) j = Some g"
    using fs_okD(4) [OF ok, of i a] fs_okD(4) [OF ok, of j b] by auto
  obtain f' g' where r: "files (fs_db s) = (files (fs_db (fsys S)))(i \<mapsto> f', j \<mapsto> g')"
    "head f' = []" "deleted f'" "map d_id (head g') = rev (map d_id (head f)) @ map d_id (head g)"
    "comp_queue (fs_db s) = map (\<lambda>e. (if fst e = i then j else fst e, snd e)) (comp_queue (fs_db (fsys S)))"
    using rename_entries_result [OF ok, of i a j b a b s f g] ij rename_apart(3) [OF assms(1,2)] run e by auto
  have u: "d \<in> set (desc_ids (fs_db (fsys S)) k) \<Longrightarrow> d \<in> set (desc_ids (fs_db (fsys S)) l) \<Longrightarrow> k = l" for k l
    using fs_okD(2) [OF ok] unfolding descs_ok_def by blast
  note iff = desc_file_ids [OF ok'] desc_file_ids [OF ok]
  have ids: "desc_ids (fs_db s) k = (if k = i then [] else if k = j
      then rev (desc_ids (fs_db (fsys S)) i) @ desc_ids (fs_db (fsys S)) j else desc_ids (fs_db (fsys S)) k)" for k
    using r(1,2,4) e ij by (simp add: desc_ids_def)
  have "desc_file d (fs_db s) = Some k \<longleftrightarrow>
      (if desc_file d (fs_db (fsys S)) = Some i then Some j else desc_file d (fs_db (fsys S))) = Some k" for k
    using iff ids ij u [of i k] by (auto split: if_split_asm)
  then have "desc_file d (fs_db s) = (if desc_file d (fs_db (fsys S)) = Some i then Some j else desc_file d (fs_db (fsys S)))"
    by (metis not_Some_eq)
  then show ?thesis using r(1-3,5) ij by simp
qed

definition ex_rename :: sys where
  "ex_rename = \<lparr>fsys = (ex_fs ex_file (ex_fds [1, 2]))\<lparr>fs_db :=
       \<lparr>files = [0 \<mapsto> ex_file\<lparr>accesses := 2, head := [\<lparr>d_id = 0, d_fd = 3, d_flags = {}, d_handle = None, d_offset = 0\<rparr>]\<rparr>,
                1 \<mapsto> ex_file\<lparr>filename := ''g'', filename_hash := hash_of ''g'', accesses := 1\<rparr>],
        database = [0, 1], db_entries = 2, comp_queue = [], comp_entries = 0, next_fid = 2\<rparr>\<rparr>,
     thread = Waiting, renames = [Renaming ''/f'' ''/g'' 0 (Some 1)]\<rparr>"

lemma ex_rename_ok: "sys_ok ex_rename"
proof -
  have "name_ok ''g''" by code_simp
  then show ?thesis
    using ex_file_name ex_modules_keep
    by (auto simp: sys_ok_def ex_rename_def apart_def path_pair_ok_def path_ok_def fusecompress_getpath_def fs_ok_def
        ex_fs_def fdb_inv_def file_ok_def uses_def holders_def taken_def working_def work_ok_def descs_ok_def desc_ids_def
        split: if_split_asm) (simp_all add: ex_file_def)
qed

theorem rename_moves_descriptors_witness:
  "\<exists>s. finish_rename ''/f'' ''/g'' 0 1 (fsys ex_rename) = Some (Ok (), s) \<and> desc_file 0 (fs_db s) = Some 1"
proof -
  have "map_option (\<lambda>(r, s). r) (finish_rename ''/f'' ''/g'' 0 1 (fsys ex_rename)) = Some (Ok ())" by code_simp
  then obtain s where s: "finish_rename ''/f'' ''/g'' 0 1 (fsys ex_rename) = Some (Ok (), s)" by auto
  have "renames ex_rename = [] @ Renaming ''/f'' ''/g'' 0 (Some 1) # []" by (simp add: ex_rename_def)
  from rename_moves_descriptors [OF ex_rename_ok this s, of 0]
  have "desc_file 0 (fs_db (fsys ex_rename)) = Some 0 \<longrightarrow> desc_file 0 (fs_db s) = Some 1" by simp
  moreover have "desc_file 0 (fs_db (fsys ex_rename)) = Some 0" by code_simp
  ultimately show ?thesis using s by blast
qed

section \<open>Where the lock discipline breaks\<close>

text \<open>
  C30: A failed deduplication blocks its file. When the sum of a file cannot be computed, the thread's
  turn ends with DEDUPING still set: the thread goes on to other work, but whoever wants to open,
  truncate or unlink the file is told to wait for it.
\<close>

theorem dedup_failure_blocks:
  assumes "sys_ok S" and "thread S = Deduping i" and "files (fs_db (fsys S)) i = Some f"
    and "dedup_hash_file (fs_cfg (fsys S)) mhash (filename f) (wd (fsys S)) = Some (None, w1)"
    and "held (fsys S) = {}" and "\<not> db_locked (fsys S)"
  shows "\<exists>S'. step mhash pid S S' \<and> thread S' = Waiting \<and>
    (\<exists>s. open_entry (filename f) True (fsys S') = Some (Waits i, s))"
proof -
  let ?s = "fsys S"
  note ok = sys_okD(1) [OF assms(1)]
  have wf: "DEDUPING \<in> status f" using fs_okD(3) [OF ok assms(3)] assms(2) by (simp add: work_ok_def)
  obtain c f1 w2 where tc: "compress_testcancel f w1 = ((c, f1), w2)" by (metis prod.collapse)
  then have f1: "filename f1 = filename f" "DEDUPING \<in> status f1"
    using compress_testcancel_spec [OF tc] wf by (auto simp: may_cancel_def)
  define g where "g = f1\<lparr>deduped := True, accesses := accesses f1 - 1\<rparr>"
  have e: "thread_end (fs_cfg ?s) mhash pid (thread S) (fs_ddb ?s) (fs_db ?s) (wd ?s) =
      Some (Waiting, fs_ddb ?s, put_file i g (fs_db ?s), w2)"
    using assms(2-4) tc by (simp add: thread_end_def do_dedup_end_def thread_done_def g_def)
  define S' where "S' = S\<lparr>fsys := ?s\<lparr>fs_db := put_file i g (fs_db ?s), fs_ddb := fs_ddb ?s, wd := w2\<rparr>, thread := Waiting\<rparr>"
  have st: "step mhash pid S S'"
    unfolding S'_def by (rule step.end_work [of _ i]) (use assms(2,5) e in \<open>simp_all add: working_def\<close>)
  have ok': "fs_ok (holds (renames S')) (thread S') (fsys S')"
    by (rule sys_okD(1) [OF step_ok [OF st assms(1)]])
  have "files (fs_db (fsys S')) i = Some g" "\<not> db_locked (fsys S')" "held (fsys S') = {}" "filename g = filename f" "busy g"
    using f1 assms(5,6) by (simp_all add: S'_def g_def busy_def)
  then have "\<exists>s. open_entry (filename f) True (fsys S') = Some (Waits i, s)"
    using open_entry_present [OF ok', of i g] by (auto simp: open_hangs_def list_ex_iff)
  then show ?thesis using st by (intro exI [of _ S']) (simp add: S'_def)
qed

definition ex_dedup :: sys where
  "ex_dedup = \<lparr>fsys = ex_fs (ex_file\<lparr>accesses := 1, status := {DEDUPING}\<rparr>) ((ex_world [1])\<lparr>script := [Fault EIO]\<rparr>),
     thread = Deduping 0, renames = []\<rparr>"

lemma ex_dedup_ok: "sys_ok ex_dedup"
  using ex_file_name
  by (auto simp: sys_ok_def ex_dedup_def apart_def holders_def taken_def working_def work_ok_def
      intro!: ex_fs_ok) (simp_all add: ex_file_def)

theorem dedup_failure_blocks_witness:
  "\<exists>S'. step id ''1'' ex_dedup S' \<and> thread S' = Waiting \<and>
     (\<exists>s. open_entry ''f'' True (fsys S') = Some (Waits 0, s))"
proof -
  let ?f = "ex_file\<lparr>accesses := 1, status := {DEDUPING}\<rparr>"
  have "map_option fst (dedup_hash_file (fs_cfg (fsys ex_dedup)) id (filename ?f) (wd (fsys ex_dedup))) = Some None"
    by code_simp
  then obtain w1 where h: "dedup_hash_file (fs_cfg (fsys ex_dedup)) id (filename ?f) (wd (fsys ex_dedup)) = Some (None, w1)"
    by auto
  have "thread ex_dedup = Deduping 0" "files (fs_db (fsys ex_dedup)) 0 = Some ?f" "held (fsys ex_dedup) = {}"
    "\<not> db_locked (fsys ex_dedup)" "filename ?f = ''f''"
    by (simp_all add: ex_dedup_def ex_fs_def ex_db_def ex_file_def)
  then show ?thesis using dedup_failure_blocks [OF ex_dedup_ok _ _ h, of 0 "''1''"] by simp
qed




end
