(* ===== verification/Fsck.thy ===== *)
theory Fsck
  imports DedupFs DedupSave
begin

text \<open>
  \<^verbatim>\<open>tools/fsck.c\<close>, the tool that looks for broken files in a backing directory that is not mounted.
  \<open>nftw\<close> walks the directory; \<open>checkfile\<close> is called for each entry with its path, where the last name
  begins in it, and its mode. Messages are not modelled. As in \<open>DedupFs\<close>, \<open>mhash\<close> computes the sum
  and \<open>pid\<close> is the number of the process.
\<close>

datatype fsck_error =
  BROKEN_HEADER | FAIL_OPEN | FAIL_READ | FAIL_OPEN_DECOMP | FAIL_READ_DECOMP | SHORT_READ_DECOMP
| FAIL_CLOSE_DECOMP | STALE_TEMP

text \<open>The globals that are not only for messages.\<close>

record fsck =
  unlink_enabled :: bool
  rebuild_dedup_db :: bool
  dedup_now :: bool
  errors_found :: int
  errors_fixed :: int
  warnings :: int

definition do_unlink :: "fsck \<Rightarrow> path \<Rightarrow> world \<Rightarrow> fsck \<times> world" where
  "do_unlink g fpath w =
     (if unlink_enabled g then (g\<lparr>errors_fixed := errors_fixed g + 1\<rparr>, snd (sys_unlink fpath w)) else (g, w))"

text \<open>\<open>fix\<close>; an error outside the list is only counted.\<close>

definition fix_error :: "int \<Rightarrow> path \<Rightarrow> fsck_error \<Rightarrow> fsck \<Rightarrow> world \<Rightarrow> int \<times> fsck \<times> world" where
  "fix_error fd fpath error g w =
     (let g = g\<lparr>errors_found := errors_found g + 1\<rparr>;
          (g, w) = (if error \<in> {BROKEN_HEADER, FAIL_READ_DECOMP, SHORT_READ_DECOMP, STALE_TEMP}
                    then do_unlink g fpath w else (g, w))
      in (0, g, snd (sys_close fd w)))"

definition warn :: "fsck \<Rightarrow> fsck" where
  "warn g = g\<lparr>warnings := warnings g + 1\<rparr>"

definition BUFSIZE :: nat where "BUFSIZE = 131072"

text \<open>
  The loop that reads the data, with the data read so far for the sum. A negative size, which a
  header can claim, would be an unsigned length far beyond the buffer.
\<close>

partial_function (option) check_data ::
  "compressor_t \<Rightarrow> handle \<Rightarrow> off \<Rightarrow> byte list \<Rightarrow> world \<Rightarrow> ((fsck_error option \<times> byte list \<times> handle) \<times> world) option" where
  [code]: "check_data compr handle sz data w =
     (if sz = 0 then Some ((None, data, handle), w)
      else if sz < 0 then None
      else do {
        ((res, bs, handle), w) \<leftarrow> cread compr handle (if sz > int BUFSIZE then BUFSIZE else nat sz) w;
        if res < 0 then Some ((Some FAIL_READ_DECOMP, data, handle), w)
        else if res = 0 then Some ((Some SHORT_READ_DECOMP, data, handle), w)
        else check_data compr handle (sz - res) (data @ bs) w
      })"

text \<open>
  A compressed file, from the header on. The result is an error, or the data that were read. The
  compressor of an unknown header is NULL or not set at all.
\<close>

definition check_compressed ::
  "config \<Rightarrow> int \<Rightarrow> world \<Rightarrow> ((fsck_error option \<times> byte list) \<times> world) option" where
  "check_compressed cfg fd w = do {
     let w = snd (sys_lseek fd 0 SEEK_SET w);
     (res, compr, size, w) \<leftarrow> file_read_header_fd cfg fd None 0 w;
     if res = FAIL then Some ((Some BROKEN_HEADER, []), w)
     else do {
       c \<leftarrow> compr;
       m \<leftarrow> module_of cfg c;
       (handle, w) \<leftarrow> copen m fd ''r'' w;
       case handle of
         None \<Rightarrow> Some ((Some FAIL_OPEN_DECOMP, []), w)
       | Some h \<Rightarrow> do {
           ((err, data, h), w) \<leftarrow> check_data m h size [] w;
           case err of
             Some e \<Rightarrow> Some ((Some e, data), w)
           | None \<Rightarrow> do {
               (res, w) \<leftarrow> cclose m h w;
               Some ((if res < 0 then Some FAIL_CLOSE_DECOMP else None, data), w)
             }
         }
     }
   }"

text \<open>
  The entry of the file in the rebuilt deduplication database; \<open>fpath + 2\<close> is the path without \<open>./\<close>.
  When the sum cannot be computed, \<open>md5\<close> is used without a value.
\<close>

definition rebuild_entry ::
  "config \<Rightarrow> (byte list \<Rightarrow> byte list) \<Rightarrow> string \<Rightarrow> byte list option \<Rightarrow> path \<Rightarrow> fsck \<Rightarrow> dedup_db \<Rightarrow> world \<Rightarrow>
   (dedup_db \<times> world) option" where
  "rebuild_entry cfg mhash pid data fpath g ddb w = do {
     (md5, w) \<leftarrow> (case data of
         Some bs \<Rightarrow> Some (Some (mhash bs), w)
       | None \<Rightarrow> dedup_hash_file cfg mhash fpath w);
     md5 \<leftarrow> md5;
     if dedup_now g then do {
       (_, ddb, w) \<leftarrow> hardlink_file pid md5 (drop 2 fpath) ddb w;
       Some (ddb, w)
     }
     else if \<not> dedup_db_has_md5 md5 ddb then do { ddb \<leftarrow> dedup_add md5 (drop 2 fpath) ddb; Some (ddb, w) }
     else Some (ddb, w)
   }"

definition checkfile ::
  "config \<Rightarrow> (byte list \<Rightarrow> byte list) \<Rightarrow> string \<Rightarrow> path \<Rightarrow> nat \<Rightarrow> nat \<Rightarrow> fsck \<Rightarrow> dedup_db \<Rightarrow> world \<Rightarrow>
   (int \<times> fsck \<times> dedup_db \<times> world) option" where
  "checkfile cfg mhash pid fpath mode base g ddb w =
     (if \<not> S_ISREG mode then Some (0, g, ddb, w)
      else
        (let (fd, w) = file_open fpath {} w; name = drop base fpath
         in if fd < 0 then Some (0, warn g, ddb, w)
            else if strncmp_prefix name TEMP \<or> strncmp_prefix name FUSE then
              (let (r, g, w) = fix_error fd fpath STALE_TEMP g w in Some (r, g, ddb, w))
            else if strncmp_prefix name FUSECOMPRESS_PREFIX then Some (0, g, ddb, snd (sys_close fd w))
            else
              (let ((r, m), w) = sys_read fd 3 w
               in if r < 0 then (let (r, g, w) = fix_error fd fpath FAIL_READ g w in Some (r, g, ddb, w))
                  else do {
                    ((err, data), w) \<leftarrow>
                      (if m = magic then do {
                         ((err, data), w) \<leftarrow> check_compressed cfg fd w;
                         Some ((err, Some data), w)
                       }
                       else Some ((None, None), snd (sys_close fd w)));
                    case err of
                      Some e \<Rightarrow> (let (r, g, w) = fix_error fd fpath e g w in Some (r, g, ddb, w))
                    | None \<Rightarrow>
                        if rebuild_dedup_db g then do {
                          (ddb, w) \<leftarrow> rebuild_entry cfg mhash pid data fpath g ddb w;
                          Some (0, g, ddb, w)
                        }
                        else Some (0, g, ddb, w)
                  })))"

section \<open>The program\<close>

text \<open>\<open>nftw\<close> calls \<open>checkfile\<close> for each entry and goes on as long as it returns 0, which it always does.\<close>

fun check_all ::
  "config \<Rightarrow> (byte list \<Rightarrow> byte list) \<Rightarrow> string \<Rightarrow> (path \<times> nat \<times> nat) list \<Rightarrow> fsck \<Rightarrow> dedup_db \<Rightarrow> world \<Rightarrow>
   (fsck \<times> dedup_db \<times> world) option" where
  "check_all cfg mhash pid [] g ddb w = Some (g, ddb, w)"
| "check_all cfg mhash pid ((fpath, mode, base) # es) g ddb w = do {
     (r, g, ddb, w) \<leftarrow> checkfile cfg mhash pid fpath mode base g ddb w;
     if r \<noteq> 0 then Some (g, ddb, w) else check_all cfg mhash pid es g ddb w
   }"

definition exit_code :: "fsck \<Rightarrow> int" where
  "exit_code g =
     (if errors_found g = 0 then 0 else if errors_found g > errors_fixed g then 4 else 1)"

text \<open>From the scan of the directory on.\<close>

definition fsck_main ::
  "config \<Rightarrow> (byte list \<Rightarrow> byte list) \<Rightarrow> string \<Rightarrow> (path \<times> nat \<times> nat) list \<Rightarrow> fsck \<Rightarrow> world \<Rightarrow> (int \<times> world) option" where
  "fsck_main cfg mhash pid es g w = do {
     let w = (if rebuild_dedup_db g then snd (sys_unlink DEDUP_DB_FILE w) else w);
     (g, ddb, w) \<leftarrow> check_all cfg mhash pid es g dedup_init_db w;
     let w = (if rebuild_dedup_db g then dedup_save ddb w else w);
     Some (exit_code g, w)
   }"

end
