(* ===== verification/Offline.thy ===== *)
theory Offline
  imports Compress
begin

text \<open>
  \<^verbatim>\<open>tools/offline.c\<close>, the tool that compresses, decompresses or recompresses the files of a backing
  directory that is not mounted. \<open>nftw\<close> walks the directory and calls \<open>transform\<close> for each entry;
  the arguments it passes are the path, where the last name begins in it, whether the entry is a file,
  and its mode. Messages (\<open>verbose\<close>) and the handler of signals are not modelled.
\<close>

text \<open>The globals: \<open>comp\<close> and \<open>recomp\<close> as indices into the table, \<open>errors\<close>, \<open>current_tmp_file\<close>.\<close>

record offline =
  t_comp :: "nat option"
  t_recomp :: "nat option"
  t_errors :: int
  t_tmp :: "path option"

text \<open>The type of a compressed file as a \<open>char\<close>; -1 for another file and -2 for an error.\<close>

definition is_compressed :: "path \<Rightarrow> world \<Rightarrow> int \<times> world" where
  "is_compressed fpath w =
     (let (fd, w) = sys_open fpath {} 0 w
      in if fd < 0 then (-2, w)
         else
           (let ((r, bs), w) = sys_read fd 4 w;
                w = snd (sys_close fd w);
                buf = take 4 (bs @ replicate 4 0)
            in if r < 0 then (-2, w)
               else if take 3 buf = magic then (sint (buf ! 3), w)
               else (-1, w)))"

text \<open>
  The cookie is NULL, and \<open>compress_testcancel\<close> of the tool never tells to cancel; a model of the
  tool runs in a world without cancellations.
\<close>

definition no_file :: file_t where
  "no_file =
     \<lparr>filename = [], filename_hash = 0, deleted = False, accesses = 0, fsize = 0, fcompressor = None,
      skipped = 0, dontcompress = False, ftype = TYPE_NONE, status = {}, deduped = False, cache = None, head = []\<rparr>"

text \<open>The two branches that fill the temporary file; no size for \<open>goto out\<close>.\<close>

definition transform_compress ::
  "config \<Rightarrow> nat \<Rightarrow> int \<Rightarrow> int \<Rightarrow> stat \<Rightarrow> world \<Rightarrow> (off option \<times> world) option" where
  "transform_compress cfg c fd_s fd_t stbuf w = do {
     let (r, w) = sys_lseek fd_t (int sizeof_header) SEEK_SET w;
     if r < 0 then Some (None, w)
     else do {
       m \<leftarrow> module_of cfg c;
       (size, _, w) \<leftarrow> compress m no_file fd_s fd_t w;
       let (r, w) = sys_lseek fd_t 0 SEEK_SET w;
       if r < 0 then Some (None, w)
       else do {
         (r, w) \<leftarrow> file_write_header fd_t m (st_size stbuf) w;
         Some (if r < 0 then None else Some size, w)
       }
     }
   }"

definition transform_decompress :: "config \<Rightarrow> int \<Rightarrow> int \<Rightarrow> world \<Rightarrow> (off option \<times> world) option" where
  "transform_decompress cfg fd_s fd_t w = do {
     (r, decomp, _, w) \<leftarrow> file_read_header_fd cfg fd_s None 0 w;
     if r < 0 then Some (None, w)
     else do {
       c \<leftarrow> decomp;
       m \<leftarrow> module_of cfg c;
       (size, w) \<leftarrow> decompress m fd_s fd_t w;
       Some (Some size, w)
     }
   }"

text \<open>The label \<open>out\<close>.\<close>

definition transform_out :: "int \<Rightarrow> int \<Rightarrow> path \<Rightarrow> world \<Rightarrow> world" where
  "transform_out fd_s fd_t tmpname w =
     snd (sys_unlink tmpname (snd (sys_close fd_t (snd (sys_close fd_s w)))))"

text \<open>From the filled temporary file on. After the first \<open>goto out\<close> the descriptors are closed again.\<close>

definition transform_replace ::
  "offline \<Rightarrow> path \<Rightarrow> int \<Rightarrow> int \<Rightarrow> path \<Rightarrow> stat \<Rightarrow> world \<Rightarrow> int \<times> offline \<times> world" where
  "transform_replace g fpath fd_s fd_t tmpname stbuf w =
     (let w = snd (sys_close fd_t (snd (sys_close fd_s w)));
          (r, w) = sys_rename tmpname fpath w
      in if r < 0 then (-1, g, transform_out fd_s fd_t tmpname w)
         else
           (let g = g\<lparr>t_tmp := None\<rparr>;
                w = snd (sys_lchown fpath (st_uid stbuf) (st_gid stbuf) w);
                w = snd (sys_chmod fpath (st_mode stbuf) w);
                (r, w) = sys_utime fpath (fst (st_atim stbuf)) (fst (st_mtim stbuf)) w
            in if r < 0 then (-1, g, transform_out fd_s fd_t tmpname w) else (0, g, w)))"

definition transform_file :: "config \<Rightarrow> offline \<Rightarrow> path \<Rightarrow> world \<Rightarrow> (int \<times> offline \<times> world) option" where
  "transform_file cfg g fpath w = do {
     let (fd_s, w) = file_open fpath {} w;
     let ((r, stbuf), w) = sys_fstat fd_s no_stat w;
     if r < 0 then Some (-1, g, w)
     else (case file_create_temp w of
         ((None, fd_t), w) \<Rightarrow> Some (-1, g\<lparr>t_tmp := None\<rparr>, w)
       | ((Some tmpname, fd_t), w) \<Rightarrow> do {
           let g = g\<lparr>t_tmp := Some tmpname\<rparr>;
           (size, w) \<leftarrow> (case t_comp g of
               Some c \<Rightarrow> transform_compress cfg c fd_s fd_t stbuf w
             | None \<Rightarrow> transform_decompress cfg fd_s fd_t w);
           Some (if size = None \<or> size = Some (-1) then (-1, g, transform_out fd_s fd_t tmpname w)
                 else transform_replace g fpath fd_s fd_t tmpname stbuf w)
         })
   }"

text \<open>\<open>recomp && compress_type == recomp->type\<close>\<close>

definition is_recomp :: "config \<Rightarrow> offline \<Rightarrow> int \<Rightarrow> bool" where
  "is_recomp cfg g compress_type =
     (case Option.bind (t_recomp g) (module_of cfg) of None \<Rightarrow> False | Some m \<Rightarrow> compress_type = uint (ctype m))"

text \<open>
  The whole callback. \<open>is_file\<close> is \<open>typeflag == FTW_F\<close>. A file that is to be recompressed is
  decompressed by a call with \<open>comp\<close> NULL, whose result is not looked at.
\<close>

function transform ::
  "config \<Rightarrow> offline \<Rightarrow> path \<Rightarrow> nat \<Rightarrow> bool \<Rightarrow> nat \<Rightarrow> world \<Rightarrow> (int \<times> offline \<times> world) option" where
  "transform cfg g fpath base is_file mode w =
     (if \<not> is_file \<or> \<not> S_ISREG mode then Some (0, g, w)
      else if strncmp_prefix (drop base fpath) FUSECOMPRESS_PREFIX then Some (0, g, w)
      else if t_comp g \<noteq> None \<and> \<not> is_compressible cfg (drop base fpath) then Some (0, g, w)
      else
        (let (ctype0, w) = is_compressed fpath w
         in if ctype0 < -1 then Some (0, g\<lparr>t_errors := t_errors g + 1\<rparr>, w)
            else do {
              (ct, g, w) \<leftarrow>
                (if t_comp g \<noteq> None \<and> is_recomp cfg g ctype0 then do {
                   (_, g', w) \<leftarrow> transform cfg (g\<lparr>t_comp := None\<rparr>) fpath base is_file mode w;
                   Some (-1, g'\<lparr>t_comp := t_comp g\<rparr>, w)
                 }
                 else Some (ctype0, g, w));
              if t_comp g \<noteq> None \<and> ct \<ge> 0 then Some (0, g, w)
              else if t_comp g = None \<and> ct < 0 then Some (0, g, w)
              else transform_file cfg g fpath w
            }))"
  by pat_completeness auto
termination
  by (relation "measure (\<lambda>(cfg, g, fpath, base, is_file, mode, w). if t_comp g = None then 0 else 1)") auto

declare transform.simps [simp del]

end
