(* ===== verification/OfflineFacts.thy ===== *)
theory OfflineFacts
  imports Offline CompressFacts
begin

text \<open>
  What \<open>transform\<close> of \<^verbatim>\<open>tools/offline.c\<close> does to a compressed file when no call fails: the file is
  replaced by its data, and no other file changes.
\<close>

section \<open>Opening a file that is there\<close>

lemma open_present:
  assumes "sys_open p {} m w = (fd, w1)" and "world_ok w" and "clean w" and "contents w p = Some bs"
  shows "fd = int (next_fd w)" and "quiet {} w w1" and "calm w w1" and "next_fd w1 = next_fd w + 1"
    and "\<exists>n. n < next_ino w \<and> ino_of w1 fd = Some n" and "rest_of w1 fd = bs" and "can_read w1 fd"
    and "\<exists>n. names w p = Some n \<and> opened w1 fd n {}"
proof -
  obtain n0 i0 where n0: "names w p = Some n0" "inodes w n0 = Some i0" "idata i0 = bs"
    using assms(4) by (auto simp: contents_def file_of_def bind_eq_Some_conv)
  have "fd \<noteq> FAIL" by (rule open_succeeds [OF assms(1,3) _ n0(1)]) simp
  note q = quiet_open [OF assms(1,2)]
  show q1: "quiet {} w w1" by (rule q(1)) simp_all
  have "fd = int (next_fd w) \<and> next_fd w1 = next_fd w + 1 \<and> opened w1 fd n0 {}"
    using q(2) \<open>fd \<noteq> FAIL\<close> n0(1) by auto
  then have o: "fd = int (next_fd w)" "next_fd w1 = next_fd w + 1" "opened w1 fd n0 {}" by blast+
  show "fd = int (next_fd w)" "next_fd w1 = next_fd w + 1" by (rule o)+
  show "\<exists>n. names w p = Some n \<and> opened w1 fd n {}" using n0(1) o(3) by blast
  show "calm w w1" by (rule calm_open [OF assms(1)]) simp_all
  note v = opened_views [OF o(3) quietD(1) [OF q1]]
  show "\<exists>n. n < next_ino w \<and> ino_of w1 fd = Some n" using v(1) world_ok_inodes [OF assms(2) n0(2)] by auto
  show "can_read w1 fd" using v(4) by simp
  have "map_option idata (inodes w1 n0) = Some bs"
    using quietD(9) [OF q1, of n0] n0 world_ok_inodes [OF assms(2) n0(2)] by simp
  then show "rest_of w1 fd = bs" using v(3) by auto
qed

lemma file_open_present:
  assumes "file_open p {} w = (fd, w1)" and "world_ok w" and "clean w" and "contents w p = Some bs"
  shows "sys_open p {} 0 w = (fd, w1)"
proof -
  obtain fd1 w2 where o: "sys_open p {} 0 w = (fd1, w2)" by fastforce
  have "fd1 \<noteq> FAIL" using open_present(1) [OF o assms(2-4)] by simp
  then show ?thesis using assms(1) o by (auto simp: file_open_def)
qed

section \<open>Looking at the type\<close>

lemma header_in_magic:
  assumes "header_in cfg bs = Some (c, sz)"
  shows "take 3 bs = magic" and "12 \<le> length bs" and "unat (bs ! 3) = c" and "c < length (compressors cfg)"
    and "sz = off_of_u64 (h_size (header_of_bytes (take 12 bs)))"
    and "file_compressor cfg (header_of_bytes (take 12 bs)) = Some (Some c)"
proof -
  have l: "12 \<le> length bs" and f: "file_compressor cfg (header_of_bytes (take 12 bs)) = Some (Some c)"
    and s: "sz = off_of_u64 (h_size (header_of_bytes (take 12 bs)))"
    using assms by (auto simp: header_in_def split: if_splits option.splits)
  show "12 \<le> length bs" "file_compressor cfg (header_of_bytes (take 12 bs)) = Some (Some c)"
    "sz = off_of_u64 (h_size (header_of_bytes (take 12 bs)))" by (rule l f s)+
  have "h_id (header_of_bytes (take 12 bs)) = magic" "find_compressor cfg (header_of_bytes (take 12 bs)) = Some (Some c)"
    using f by (auto simp: file_compressor_def split: if_splits)
  with find_compressor_Some [OF this(2)] show "take 3 bs = magic" "unat (bs ! 3) = c" "c < length (compressors cfg)"
    using l by (auto simp: header_of_bytes_def)
qed

lemma is_compressed_clean:
  assumes "is_compressed p w = (r, w')" and "world_ok w" and "clean w" and "contents w p = Some bs" and "4 \<le> length bs"
  shows "r = (if take 3 bs = magic then sint (bs ! 3) else -1)" and "kept w w'" and "calm w w'"
proof -
  obtain fd w1 where o: "sys_open p {} 0 w = (fd, w1)" by fastforce
  note op = open_present [OF o assms(2-4)]
  obtain rd buf w2 where rd: "sys_read fd 4 w1 = ((rd, buf), w2)" by (metis prod.collapse)
  have c1: "clean w1" using op(3) assms(3) by (simp add: calm_def)
  note cl = sys_read_clean [OF rd c1 op(7)]
  obtain x w3 where c: "sys_close fd w2 = (x, w3)" by fastforce
  have b: "buf = take 4 bs" using cl(1) op(6) by simp
  have run: "is_compressed p w = ((if take 3 bs = magic then sint (bs ! 3) else -1), w3)"
    using o rd c op(1) b cl(2) assms(5) by (simp add: is_compressed_def Let_def min_def)
  then show "r = (if take 3 bs = magic then sint (bs ! 3) else -1)" using assms(1) by simp
  have w': "w' = w3" using run assms(1) by simp
  have k2: "kept w w2"
    using kept_trans [OF quiet_kept [OF op(2)] repositioned_kept [OF sys_read_rest(1) [OF rd] quietD(1) [OF op(2)]]] .
  have "quiet UNIV w2 w3" by (rule quiet_close [OF c keptD(1) [OF k2]]) simp
  then show "kept w w'" using kept_trans [OF k2 quiet_kept] w' by blast
  show "calm w w'" using op(3) calm_read [OF rd] calm_calls(8) [OF c] w' by (auto intro: calm_trans)
qed

section \<open>Replacing the file\<close>

lemma quiet_lchown: "sys_lchown p u g w = (r, w') \<Longrightarrow> world_ok w \<Longrightarrow> quiet C w w'"
  unfolding sys_lchown_def by (erule quiet_on_path) simp_all

lemma calm_lchown: "sys_lchown p u g w = (r, w') \<Longrightarrow> calm w w'"
  unfolding sys_lchown_def by (rule calm_on_path)

lemma transform_replace_clean:
  assumes "kept w0 w" and "world_ok w0" and "names w0 tmp = None" and "contents w0 fpath = Some bs"
    and "names w tmp = Some n" and "next_ino w0 \<le> n" and "contents w tmp = Some out" and "clean w"
  shows "\<exists>w'. transform_replace g fpath fd_s fd_t tmp stbuf w = (0, g\<lparr>t_tmp := None\<rparr>, w') \<and>
    others w0 w' fpath \<and> contents w' fpath = Some out"
proof -
  obtain x1 w1 where c1: "sys_close fd_s w = (x1, w1)" by fastforce
  obtain x2 w2 where c2: "sys_close fd_t w1 = (x2, w2)" by fastforce
  have q1: "quiet UNIV w w1" by (rule quiet_close [OF c1 keptD(1) [OF assms(1)]]) simp
  have q2: "quiet UNIV w w2" by (rule quiet_trans [OF q1 quiet_close [OF c2 quietD(1) [OF q1]]]) simp
  have k2: "kept w0 w2" by (rule kept_trans [OF assms(1) quiet_kept [OF q2]])
  have cl2: "clean w2" by (rule sys_close_clean [OF sys_close_clean [OF assms(8) c1] c2])
  obtain r w3 where rn: "sys_rename tmp fpath w2 = (r, w3)" by fastforce
  have t2: "names w2 tmp = Some n" by (rule quietD(5) [OF q2 assms(5)])
  have out2: "contents w2 tmp = Some out" by (rule quiet_contents [OF q2 keptD(1) [OF assms(1)] assms(7)])
  obtain m i where m: "names w0 fpath = Some m" "inodes w0 m = Some i"
    using assms(4) by (auto simp: contents_def file_of_def bind_eq_Some_conv)
  have "names w2 fpath \<noteq> Some n"
    using keptD(4) [OF k2 m(1)] world_ok_inodes [OF assms(2) m(2)] assms(6) by simp
  note ren = rename_over [OF rn keptD(1) [OF k2] t2 this]
  have r: "r = 0" "clean w3" using rename_succeeds [OF rn cl2 t2] by auto
  then have n3: "names w3 fpath = Some n" "contents w3 fpath = Some out" "world_ok w3"
    "\<forall>q. q \<noteq> fpath \<longrightarrow> q \<noteq> tmp \<longrightarrow> contents w3 q = contents w2 q"
    using ren out2 by auto
  have o3: "others w0 w3 fpath"
    unfolding others_def
  proof (intro conjI allI impI)
    show "world_ok w3" by (rule n3(3))
    fix q b assume q: "q \<noteq> fpath" "contents w0 q = Some b"
    then have "q \<noteq> tmp" using fresh_temp_unnamed [OF assms(3)] by auto
    then show "contents w3 q = Some b" using n3(4) q kept_contents [OF k2 assms(2)] by simp
  qed
  obtain x4 w4 where c4: "sys_lchown fpath (st_uid stbuf) (st_gid stbuf) w3 = (x4, w4)" by fastforce
  obtain x5 w5 where c5: "sys_chmod fpath (st_mode stbuf) w4 = (x5, w5)" by fastforce
  obtain x6 w6 where c6: "sys_utime fpath (fst (st_atim stbuf)) (fst (st_mtim stbuf)) w5 = (x6, w6)" by fastforce
  have q4: "quiet UNIV w3 w4" by (rule quiet_lchown [OF c4 n3(3)])
  have q5: "quiet UNIV w3 w5" by (rule quiet_trans [OF q4 quiet_chmod [OF c5 quietD(1) [OF q4]]])
  have q6: "quiet UNIV w3 w6" by (rule quiet_trans [OF q5 quiet_utime [OF c6 quietD(1) [OF q5]]])
  have "calm w3 w5" by (rule calm_trans [OF calm_lchown [OF c4] calm_calls(1) [OF c5]])
  then have "clean w5" using r(2) by (simp add: calm_def)
  then have "x6 = 0" by (rule utime_succeeds [OF c6 _ quietD(1) [OF q5] quietD(5) [OF q5 n3(1)]])
  then have "transform_replace g fpath fd_s fd_t tmp stbuf w = (0, g\<lparr>t_tmp := None\<rparr>, w6)"
    using c1 c2 rn r(1) c4 c5 c6 by (simp add: transform_replace_def)
  moreover have "others w0 w6 fpath"
    using o3 quietD(1) [OF q6] quiet_contents [OF q6 n3(3)] by (auto simp: others_def)
  ultimately show ?thesis using quiet_contents [OF q6 n3(3,2)] by blast
qed

section \<open>Decompressing\<close>

lemma transform_file_decompress:
  assumes "table_ok cfg decode" and "world_ok w" and "clean w" and "temp_ready w" and "contents w fpath = Some bs"
    and "header_in cfg bs = Some (c, sz)" and "decode c (drop sizeof_header bs) = Some out" and "t_comp g = None"
  shows "\<exists>g' w'. transform_file cfg g fpath w = Some (0, g', w') \<and> others w w' fpath \<and> contents w' fpath = Some out"
proof -
  obtain fd w1 where fo: "file_open fpath {} w = (fd, w1)" by fastforce
  note op = open_present [OF file_open_present [OF fo assms(2,3,5)] assms(2,3,5)]
  have w1: "world_ok w1" by (rule quietD(1) [OF op(2)])
  have c1: "clean w1" using op(3) assms(3) by (simp add: calm_def)
  obtain r2 stbuf w2 where fs: "sys_fstat fd no_stat w1 = ((r2, stbuf), w2)" by (metis prod.collapse)
  have r2: "r2 = 0"
    using fs c1 op(7) by (auto simp: sys_fstat_def next_outcome_clean can_read_def fd_ofile_def)
  have q2: "quiet {} w1 w2" by (rule quiet_fstat [OF fs w1])
  obtain k where k: "fdtab w1 fd = Some k" using op(5) by (auto simp: ino_of_def fd_ofile_def bind_eq_Some_conv)
  have calm2: "calm w w2" by (rule calm_trans [OF op(3) calm_calls(6) [OF fs]])
  note t2 = temp_ready_calm [OF assms(4,3) calm2]
  obtain temp fd_t w3 where ct: "file_create_temp w2 = ((temp, fd_t), w3)" by (metis prod.collapse)
  note t3 = quiet_create_temp [OF ct quietD(1) [OF q2]]
  obtain t where t: "temp = Some t" "fresh_temp w2 t fd_t w3"
    using create_temp_succeeds [OF ct] t2 t3(2) by auto
  obtain n where n: "next_ino w2 \<le> n" "names w3 t = Some n" "opened w3 fd_t n {O_RDWR}"
    and tfd: "0 \<le> fd_t" "at_end w3 fd_t" "data_of w3 fd_t = []" "names w2 t = None"
    using t(2) by (auto simp: fresh_temp_def)
  have k2: "kept w w2" by (rule kept_trans [OF quiet_kept [OF op(2)] quiet_kept [OF q2]])
  have k3: "kept w w3" by (rule kept_trans [OF k2 quiet_kept [OF t3(1)]])
  have w3: "world_ok w3" by (rule keptD(1) [OF k3])
  have q13: "quiet {} w1 w3" by (rule quiet_trans [OF q2 t3(1)])
  have v3: "ino_of w3 fd = ino_of w1 fd" "rest_of w3 fd = bs" "can_read w3 fd"
    using quiet_fd(4,5,8) [OF q13 w1 k] op(6,7) by simp_all
  have c3: "clean w3" using create_temp_clean [OF ct] t2 by simp
  obtain r4 d s w4 where rh: "file_read_header_fd cfg fd None 0 w3 = Some (r4, d, s, w4)"
    using read_header_total [of fd w3 cfg None 0] header_in_magic(6) [OF assms(6)] v3(2) op(1) by fastforce
  note rc = read_header_clean [OF rh c3 v3(3)]
  have h4: "r4 = 0" "d = Some c" "clean w4" "can_read w4 fd" "rest_of w4 fd = drop sizeof_header bs"
    using rc header_in_magic(2) [OF assms(6)] assms(6) v3(2) by auto
  have rep: "repositioned fd w3 w4" by (rule read_header_spec(1) [OF rh])
  have k4: "kept w w4" by (rule kept_trans [OF k3 repositioned_kept [OF rep w3]])
  obtain ino where ino: "ino < next_ino w" "ino_of w1 fd = Some ino" using op(5) by blast
  have n0: "next_ino w \<le> n" using n(1) keptD(2) [OF k2] by simp
  have in3: "ino_of w3 fd_t = Some n" by (rule opened_views(1) [OF n(3) w3])
  have sep3: "separate w3 fd fd_t" using v3(1) ino in3 n0 by (simp add: separate_def)
  note ae = repositioned_at_end [OF rep sep3 tfd(2)]
  have io4: "io_only {} w3 w4" by (rule io_only_repositioned [OF rep])
  have sep: "separate w4 fd fd_t" using io_only_separate [OF io4] sep3 by simp
  have in4: "ino_of w4 fd_t = Some n" using io_only_ino_of [OF io4] in3 by simp
  obtain m where m: "module_of cfg c = Some m" using header_in_module [OF assms(6)] by blast
  note dm = table_ok_module(1) [OF assms(1) m]
  obtain r w5 where de: "decompress m fd fd_t w4 = Some (r, w5)" "io_only {n} w4 w5" "at_end w5 fd_t"
    using decompress_module.dec_total [OF dm keptD(1) [OF k4] ae(1) sep] in4 by auto
  have r: "r = int (length out)" "clean w5"
    using decompress_module.dec_clean [OF dm keptD(1) [OF k4] ae(1) sep de(1) h4(3,4), of out] h4(5) assms(7) by auto
  have data: "data_of w5 fd_t = out"
    using decompress_module.dec_result [OF dm keptD(1) [OF k4] ae(1) sep de(1)] r(1) h4(5) assms(7) ae(2) tfd(3) by auto
  have k5: "kept w w5" by (rule io_only_kept [OF k4 de(2)]) (use n0 in simp)
  have n5: "names w5 t = Some n" "ino_of w5 fd_t = Some n"
    using n(2) io_onlyD(1) [OF io4] io_onlyD(1) [OF de(2)] io_only_ino_of [OF de(2)] in4 by simp_all
  have ct5: "contents w5 t = Some out" using contents_fd [of w5 t fd_t] n5 de(3) data by simp
  have nt: "names w t = None" using keptD(4) [OF k2, of t] tfd(4) by (cases "names w t") auto
  obtain w' where rp: "transform_replace (g\<lparr>t_tmp := Some t\<rparr>) fpath fd fd_t t stbuf w5 = (0, g\<lparr>t_tmp := None\<rparr>, w')"
    "others w w' fpath" "contents w' fpath = Some out"
    using transform_replace_clean [OF k5 assms(2) nt assms(5) n5(1) n0 ct5 r(2), of "g\<lparr>t_tmp := Some t\<rparr>" fd fd_t stbuf]
    by auto
  have "transform_file cfg g fpath w = Some (0, g\<lparr>t_tmp := None\<rparr>, w')"
    using fo fs r2 ct t(1) assms(8) rh h4(1,2) m de(1) r(1) rp(1)
    by (simp add: transform_file_def transform_decompress_def Let_def)
  then show ?thesis using rp by blast
qed

lemma transform_decompresses:
  assumes "table_ok cfg decode" and "world_ok w" and "clean w" and "temp_ready w" and "contents w fpath = Some bs"
    and "header_in cfg bs = Some (c, sz)" and "decode c (drop sizeof_header bs) = Some out" and "t_comp g = None"
    and "S_ISREG mode" and "\<not> strncmp_prefix (drop base fpath) FUSECOMPRESS_PREFIX"
  shows "\<exists>g' w'. transform cfg g fpath base True mode w = Some (0, g', w') \<and> others w w' fpath \<and> contents w' fpath = Some out"
proof -
  obtain ct w1 where ic: "is_compressed fpath w = (ct, w1)" by fastforce
  note hm = header_in_magic [OF assms(6)]
  have "4 \<le> length bs" using hm(2) by simp
  note cl = is_compressed_clean [OF ic assms(2,3,5) this]
  have "c < 5" using hm(4) assms(1) by (simp add: table_ok_def)
  then have "c \<in> {0, 1, 2, 3, 4}" by auto
  moreover have "bs ! 3 = word_of_nat c" using hm(3) by auto
  ultimately have "sint (bs ! 3) = int c" by auto
  then have ct: "ct = int c" using cl(1) hm(1) by simp
  note t1 = temp_ready_calm [OF assms(4,3) cl(3)]
  obtain g' w' where tf: "transform_file cfg g fpath w1 = Some (0, g', w')" "others w1 w' fpath" "contents w' fpath = Some out"
    using transform_file_decompress [OF assms(1) keptD(1) [OF cl(2)] _ _ kept_contents [OF cl(2) assms(2,5)] assms(6,7,8)] t1
    by blast
  have "others w w' fpath"
    using tf(2) kept_contents [OF cl(2) assms(2)] by (auto simp: others_def)
  moreover have "transform cfg g fpath base True mode w = Some (0, g', w')"
    using assms(8-10) ic ct tf(1) by (subst transform.simps) simp
  ultimately show ?thesis using tf(3) by blast
qed

end
