(* ===== verification/FsckFacts.thy ===== *)
theory FsckFacts
  imports Fsck OfflineFacts DirectRead
begin

text \<open>
  What \<open>checkfile\<close> of \<^verbatim>\<open>tools/fsck.c\<close> finds out when no call fails, over the locale \<open>stream_reader\<close>.
\<close>

lemma close_open:
  "sys_close fd w = (r, w') \<Longrightarrow> clean w \<Longrightarrow> fdtab w fd \<noteq> None \<Longrightarrow> r = 0"
  by (auto simp: sys_close_def next_outcome_clean)

section \<open>Reading all the data\<close>

context stream_reader
begin

lemma check_data_clean:
  assumes "ok h" and "clean w" and "can_read w (hfd h)" and "remaining h w = Some all" and "0 \<le> sz"
  shows "\<exists>data h' w'. check_data m h sz acc w =
      Some ((if sz \<le> int (length all) then None else Some SHORT_READ_DECOMP, data, h'), w') \<and>
    (sz \<le> int (length all) \<longrightarrow> data = acc @ take (nat sz) all) \<and>
    ok h' \<and> hfd h' = hfd h \<and> repositioned (hfd h) w w' \<and> clean w'"
  using assms
proof (induction "nat sz" arbitrary: h w all sz acc rule: less_induct)
  case less
  show ?case
  proof (cases "sz = 0")
    case True
    then show ?thesis using less by (subst check_data.simps) simp
  next
    case False
    define n where "n = (if sz > int BUFSIZE then BUFSIZE else nat sz)"
    have n: "0 < n" "int n \<le> sz" using False less(6) by (auto simp: n_def BUFSIZE_def)
    obtain r bs h1 w1 where rd: "cread m h n w = Some ((r, bs, h1), w1)" using rd_total [OF less(2)] by blast
    note fr = rd_frame [OF less(2) rd] and by1 = rd_bytes [OF less(2) rd]
    have cl: "r = int (min n (length all))" "clean w1" using rd_clean [OF less(2) rd less(3,4,5)] by auto
    have len: "length bs = min n (length all)" using by1 cl(1) by auto
    show ?thesis
    proof (cases "r = 0")
      case True
      then have "min n (length all) = 0" using cl(1) by simp
      then have "length all = 0" using n(1) by linarith
      then have "all = []" by simp
      moreover have "check_data m h sz acc w = Some ((Some SHORT_READ_DECOMP, acc, h1), w1)"
        using False less(6) rd [unfolded n_def] True by (subst check_data.simps) simp
      ultimately show ?thesis using False less(6) fr cl(2) by simp
    next
      case more: False
      have "length bs \<noteq> 0" using more cl(1) len by simp
      then have "bs \<noteq> []" by simp
      then have nx: "bs = take (length bs) all" "remaining h1 w1 = Some (drop (length bs) all)"
        using rd_next [OF less(2) rd _ less(5)] cl(1) by auto
      have r: "r = int (length bs)" "0 < r" "r \<le> sz" using more cl(1) len n by auto
      have dec: "nat (sz - r) < nat sz" using r by linarith
      have cr: "can_read w1 (hfd h1)" using repositioned_can_read [OF _ less(4), of "hfd h" w1] fr by simp
      have "\<exists>data h' w'. check_data m h1 (sz - r) (acc @ bs) w1 =
            Some ((if sz - r \<le> int (length (drop (length bs) all)) then None else Some SHORT_READ_DECOMP, data, h'), w') \<and>
          (sz - r \<le> int (length (drop (length bs) all)) \<longrightarrow>
            data = (acc @ bs) @ take (nat (sz - r)) (drop (length bs) all)) \<and>
          ok h' \<and> hfd h' = hfd h1 \<and> repositioned (hfd h1) w1 w' \<and> clean w'"
        by (rule less(1) [OF dec]) (use r fr cl(2) cr nx(2) in auto)
      then obtain data h' w' where l: "check_data m h1 (sz - r) (acc @ bs) w1 =
            Some ((if sz - r \<le> int (length (drop (length bs) all)) then None else Some SHORT_READ_DECOMP, data, h'), w')"
          "sz - r \<le> int (length (drop (length bs) all)) \<longrightarrow>
            data = (acc @ bs) @ take (nat (sz - r)) (drop (length bs) all)"
          "ok h'" "hfd h' = hfd h1" "repositioned (hfd h1) w1 w'" "clean w'" by blast
      have le: "length bs \<le> length all" using len by simp
      have iff: "sz - r \<le> int (length (drop (length bs) all)) \<longleftrightarrow> sz \<le> int (length all)"
        using r(1) le by auto
      have "nat sz = length bs + nat (sz - r)" using r by simp
      then have "take (nat sz) all = take (length bs) all @ take (nat (sz - r)) (drop (length bs) all)"
        by (simp add: take_add)
      then have "bs @ take (nat (sz - r)) (drop (length bs) all) = take (nat sz) all" using nx(1) by simp
      moreover have "check_data m h sz acc w = check_data m h1 (sz - r) (acc @ bs) w1"
        using False less(6) rd [unfolded n_def] r(2) by (subst check_data.simps) simp
      moreover have "repositioned (hfd h) w w'"
        using repositioned_trans [of "hfd h" w w1 w'] fr l(5) by auto
      ultimately show ?thesis using l fr iff by auto
    qed
  qed
qed

end

section \<open>A compressed file\<close>

lemma check_compressed_clean:
  assumes "stream_reader m ok hfd left decode" and "module_of cfg c = Some m"
    and "header_in cfg bs = Some (c, sz)" and "0 \<le> sz" and "decode (drop sizeof_header bs) = Some out"
    and "world_ok w" and "clean w" and "opened w1 fd n {}" and "world_ok w1" and "repositioned fd w1 w"
    and "map_option idata (inodes w1 n) = Some bs" and "0 < fd"
  shows "\<exists>data w'. check_compressed cfg fd w =
      Some ((if sz \<le> int (length out) then None else Some SHORT_READ_DECOMP, data), w') \<and>
    (sz \<le> int (length out) \<longrightarrow> data = take (nat sz) out) \<and> kept w w' \<and> clean w'"
proof -
  obtain x w2 where ls: "sys_lseek fd 0 SEEK_SET w = (x, w2)" by fastforce
  note rep2 = lseek_spec(1) [OF ls]
  have o2: "clean w2" "opened w2 fd n {}" using lseek_spec(2) [OF ls assms(7,8,10)] by auto
  have k2: "kept w w2" by (rule repositioned_kept [OF rep2 assms(6)])
  note w2 = keptD(1) [OF k2]
  note v2 = opened_views [OF o2(2) w2]
  have "inodes w2 = inodes w1" using repositioned_same [OF rep2] repositioned_same [OF assms(10)] by simp
  then have r2: "rest_of w2 fd = bs" "can_read w2 fd" using v2(3,4) assms(11) by auto
  obtain r3 d s w3 where rh: "file_read_header_fd cfg fd None 0 w2 = Some (r3, d, s, w3)"
    using read_header_total [of fd w2 cfg None 0] header_in_magic(6) [OF assms(3)] r2(1) assms(12) by fastforce
  note rc = read_header_clean [OF rh o2(1) r2(2)]
  have h3: "r3 = 0" "d = Some c" "s = sz" "clean w3" "can_read w3 fd" "rest_of w3 fd = drop sizeof_header bs"
    using rc header_in_magic(2) [OF assms(3)] assms(3) r2(1) by auto
  have k3: "kept w w3" by (rule kept_trans [OF k2 repositioned_kept [OF read_header_spec(1) [OF rh] w2]])
  obtain h where h: "copen m fd ''r'' w3 = Some (Some h, w3)" "ok h" "hfd h = fd"
    "left h w3 = decode (rest_of w3 fd)"
    using stream_reader.open_reader [OF assms(1), of fd "''r''" w3] assms(12) by auto
  have "left h w3 = Some out" using h(4) h3(6) assms(5) by simp
  from stream_reader.check_data_clean [OF assms(1) h(2) h3(4) _ this assms(4), of "[]"]
  obtain data h' w4 where cd: "check_data m h sz [] w3 =
      Some ((if sz \<le> int (length out) then None else Some SHORT_READ_DECOMP, data, h'), w4)"
    "sz \<le> int (length out) \<longrightarrow> data = take (nat sz) out" "ok h'" "hfd h' = fd" "repositioned fd w3 w4" "clean w4"
    using h(3) h3(5) by auto
  have k4: "kept w w4" by (rule kept_trans [OF k3 repositioned_kept [OF cd(5) keptD(1) [OF k3]]])
  show ?thesis
  proof (cases "sz \<le> int (length out)")
    case False
    then have "check_compressed cfg fd w = Some ((Some SHORT_READ_DECOMP, data), w4)"
      using ls rh h3(1-3) assms(2) h(1) cd(1) by (simp add: check_compressed_def)
    then show ?thesis using False k4 cd(6) by auto
  next
    case True
    obtain r5 w5 where cl: "sys_close fd w4 = (r5, w5)" by fastforce
    have "fdtab w4 fd \<noteq> None"
      using repositioned_can_read [OF cd(5) h3(5)] by (auto simp: can_read_def)
    then have r5: "r5 = 0" by (rule close_open [OF cl cd(6)])
    have "cclose m h' w4 = Some (r5, w5)" using stream_reader.close_reader [OF assms(1) cd(3)] cd(4) cl by simp
    then have "check_compressed cfg fd w = Some ((None, data), w5)"
      using True ls rh h3(1-3) assms(2) h(1) cd(1) r5 by (simp add: check_compressed_def)
    moreover have "quiet UNIV w4 w5" by (rule quiet_close [OF cl keptD(1) [OF k4]]) simp
    ultimately show ?thesis
      using True cd(2) kept_trans [OF k4 quiet_kept] sys_close_clean [OF cd(6) cl] by auto
  qed
qed

text \<open>Removing a broken file, or not, and closing it.\<close>

lemma fix_error_clean:
  assumes "kept w0 w" and "world_ok w0" and "contents w0 fpath = Some bs" and "clean w"
    and "error \<in> {BROKEN_HEADER, FAIL_READ_DECOMP, SHORT_READ_DECOMP, STALE_TEMP}"
  shows "\<exists>w'. fix_error fd fpath error g w =
      (0, g\<lparr>errors_found := errors_found g + 1,
            errors_fixed := errors_fixed g + (if unlink_enabled g then 1 else 0)\<rparr>, w') \<and>
    others w0 w' fpath \<and> contents w' fpath = (if unlink_enabled g then None else Some bs)"
proof -
  note w = keptD(1) [OF assms(1)]
  have here: "contents w fpath = Some bs" by (rule kept_contents [OF assms(1-3)])
  then obtain n where n: "names w fpath = Some n" by (auto simp: contents_def file_of_def bind_eq_Some_conv)
  let ?w1 = "if unlink_enabled g then snd (sys_unlink fpath w) else w"
  have u: "others w0 ?w1 fpath \<and> contents ?w1 fpath = (if unlink_enabled g then None else Some bs)"
  proof (cases "unlink_enabled g")
    case True
    obtain r w1 where ul: "sys_unlink fpath w = (r, w1)" by fastforce
    have "names w1 fpath = None" using ul n assms(4) by (auto simp: sys_unlink_def syscall_clean)
    then have "contents w1 fpath = None" by (simp add: contents_def file_of_def)
    moreover have "others w0 w1 fpath"
      using unlink_other [OF ul w] kept_contents [OF assms(1,2)] by (auto simp: others_def)
    ultimately show ?thesis using True ul by simp
  qed (use kept_others [OF assms(1,2)] here in simp)
  obtain r2 w2 where cl: "sys_close fd ?w1 = (r2, w2)" by fastforce
  have w1: "world_ok ?w1" using u unfolding others_def by blast
  have q: "quiet UNIV ?w1 w2" by (rule quiet_close [OF cl w1]) simp
  have a: "agree w2 (?w1\<lparr>fdtab := (fdtab ?w1)(fd := None)\<rparr>)" using sys_close_spec [OF cl] by simp
  have c2: "contents w2 p = contents ?w1 p" for p
    using agreeD [OF a] by (simp add: contents_def file_of_def)
  have "others w0 w2 fpath" using u quietD(1) [OF q] c2 unfolding others_def by metis
  moreover have "fix_error fd fpath error g w =
      (0, g\<lparr>errors_found := errors_found g + 1,
            errors_fixed := errors_fixed g + (if unlink_enabled g then 1 else 0)\<rparr>, w2)"
    using assms(5) cl by (auto simp: fix_error_def do_unlink_def Let_def)
  ultimately show ?thesis using u c2 by auto
qed

section \<open>checkfile\<close>

definition internal_name :: "string \<Rightarrow> bool" where
  "internal_name name \<longleftrightarrow>
     strncmp_prefix name TEMP \<or> strncmp_prefix name FUSE \<or> strncmp_prefix name FUSECOMPRESS_PREFIX"

lemma checkfile_compressed:
  assumes "stream_reader m ok hfd left decode" and "module_of cfg c = Some m"
    and "header_in cfg bs = Some (c, sz)" and "0 \<le> sz" and "decode (drop sizeof_header bs) = Some out"
    and "world_ok w" and "clean w" and "0 < next_fd w" and "contents w fpath = Some bs"
    and "S_ISREG mode" and "\<not> internal_name (drop base fpath)" and "\<not> rebuild_dedup_db g"
  shows "\<exists>g' w'. checkfile cfg mhash pid fpath mode base g ddb w = Some (0, g', ddb, w') \<and> others w w' fpath \<and>
    (if sz \<le> int (length out) then g' = g \<and> contents w' fpath = Some bs
     else g' = g\<lparr>errors_found := errors_found g + 1,
            errors_fixed := errors_fixed g + (if unlink_enabled g then 1 else 0)\<rparr> \<and>
       contents w' fpath = (if unlink_enabled g then None else Some bs))"
proof -
  obtain fd w1 where fo: "file_open fpath {} w = (fd, w1)" by fastforce
  note op = open_present [OF file_open_present [OF fo assms(6,7,9)] assms(6,7,9)]
  have w1: "world_ok w1" by (rule quietD(1) [OF op(2)])
  have c1: "clean w1" using op(3) assms(7) by (simp add: calm_def)
  obtain n where n: "names w fpath = Some n" "opened w1 fd n {}" using op(8) by blast
  obtain r2 x w2 where rd: "sys_read fd 3 w1 = ((r2, x), w2)" by (metis prod.collapse)
  note cl = sys_read_clean [OF rd c1 op(7)]
  note rep = sys_read_rest(1) [OF rd]
  note hm = header_in_magic [OF assms(3)]
  have rx: "\<not> r2 < 0" "x = magic" using cl(1,2) op(6) hm(1) by auto
  have k2: "kept w w2" by (rule kept_trans [OF quiet_kept [OF op(2)] repositioned_kept [OF rep w1]])
  have i1: "map_option idata (inodes w1 n) = Some bs"
    using opened_views(3) [OF n(2) w1] op(6) by auto
  have fd: "0 < fd" using op(1) assms(8) by simp
  obtain data w3 where cc: "check_compressed cfg fd w2 =
      Some ((if sz \<le> int (length out) then None else Some SHORT_READ_DECOMP, data), w3)" "kept w2 w3" "clean w3"
    using check_compressed_clean [OF assms(1-5) keptD(1) [OF k2] cl(3) n(2) w1 rep i1 fd] by blast
  have k3: "kept w w3" by (rule kept_trans [OF k2 cc(2)])
  show ?thesis
  proof (cases "sz \<le> int (length out)")
    case True
    then have "checkfile cfg mhash pid fpath mode base g ddb w = Some (0, g, ddb, w3)"
      using fo rd rx cc(1) fd assms(10-12) by (simp add: checkfile_def internal_name_def)
    then show ?thesis using True kept_others [OF k3 assms(6)] kept_contents [OF k3 assms(6,9)] by auto
  next
    case False
    let ?g = "g\<lparr>errors_found := errors_found g + 1,
      errors_fixed := errors_fixed g + (if unlink_enabled g then 1 else 0)\<rparr>"
    obtain w4 where fx: "fix_error fd fpath SHORT_READ_DECOMP g w3 = (0, ?g, w4)" "others w w4 fpath"
      "contents w4 fpath = (if unlink_enabled g then None else Some bs)"
      using fix_error_clean [OF k3 assms(6,9) cc(3), of SHORT_READ_DECOMP fd g] by auto
    have "checkfile cfg mhash pid fpath mode base g ddb w = Some (0, ?g, ddb, w4)"
      using False fo rd rx cc(1) fd assms(10-12) fx(1) by (simp add: checkfile_def internal_name_def)
    then show ?thesis using False fx(2,3) by auto
  qed
qed

end
