(* ===== verification/Startup.thy ===== *)
theory Startup
  imports Fuse DedupSave
begin

text \<open>
  The start of the program: \<open>main\<close> of \<^verbatim>\<open>fusecompress.c\<close> up to the call of \<open>fuse_main\<close>, which makes the
  configuration the other theories take as given, and \<open>fusecompress_init\<close>.

  What \<open>getopt\<close> finds is an argument: the option characters with their arguments, in order, and the
  operands, which it moves to the end. \<open>s_argv\<close> is the part of \<open>fusev\<close> in use, the arguments for
  \<open>fuse_main\<close>; a write past the end of that array is \<open>None\<close>. The left side of a sum is an exit code.
  This is a build without \<^verbatim>\<open>DEBUG\<close>. Raising the limit of open files is left out.
\<close>

section \<open>The library functions the source uses\<close>

definition isdigit :: "char \<Rightarrow> bool" where
  "isdigit c \<longleftrightarrow> 48 \<le> (of_char c :: nat) \<and> (of_char c :: nat) \<le> 57"

definition isspace :: "char \<Rightarrow> bool" where
  "isspace c \<longleftrightarrow> of_char c = (32 :: nat) \<or> 9 \<le> (of_char c :: nat) \<and> (of_char c :: nat) \<le> 13"

fun digits_value :: "int \<Rightarrow> string \<Rightarrow> int" where
  "digits_value v [] = v"
| "digits_value v (c # s) = (if isdigit c then digits_value (v * 10 + (of_char c - 48)) s else v)"

text \<open>\<open>strtol\<close> with base 10: what does not fit into a \<open>long\<close> becomes the nearest value that does.\<close>

definition strtol :: "string \<Rightarrow> int" where
  "strtol s =
     (let s = dropWhile isspace s;
          v = (case s of
                 [] \<Rightarrow> 0
               | c # t \<Rightarrow>
                   if c = CHR ''-'' then - digits_value 0 t
                   else if c = CHR ''+'' then digits_value 0 t
                   else digits_value 0 s)
      in max (- (2 ^ 63)) (min (2 ^ 63 - 1) v))"

text \<open>All the tokens \<open>strsep\<close> finds, the empty ones included.\<close>

fun tokens :: "char \<Rightarrow> string \<Rightarrow> string list" where
  "tokens sep [] = [[]]"
| "tokens sep (c # s) =
     (if c = sep then [] # tokens sep s
      else (case tokens sep s of [] \<Rightarrow> [[c]] | t # ts \<Rightarrow> (c # t) # ts))"

section \<open>Options of -o\<close>

abbreviation MAX_OPTS :: nat where
  "MAX_OPTS \<equiv> 50"

record startup =
  s_cfg :: config
  s_argv :: "string list"
  detach :: bool
  noterm :: bool

text \<open>Storing arguments in \<open>fusev\<close>, which has \<open>room\<close> elements.\<close>

definition push_args :: "nat \<Rightarrow> string list \<Rightarrow> startup \<Rightarrow> startup option" where
  "push_args room xs s =
     (if length (s_argv s) + length xs \<le> room then Some (s\<lparr>s_argv := s_argv s @ xs\<rparr>) else None)"

text \<open>A number of megabytes, computed in a \<open>long\<close>: overflow is undefined.\<close>

definition megabytes :: "string \<Rightarrow> int option" where
  "megabytes s =
     (let v = strtol s * 1024 * 1024 in if - (2 ^ 63) \<le> v \<and> v < 2 ^ 63 then Some v else None)"

definition level_char :: "char \<Rightarrow> bool" where
  "level_char c \<longleftrightarrow> isdigit c \<and> 49 \<le> (of_char c :: nat) \<and> (of_char c :: nat) \<le> 57"

definition set_level :: "char \<Rightarrow> config \<Rightarrow> config" where
  "set_level c cfg = cfg\<lparr>compresslevel := (compresslevel cfg)[2 := c]\<rparr>"

definition with_value :: "string \<Rightarrow> string \<Rightarrow> bool" where
  \<comment> \<open>\<open>!strncmp(o, key, n) && strlen(o) > n\<close> for a key of length \<open>n\<close>\<close>
  "with_value key opt \<longleftrightarrow> strncmp_prefix opt key \<and> length opt > length key"

definition mount_option :: "nat \<Rightarrow> string \<Rightarrow> startup \<Rightarrow> startup option" where
  "mount_option room opt s =
     (let cfg = s_cfg s in
      if opt = ''ro'' \<or> opt = ''rw'' then do {
        s \<leftarrow> push_args room [''-o'', opt] s;
        Some (s\<lparr>s_cfg := cfg\<lparr>read_only := (opt ! 1 = CHR ''o'')\<rparr>\<rparr>)
      }
      else if opt = ''uncompressed_binaries'' then Some (s\<lparr>s_cfg := cfg\<lparr>root_fs := True\<rparr>\<rparr>)
      else if opt = ''cache_skipped'' \<or> opt = ''cache'' then Some (s\<lparr>s_cfg := cfg\<lparr>cache_decompressed_data := True\<rparr>\<rparr>)
      else if with_value ''cache_size='' opt then do {
        v \<leftarrow> megabytes (drop 11 opt);
        Some (s\<lparr>s_cfg := cfg\<lparr>max_decomp_cache_size := sint (word_of_int v :: 32 word)\<rparr>\<rparr>)
      }
      else if strncmp_prefix opt ''level='' \<and> length opt = 7 then
        Some (if level_char (opt ! 6) then s\<lparr>s_cfg := set_level (opt ! 6) cfg\<rparr> else s)
      else if opt = ''detach'' then Some (s\<lparr>detach := True\<rparr>)
      else if opt = ''nodetach'' then Some (s\<lparr>detach := False\<rparr>)
      else if opt \<in> {''lzo'', ''lzma'', ''bz2'', ''gz'', ''null''} then
        Some (s\<lparr>s_cfg := cfg\<lparr>compressor_default := find_compressor_name cfg opt\<rparr>\<rparr>)
      else if opt = ''noterm'' then Some (s\<lparr>noterm := True\<rparr>)
      else if opt = ''term'' then Some (s\<lparr>noterm := False\<rparr>)
      else if with_value ''maxcompress='' opt then do {
        v \<leftarrow> megabytes (drop 12 opt);
        Some (s\<lparr>s_cfg := cfg\<lparr>dont_compress_beyond := word_of_int v\<rparr>\<rparr>)
      }
      else if with_value ''nocompext='' opt then
        Some (s\<lparr>s_cfg := cfg\<lparr>user_incompressible := user_incompressible cfg @ [''.'' @ drop 10 opt]\<rparr>\<rparr>)
      else if with_value ''exclude='' opt then
        Some (s\<lparr>s_cfg := cfg\<lparr>user_exclude_paths := user_exclude_paths cfg @ [drop 8 opt]\<rparr>\<rparr>)
      else if opt = ''dedup'' then Some (s\<lparr>s_cfg := cfg\<lparr>dedup_enabled := True\<rparr>\<rparr>)
      else if opt = ''redup'' then Some (s\<lparr>s_cfg := cfg\<lparr>dedup_redup := True\<rparr>\<rparr>)
      else push_args room [''-o'', opt] s)"

fun mount_options :: "nat \<Rightarrow> string list \<Rightarrow> startup \<Rightarrow> startup option" where
  "mount_options room [] s = Some s"
| "mount_options room (opt # opts) s = do { s \<leftarrow> mount_option room opt s; mount_options room opts s }"

section \<open>The loop over the options\<close>

definition getopt_option :: "nat \<Rightarrow> char \<Rightarrow> string \<Rightarrow> startup \<Rightarrow> (int + startup) option" where
  "getopt_option room c optarg s =
     (let cfg = s_cfg s in
      if c = CHR ''h'' \<or> c = CHR ''v'' then Some (Inl 0)
      else if c = CHR ''c'' then
        (let cfg = cfg\<lparr>compressor_default := find_compressor_name cfg optarg\<rparr>
         in Some (if compressor_default cfg = None then Inl 1 else Inr (s\<lparr>s_cfg := cfg\<rparr>)))
      else if c = CHR ''?'' then Some (Inl 1)
      else if c = CHR ''o'' then map_option Inr (mount_options room (tokens CHR '','' optarg) s)
      else if c = CHR ''l'' then
        Some (if length optarg = 1 \<and> level_char (optarg ! 0)
              then Inr (s\<lparr>s_cfg := set_level (optarg ! 0) cfg\<rparr>) else Inl 1)
      else if c = CHR ''f'' then Some (Inr (s\<lparr>detach := False\<rparr>))
      else if c = CHR ''d'' then Some (Inr (s\<lparr>detach := True\<rparr>))
      else if c = CHR ''s'' then Some (Inr s)
      else Some (Inl 1))"

definition too_many :: "nat \<Rightarrow> startup \<Rightarrow> bool" where
  "too_many room s \<longleftrightarrow> length (s_argv s) \<ge> room - 2"

fun options_loop :: "nat \<Rightarrow> (char \<times> string) list \<Rightarrow> startup \<Rightarrow> (int + startup) option" where
  "options_loop room [] s = Some (Inr s)"
| "options_loop room ((c, optarg) # opts) s =
     (if too_many room s then Some (Inl 1)
      else do {
        r \<leftarrow> getopt_option room c optarg s;
        case r of Inl code \<Rightarrow> Some (Inl code) | Inr s \<Rightarrow> options_loop room opts s
      })"

text \<open>
  The rounds of the loop in which \<open>getopt\<close> returns -1. \<open>argv[optind + k]\<close> is the operand, NULL after
  the last one, and undefined after that.
\<close>

definition operand :: "string list \<Rightarrow> nat \<Rightarrow> string option option" where
  "operand args k =
     (if k < length args then Some (Some (args ! k)) else if k = length args then Some None else None)"

function operands_loop ::
  "nat \<Rightarrow> string list \<Rightarrow> startup \<Rightarrow> nat \<Rightarrow> string option \<Rightarrow> string option \<Rightarrow> (int + string \<times> string option) option" where
  "operands_loop room args s k root mountpoint =
     (if too_many room s then Some (Inl 1)
      else if k = 0 then do {
        root \<leftarrow> operand args 0;
        operands_loop room args s 1 root mountpoint
      }
      else do {
        next \<leftarrow> (if k = 1 then operand args 1 else Some None);
        if next \<noteq> None then operands_loop room args s 2 root next
        else Some (case root of None \<Rightarrow> Inl 1 | Some r \<Rightarrow> Inr (r, mountpoint))
      })"
  by pat_completeness auto
termination
  by (relation "measure (\<lambda>(room, args, s, k, root, mountpoint). 2 - k)") (auto split: if_splits)

declare operands_loop.simps [simp del]

section \<open>Defaults\<close>

text \<open>The modules that are compiled in are those in the table; the null module always is.\<close>

definition first_compressor :: "config \<Rightarrow> nat" where
  "first_compressor cfg =
     (if compressors cfg ! 3 \<noteq> None then 3
      else if compressors cfg ! 2 \<noteq> None then 2
      else if compressors cfg ! 4 \<noteq> None then 4
      else if compressors cfg ! 1 \<noteq> None then 1
      else 0)"

text \<open>Writing a NUL over the level leaves the string without one.\<close>

definition default_level :: "byte \<Rightarrow> config \<Rightarrow> config option" where
  "default_level t cfg =
     (if compresslevel cfg ! 2 \<noteq> CHR ''x'' then Some cfg
      else if t = 1 \<or> t = 2 then Some (set_level (CHR ''6'') cfg)
      else if t = 4 then Some (set_level (CHR ''4'') cfg)
      else if t = 3 \<or> t = 0 then Some (cfg\<lparr>compresslevel := take 2 (compresslevel cfg)\<rparr>)
      else None)"

definition initial_config :: "compressor_t option list \<Rightarrow> config" where
  "initial_config table =
     \<lparr>compressors = table, compressor_default = None, min_filesize_background = 0, read_only = False,
      root_fs = False, cache_decompressed_data = False, max_decomp_cache_size = 100 * 1024 * 1024,
      dont_compress_beyond = -1, dedup_enabled = False, dedup_redup = False, compresslevel = ''wbx'',
      user_incompressible = [], user_exclude_paths = []\<rparr>"

definition initial_startup :: "string \<Rightarrow> nat \<Rightarrow> compressor_t option list \<Rightarrow> startup" where
  "initial_startup argv0 uid table =
     \<lparr>s_cfg = initial_config table,
      s_argv = [argv0, ''-o'', ''nonempty,kernel_cache,default_permissions''] @
               (if uid = 0 then [''-o'', ''allow_other,suid,dev''] else []),
      detach = True, noterm = (uid = 0)\<rparr>"

section \<open>main\<close>

definition final_args :: "nat \<Rightarrow> string \<Rightarrow> string option \<Rightarrow> startup \<Rightarrow> startup option" where
  "final_args room root mountpoint s = do {
     s \<leftarrow> (if detach s then Some s else push_args room [''-f''] s);
     s \<leftarrow> (if dedup_enabled (s_cfg s) then Some s else push_args room [''-o'', ''use_ino''] s);
     push_args room [case mountpoint of None \<Rightarrow> root | Some m \<Rightarrow> m] s
   }"

definition final_config :: "config \<Rightarrow> (int + config) option" where
  "final_config cfg = do {
     let c = (case compressor_default cfg of None \<Rightarrow> first_compressor cfg | Some c \<Rightarrow> c);
     let cfg = cfg\<lparr>compressor_default := Some c\<rparr>;
     m \<leftarrow> module_of cfg c;
     Some (case default_level (ctype m) cfg of None \<Rightarrow> Inl 1 | Some cfg \<Rightarrow> Inr cfg)
   }"

definition main_options ::
  "string \<Rightarrow> nat \<Rightarrow> nat \<Rightarrow> compressor_t option list \<Rightarrow> (char \<times> string) list \<Rightarrow> string list \<Rightarrow>
   (int + startup \<times> string) option" where
  "main_options argv0 argc uid table opts args =
     (let room = argc + MAX_OPTS in do {
        r \<leftarrow> options_loop room opts (initial_startup argv0 uid table);
        case r of Inl code \<Rightarrow> Some (Inl code)
        | Inr s \<Rightarrow> do {
            r \<leftarrow> operands_loop room args s 0 None None;
            case r of Inl code \<Rightarrow> Some (Inl code)
            | Inr p \<Rightarrow> do {
                s \<leftarrow> final_args room (fst p) (snd p) s;
                r \<leftarrow> final_config (s_cfg s);
                case r of Inl code \<Rightarrow> Some (Inl code)
                | Inr cfg \<Rightarrow> Some (Inr (s\<lparr>s_cfg := cfg\<rparr>, fst p))
              }
          }
      })"

text \<open>
  The rest of \<open>main\<close> before \<open>fuse_main\<close>: the backing directory is opened, and the database of the
  deduplication loaded. \<open>cmpdirFd\<close> is among the results.
\<close>

definition main_start ::
  "string \<Rightarrow> nat \<Rightarrow> compressor_t option list \<Rightarrow> (char \<times> string) list \<Rightarrow> string list \<Rightarrow> world \<Rightarrow>
   ((int + startup \<times> int \<times> dedup_db) \<times> world) option" where
  "main_start argv0 argc table opts args w = do {
     r \<leftarrow> main_options argv0 argc (euid w) table opts args;
     case r of Inl code \<Rightarrow> Some (Inl code, w)
     | Inr (s, root) \<Rightarrow>
         (let (fd, w) = sys_open root {} 0 w
          in if fd = FAIL then Some (Inl 1, w)
             else do {
               (ddb, w) \<leftarrow> (if dedup_enabled (s_cfg s)
                            then dedup_load (s_cfg s) (root @ ''/'' @ DEDUP_DB_FILE) w
                            else Some (dedup_init_db, w));
               Some (Inr (s, fd, ddb), w\<lparr>decomp_cache_size := 0\<rparr>)
             })
   }"

section \<open>fusecompress_init\<close>

definition sys_fchdir :: "int \<Rightarrow> world \<Rightarrow> int \<times> world" where
  "sys_fchdir fd = syscall (\<lambda>w. if fdtab w fd = None then fail EBADF w else (0, w))"

text \<open>
  \<open>f_type\<close> is the type of the backing file system, which \<open>fstatfs\<close> reports with its block size.
  Names are relative to the backing directory from here on. Then the thread is created.
\<close>

definition sys_fstatfs :: "int \<Rightarrow> world \<Rightarrow> int \<times> world" where
  "sys_fstatfs fd = syscall (\<lambda>w. if fdtab w fd = None then fail EBADF w else (0, w))"

definition fusecompress_init :: "int \<Rightarrow> int \<Rightarrow> config \<Rightarrow> world \<Rightarrow> (int + config) \<times> world" where
  "fusecompress_init f_type fd cfg w =
     (let (r, w) = sys_fchdir fd w
      in if r = -1 then (Inl 1, w)
         else
           (let (r, w) = sys_fstatfs fd w
            in if r = -1 then (Inl 1, w)
               else (Inr (init_min_filesize f_type (sint (ucast (f_bsize w) :: 32 word)) cfg), w)))"

text \<open>The handler of SIGTERM purges what it can from the database.\<close>

definition sigterm_handler :: "fs \<Rightarrow> fs option" where
  "sigterm_handler s = do {
     (db, w) \<leftarrow> direct_open_purge (fs_cfg s) True (fs_db s) (wd s);
     Some (s\<lparr>fs_db := db, wd := w\<rparr>)
   }"

section \<open>fusecompress_destroy\<close>

text \<open>
  The loop that waits until the database and the queue are empty. \<open>sleeps\<close> are its pauses: what the
  thread does to the state in each, and whether a signal interrupts it, which ends the loop. The first
  result says whether the loop has ended.
\<close>

fun destroy_loop :: "((fs \<Rightarrow> fs) \<times> bool) list \<Rightarrow> fs \<Rightarrow> (bool \<times> fs) option" where
  "destroy_loop [] s = destroy_round s"
| "destroy_loop ((work, interrupted) # sleeps) s = do {
     (ended, s) \<leftarrow> destroy_round s;
     if ended then Some (True, s)
     else if interrupted then Some (True, work s)
     else destroy_loop sleeps (work s)
   }"

text \<open>When the loop has ended the thread is cancelled, and the backing directory closed.\<close>

definition fusecompress_destroy :: "((fs \<Rightarrow> fs) \<times> bool) list \<Rightarrow> int \<Rightarrow> fs \<Rightarrow> (bool \<times> fs) option" where
  "fusecompress_destroy sleeps cmpdirFd s = do {
     (ended, s) \<leftarrow> destroy_loop sleeps s;
     if \<not> ended then Some (False, s)
     else do { (_, w) \<leftarrow> file_close cmpdirFd (wd s); Some (True, s\<lparr>wd := w\<rparr>) }
   }"

text \<open>Unless it is interrupted, the loop does not end before everything is compressed that has to be.\<close>

lemma destroy_loop_empty:
  "destroy_loop sleeps s = Some (True, s') \<Longrightarrow> \<forall>p \<in> set sleeps. \<not> snd p \<Longrightarrow>
   db_entries (fs_db s') = 0 \<and> comp_entries (fs_db s') = 0"
proof (induction sleeps s rule: destroy_loop.induct)
  case (1 s)
  then show ?case by (auto simp: destroy_round_def bind_eq_Some_conv split: if_splits)
next
  case (2 work interrupted sleeps s)
  obtain ended t where r: "destroy_round s = Some (ended, t)" using 2(2) by (auto simp: bind_eq_Some_conv)
  show ?case
  proof (cases ended)
    case True
    then show ?thesis using r 2(2) by (auto simp: destroy_round_def bind_eq_Some_conv split: if_splits)
  next
    case False
    then show ?thesis using r 2 by (auto simp: bind_eq_Some_conv)
  qed
qed

end
