(* ===== verification/Tools.thy ===== *)
theory Tools
  imports Offline Fsck Startup
begin

text \<open>
  \<open>main\<close> of \<^verbatim>\<open>tools/offline.c\<close> and \<^verbatim>\<open>tools/fsck.c\<close>. As in \<open>Startup\<close>, what \<open>getopt\<close> finds is an
  argument, and the left side of a sum is an exit code. What \<open>nftw\<close> finds in a directory is an argument
  too. The handlers of signals are left out.
\<close>

section \<open>tools/offline.c\<close>

definition is_level :: "string \<Rightarrow> bool" where
  "is_level optarg \<longleftrightarrow> length optarg = 1 \<and> \<not> (of_char (optarg ! 0) < (49 :: nat) \<or> of_char (optarg ! 0) > (57 :: nat))"

definition offline_option :: "char \<Rightarrow> string \<Rightarrow> config \<times> offline \<Rightarrow> (int + config \<times> offline) option" where
  "offline_option c optarg s =
     (let (cfg, g) = s in
      if c = CHR ''c'' then
        (let g = g\<lparr>t_comp := find_compressor_name cfg optarg\<rparr>
         in case t_comp g of None \<Rightarrow> Some (Inl 1)
            | Some k \<Rightarrow> do {
                m \<leftarrow> module_of cfg k;
                Some (Inr (if compresslevel cfg ! 2 = CHR ''x''
                           then set_level (if ctype m = 4 then CHR ''4'' else CHR ''6'') cfg else cfg, g))
              })
      else if c = CHR ''r'' then
        (let g = g\<lparr>t_recomp := find_compressor_name cfg optarg\<rparr>
         in Some (if t_recomp g = None then Inl 1 else Inr (cfg, g)))
      else if c = CHR ''l'' then
        Some (if \<not> is_level optarg then Inl 1 else Inr (set_level (optarg ! 0) cfg, g))
      else if c = CHR ''v'' then Some (Inr (cfg, g))
      else Some (Inl 1))"

fun offline_options :: "(char \<times> string) list \<Rightarrow> config \<times> offline \<Rightarrow> (int + config \<times> offline) option" where
  "offline_options [] s = Some (Inr s)"
| "offline_options ((c, optarg) # opts) s = do {
     r \<leftarrow> offline_option c optarg s;
     case r of Inl code \<Rightarrow> Some (Inl code) | Inr s \<Rightarrow> offline_options opts s
   }"

text \<open>One call of \<open>nftw\<close>, over the entries of a directory: it stops at a result other than 0.\<close>

type_synonym entry = "path \<times> nat \<times> bool \<times> nat"

fun offline_walk :: "config \<Rightarrow> offline \<Rightarrow> entry list \<Rightarrow> world \<Rightarrow> (int \<times> offline \<times> world) option" where
  "offline_walk cfg g [] w = Some (0, g, w)"
| "offline_walk cfg g ((fpath, base, is_file, mode) # es) w = do {
     (r, g, w) \<leftarrow> transform cfg g fpath base is_file mode w;
     if r \<noteq> 0 then Some (r, g, w) else offline_walk cfg g es w
   }"

fun offline_dirs :: "config \<Rightarrow> offline \<Rightarrow> entry list list \<Rightarrow> world \<Rightarrow> (int \<times> offline \<times> world) option" where
  "offline_dirs cfg g [] w = Some (0, g, w)"
| "offline_dirs cfg g (dir # dirs) w = do {
     (r, g, w) \<leftarrow> offline_walk cfg g dir w;
     if r < 0 then Some (1, g, w) else offline_dirs cfg g dirs w
   }"

definition offline_main ::
  "compressor_t option list \<Rightarrow> (char \<times> string) list \<Rightarrow> entry list list \<Rightarrow> world \<Rightarrow> (int \<times> world) option" where
  "offline_main table opts dirs w = do {
     let cfg = (initial_config table)\<lparr>compresslevel := ''wbx''\<rparr>;
     r \<leftarrow> offline_options opts (cfg, \<lparr>t_comp = None, t_recomp = None, t_errors = 0, t_tmp = None\<rparr>);
     case r of Inl code \<Rightarrow> Some (code, w)
     | Inr (cfg, g) \<Rightarrow>
         if dirs = [] then Some (1, w)
         else do { (code, g, w) \<leftarrow> offline_dirs cfg g dirs w; Some (code, w) }
   }"

section \<open>tools/fsck.c\<close>

definition fsck_option :: "char \<Rightarrow> fsck \<Rightarrow> int + fsck" where
  "fsck_option c g =
     (if c = CHR ''d'' then Inr (g\<lparr>unlink_enabled := True\<rparr>)
      else if c = CHR ''p'' \<or> c = CHR ''v'' then Inr g
      else if c = CHR ''r'' then Inr (g\<lparr>rebuild_dedup_db := True\<rparr>)
      else if c = CHR ''l'' then Inr (g\<lparr>dedup_now := True\<rparr>)
      else Inl 1)"

fun fsck_options :: "char list \<Rightarrow> fsck \<Rightarrow> int + fsck" where
  "fsck_options [] g = Inr g"
| "fsck_options (c # cs) g = (case fsck_option c g of Inl code \<Rightarrow> Inl code | Inr g \<Rightarrow> fsck_options cs g)"

text \<open>
  The result of \<open>chdir\<close> is not looked at: when it fails, what is walked are the entries of the current
  directory (\<open>here\<close>), not those of the directory given (\<open>there\<close>).
\<close>

definition sys_chdir :: "world \<Rightarrow> int \<times> world" where
  "sys_chdir = syscall (\<lambda>w. (0, w))"

definition fsck_tool ::
  "config \<Rightarrow> (byte list \<Rightarrow> byte list) \<Rightarrow> string \<Rightarrow> char list \<Rightarrow> (path \<times> nat \<times> nat) list option \<Rightarrow>
   (path \<times> nat \<times> nat) list \<Rightarrow> world \<Rightarrow> (int \<times> world) option" where
  "fsck_tool cfg mhash pid opts there here w =
     (case fsck_options opts \<lparr>unlink_enabled = False, rebuild_dedup_db = False, dedup_now = False,
                              errors_found = 0, errors_fixed = 0, warnings = 0\<rparr> of
        Inl code \<Rightarrow> Some (code, w)
      | Inr g \<Rightarrow>
          (case there of
             None \<Rightarrow> Some (1, w)
           | Some es \<Rightarrow>
               (let (r, w) = sys_chdir w
                in fsck_main cfg mhash pid (if r = 0 then es else here) g w)))"

end
