(* ===== verification/ToolProps.thy ===== *)
theory ToolProps
  imports FsckFacts Examples Tools
begin

text \<open>
  Properties of the two tools. The concrete inputs have one file in the format of the null module.
\<close>

definition ex_packed :: "off \<Rightarrow> byte list" where
  "ex_packed sz = header_bytes (new_header module_null sz) @ [7, 8, 9]"

definition ex_offline :: offline where
  "ex_offline = \<lparr>t_comp = Some 0, t_recomp = Some 0, t_errors = 0, t_tmp = None\<rparr>"

definition ex_fsck :: fsck where
  "ex_fsck = \<lparr>unlink_enabled = True, rebuild_dedup_db = False, dedup_now = False, errors_found = 0,
     errors_fixed = 0, warnings = 0\<rparr>"

lemma ex_packed_header:
  "header_in ex_cfg (ex_packed 3) = Some (0, 3)" "header_in ex_cfg (ex_packed 4) = Some (0, 4)"
  "drop sizeof_header (ex_packed 3) = [7, 8, 9]" "drop sizeof_header (ex_packed 4) = [7, 8, 9]"
  "S_ISREG 33188" "\<not> internal_name ''f''"
  by code_simp+

section \<open>offline\<close>

text \<open>
  C38: The offline tool decompresses a file without loss. When no call fails, a regular file with a
  known header and a well-formed stream is replaced by its data, and every other file keeps its
  contents.
\<close>

theorem offline_decompress:
  assumes "table_ok cfg decode" and "world_ok w" and "clean w" and "temp_ready w" and "contents w fpath = Some bs"
    and "header_in cfg bs = Some (c, sz)" and "decode c (drop 12 bs) = Some out" and "t_comp g = None"
    and "S_ISREG mode" and "\<not> strncmp_prefix (drop base fpath) FUSECOMPRESS_PREFIX"
  shows "\<exists>g' w'. transform cfg g fpath base True mode w = Some (0, g', w') \<and> contents w' fpath = Some out \<and>
    (\<forall>q b. q \<noteq> fpath \<and> contents w q = Some b \<longrightarrow> contents w' q = Some b)"
proof -
  obtain g' w' where "transform cfg g fpath base True mode w = Some (0, g', w')" "others w w' fpath"
    "contents w' fpath = Some out"
    using transform_decompresses [OF assms] by blast
  then show ?thesis unfolding others_def by blast
qed

theorem offline_decompress_witness:
  "\<exists>g' w'. transform ex_cfg (ex_offline\<lparr>t_comp := None\<rparr>) ''f'' 0 True 33188 (ex_world (ex_packed 3)) = Some (0, g', w') \<and>
    contents w' ''f'' = Some [7, 8, 9]"
proof -
  have "\<not> strncmp_prefix (drop 0 ''f'') FUSECOMPRESS_PREFIX" using ex_packed_header(6) by (simp add: internal_name_def)
  from offline_decompress [OF ex_table_ok ex_world_ok ex_world_clean ex_temp_ready ex_contents ex_packed_header(1) _ _
      ex_packed_header(5) this, of "[7, 8, 9]" "ex_offline\<lparr>t_comp := None\<rparr>"]
  show ?thesis using ex_packed_header(3) by (auto simp: ex_decode_def)
qed


section \<open>fsck\<close>

text \<open>
  C40: fsck finds out whether a compressed file has all its data. When no call fails and the header is
  known, a file whose stream has as many bytes as the header claims is left alone and the exit code is
  0; otherwise the file is removed and the code is 1 if the option to remove is given, and the file
  stays and the code is 4 if not. No other file changes.
\<close>

theorem fsck_verdict:
  assumes "stream_reader m ok hfd left decode" and "module_of cfg c = Some m"
    and "header_in cfg bs = Some (c, sz)" and "0 \<le> sz" and "decode (drop 12 bs) = Some out"
    and "world_ok w" and "clean w" and "0 < next_fd w" and "contents w fpath = Some bs"
    and "S_ISREG mode" and "\<not> internal_name (drop base fpath)"
    and "\<not> rebuild_dedup_db g" and "errors_found g = 0" and "errors_fixed g = 0"
  shows "\<exists>w'. fsck_main cfg mhash pid [(fpath, mode, base)] g w =
      Some (if sz \<le> int (length out) then 0 else if unlink_enabled g then 1 else 4, w') \<and>
    contents w' fpath = (if sz \<le> int (length out) \<or> \<not> unlink_enabled g then Some bs else None) \<and>
    (\<forall>q b. q \<noteq> fpath \<and> contents w q = Some b \<longrightarrow> contents w' q = Some b)"
proof -
  obtain g' w' where c: "checkfile cfg mhash pid fpath mode base g dedup_init_db w = Some (0, g', dedup_init_db, w')"
    "others w w' fpath"
    "if sz \<le> int (length out) then g' = g \<and> contents w' fpath = Some bs
     else g' = g\<lparr>errors_found := errors_found g + 1,
            errors_fixed := errors_fixed g + (if unlink_enabled g then 1 else 0)\<rparr> \<and>
       contents w' fpath = (if unlink_enabled g then None else Some bs)"
    using checkfile_compressed [OF assms(1-12)] by blast
  have "fsck_main cfg mhash pid [(fpath, mode, base)] g w = Some (exit_code g', w')"
    using c(1,3) assms(12) by (auto simp: fsck_main_def split: if_splits)
  then show ?thesis
    using c(2,3) assms(13,14) unfolding others_def by (auto simp: exit_code_def split: if_splits)
qed

theorem fsck_verdict_witness:
  "\<exists>w'. fsck_main ex_cfg id ''1'' [(''f'', 33188, 0)] ex_fsck (ex_world (ex_packed 4)) = Some (1, w') \<and>
    contents w' ''f'' = None"
proof -
  have "0 < next_fd (ex_world (ex_packed 4))" by (simp add: ex_world_def)
  moreover have "module_of ex_cfg 0 = Some module_null" by (simp add: ex_module)
  moreover have "\<not> rebuild_dedup_db ex_fsck" "errors_found ex_fsck = 0" "errors_fixed ex_fsck = 0"
    "unlink_enabled ex_fsck"
    by (simp_all add: ex_fsck_def)
  ultimately show ?thesis
    using fsck_verdict [OF null_reader.stream_reader_axioms _ ex_packed_header(2) _ _ ex_world_ok ex_world_clean _
        ex_contents ex_packed_header(5), of "[7, 8, 9]" 0 ex_fsck id "''1''"] ex_packed_header(4,6)
    by auto
qed

end
