(* ===== verification/StartupProps.thy ===== *)
theory StartupProps
  imports Startup Examples Lzma
begin

text \<open>
  The properties of the start: the configuration \<open>main\<close> makes is one the other theories can take as
  given, whatever the arguments; and how many options its array holds.
\<close>

section \<open>What every option keeps\<close>

definition level_set :: "string \<Rightarrow> bool" where
  "level_set level \<longleftrightarrow> (\<exists>d. level = ''wb'' @ [d] \<and> (d = CHR ''x'' \<or> level_char d))"

definition cfg_ok :: "compressor_t option list \<Rightarrow> config \<Rightarrow> bool" where
  "cfg_ok table cfg \<longleftrightarrow>
     compressors cfg = table \<and> default_ok cfg \<and> level_set (compresslevel cfg) \<and>
     (\<forall>p \<in> set (user_exclude_paths cfg). p \<noteq> [])"

definition options_ok :: "nat \<Rightarrow> compressor_t option list \<Rightarrow> startup \<Rightarrow> bool" where
  "options_ok room table s \<longleftrightarrow> cfg_ok table (s_cfg s) \<and> length (s_argv s) \<le> room"

lemma find_name_from_found:
  "find_name_from name i tbl = Some c \<Longrightarrow> i \<le> c \<and> c < i + length tbl \<and> tbl ! (c - i) \<noteq> None"
proof (induction name i tbl rule: find_name_from.induct)
  case (2 name i tbl)
  then have "Suc i \<le> c" "c < Suc i + length tbl" "tbl ! (c - Suc i) \<noteq> None" by simp_all
  moreover from this have "c - i = Suc (c - Suc i)" by simp
  ultimately show ?case by simp
next
  case (3 name i m tbl)
  show ?case
  proof (cases "cname m = name")
    case False
    then have "Suc i \<le> c" "c < Suc i + length tbl" "tbl ! (c - Suc i) \<noteq> None" using 3 by simp_all
    moreover from this have "c - i = Suc (c - Suc i)" by simp
    ultimately show ?thesis by simp
  qed (use 3(2) in simp)
qed simp

lemma find_compressor_name_module:
  assumes "find_compressor_name cfg name = Some c"
  shows "module_of cfg c \<noteq> None"
  using find_name_from_found [OF assms [unfolded find_compressor_name_def]] by (simp add: module_of_def)

lemma default_ok_found: "default_ok (cfg\<lparr>compressor_default := find_compressor_name cfg name\<rparr>)"
  using find_compressor_name_module [of cfg name] by (auto simp: default_ok_def module_of_def)

lemma default_ok_same:
  "compressors a = compressors b \<Longrightarrow> compressor_default a = compressor_default b \<Longrightarrow> default_ok a = default_ok b"
  by (simp add: default_ok_def module_of_def)

lemma level_set_update: "level_set level \<Longrightarrow> level_char d \<Longrightarrow> level_set (level[2 := d])"
  using list_update_length [of "''wb''" _ "[]" d] by (auto simp: level_set_def)

text \<open>Updates of the configuration: of what is not in the invariant, and of what is.\<close>

lemma cfg_ok_update [simp]:
  "cfg_ok table (cfg\<lparr>read_only := b\<rparr>) = cfg_ok table cfg"
  "cfg_ok table (cfg\<lparr>root_fs := b\<rparr>) = cfg_ok table cfg"
  "cfg_ok table (cfg\<lparr>cache_decompressed_data := b\<rparr>) = cfg_ok table cfg"
  "cfg_ok table (cfg\<lparr>max_decomp_cache_size := v\<rparr>) = cfg_ok table cfg"
  "cfg_ok table (cfg\<lparr>dont_compress_beyond := u\<rparr>) = cfg_ok table cfg"
  "cfg_ok table (cfg\<lparr>dedup_enabled := b\<rparr>) = cfg_ok table cfg"
  "cfg_ok table (cfg\<lparr>dedup_redup := b\<rparr>) = cfg_ok table cfg"
  "cfg_ok table (cfg\<lparr>user_incompressible := xs\<rparr>) = cfg_ok table cfg"
  by (simp_all add: cfg_ok_def default_ok_def module_of_def)

lemma cfg_ok_find: "cfg_ok table cfg \<Longrightarrow> cfg_ok table (cfg\<lparr>compressor_default := find_compressor_name cfg name\<rparr>)"
  using default_ok_found [of cfg name] by (simp add: cfg_ok_def)

lemma cfg_ok_level: "cfg_ok table cfg \<Longrightarrow> level_char d \<Longrightarrow> cfg_ok table (set_level d cfg)"
  using level_set_update [of "compresslevel cfg" d] default_ok_same [of "set_level d cfg" cfg]
  by (simp add: cfg_ok_def set_level_def)

lemma cfg_ok_exclude:
  "cfg_ok table cfg \<Longrightarrow> p \<noteq> [] \<Longrightarrow> cfg_ok table (cfg\<lparr>user_exclude_paths := user_exclude_paths cfg @ [p]\<rparr>)"
  by (auto simp: cfg_ok_def default_ok_def module_of_def)

section \<open>The invariant through the options\<close>

text \<open>What an option may return, if it returns.\<close>

definition keeps :: "nat \<Rightarrow> compressor_t option list \<Rightarrow> startup option \<Rightarrow> bool" where
  "keeps room table r \<longleftrightarrow> (\<forall>s. r = Some s \<longrightarrow> options_ok room table s)"

lemma keeps_if: "(b \<Longrightarrow> keeps room table x) \<Longrightarrow> keeps room table y \<Longrightarrow> keeps room table (if b then x else y)"
  by simp

lemma keeps_cfg:
  "options_ok room table s \<Longrightarrow> cfg_ok table cfg \<Longrightarrow> keeps room table (Some (s\<lparr>s_cfg := cfg\<rparr>))"
  by (simp add: keeps_def options_ok_def)

lemma push_args_ok:
  "push_args room xs s = Some s' \<Longrightarrow> options_ok room table s \<Longrightarrow> options_ok room table s' \<and> s_cfg s' = s_cfg s"
  by (auto simp: push_args_def options_ok_def split: if_splits)

lemma mount_option_ok:
  assumes "options_ok room table s"
  shows "keeps room table (mount_option room opt s)"
proof -
  have c: "cfg_ok table (s_cfg s)" using assms by (simp add: options_ok_def)
  note cfg = keeps_cfg [OF assms]
  have push: "keeps room table (push_args room xs s)" for xs
    using push_args_ok [OF _ assms] by (auto simp: keeps_def)
  have push_ro: "keeps room table (do { s \<leftarrow> push_args room xs s; Some (s\<lparr>s_cfg := (s_cfg s0)\<lparr>read_only := b\<rparr>\<rparr>) })"
    if "cfg_ok table (s_cfg s0)" for xs b s0
    using push_args_ok [OF _ assms] that by (auto simp: keeps_def options_ok_def bind_eq_Some_conv)
  have mb: "keeps room table (do { v \<leftarrow> megabytes str; Some (s\<lparr>s_cfg := g v\<rparr>) })" if "\<And>v. cfg_ok table (g v)" for str g
    using that assms by (auto simp: keeps_def options_ok_def bind_eq_Some_conv)
  have ex: "drop 8 opt \<noteq> []" if "with_value ''exclude='' opt" using that by (simp add: with_value_def)
  have d: "keeps room table (Some (s\<lparr>detach := b\<rparr>))" "keeps room table (Some (s\<lparr>noterm := b\<rparr>))" for b
    using assms by (simp_all add: keeps_def options_ok_def)
  have l: "keeps room table (Some (if level_char d then s\<lparr>s_cfg := set_level d (s_cfg s)\<rparr> else s))" for d
    using cfg_ok_level [OF c] assms by (simp add: keeps_def options_ok_def)
  show ?thesis
    unfolding mount_option_def Let_def
    by (intro keeps_if push_ro [OF c] push d l mb cfg cfg_ok_find cfg_ok_exclude c ex) (simp_all add: c)
qed

lemma mount_options_ok: "options_ok room table s \<Longrightarrow> keeps room table (mount_options room opts s)"
proof (induction room opts s rule: mount_options.induct)
  case (2 room opt opts s)
  then show ?case using mount_option_ok [OF 2(2), of opt] by (auto simp: keeps_def bind_eq_Some_conv)
qed (simp add: keeps_def)

text \<open>A step that ends with an exit code, or goes on.\<close>

lemma bind_Inr:
  "Option.bind x (\<lambda>r. case r of Inl code \<Rightarrow> Some (Inl code) | Inr y \<Rightarrow> f y) = Some (Inr z) \<longleftrightarrow>
   (\<exists>y. x = Some (Inr y) \<and> f y = Some (Inr z))"
  by (auto simp: bind_eq_Some_conv split: sum.split) (metis sum.exhaust)

lemma getopt_option_ok:
  assumes "getopt_option room c optarg s = Some (Inr s')" and "options_ok room table s"
  shows "options_ok room table s'"
proof -
  have c: "cfg_ok table (s_cfg s)" using assms(2) by (simp add: options_ok_def)
  show ?thesis
    using assms mount_options_ok [OF assms(2), of "tokens CHR '','' optarg"] cfg_ok_find [OF c, of optarg]
      cfg_ok_level [OF c, of "optarg ! 0"]
    by (simp add: getopt_option_def Let_def keeps_def options_ok_def split: if_splits) auto
qed

lemma options_loop_ok:
  "options_loop room opts s = Some (Inr s') \<Longrightarrow> options_ok room table s \<Longrightarrow> options_ok room table s'"
proof (induction room opts s rule: options_loop.induct)
  case (2 room c optarg opts s)
  obtain t where t: "getopt_option room c optarg s = Some (Inr t)" "options_loop room opts t = Some (Inr s')" "\<not> too_many room s"
    using 2(2) by (auto simp: bind_Inr split: if_splits)
  show ?case using 2(1) [OF t(3), of "Inr t"] t getopt_option_ok [OF t(1) 2(3)] by blast
qed simp

lemma initial_startup_ok: "3 \<le> room \<Longrightarrow> (uid = 0 \<Longrightarrow> 5 \<le> room) \<Longrightarrow> options_ok room table (initial_startup argv0 uid table)"
  by (auto simp: options_ok_def cfg_ok_def initial_startup_def initial_config_def default_ok_def level_set_def)

lemma operands_loop_result:
  "operands_loop room args s 0 None None = Some (Inr (root, mountpoint)) \<Longrightarrow>
   args \<noteq> [] \<and> root = hd args \<and> mountpoint = (case tl args of [] \<Rightarrow> None | m # _ \<Rightarrow> Some m)"
  by (cases args rule: remdups_adj.cases)
    (auto simp: operands_loop.simps [of _ _ _ 0] operands_loop.simps [of _ _ _ "Suc 0"] operands_loop.simps [of _ _ _ 2]
      operand_def split: if_splits)

lemma first_compressor_module:
  assumes "length (compressors cfg) = 5" and "compressors cfg ! 0 \<noteq> None"
  shows "module_of cfg (first_compressor cfg) \<noteq> None"
  using assms by (auto simp: first_compressor_def module_of_def)

text \<open>A table of modules is one of \<^verbatim>\<open>globals.c\<close>: five slots, each module in that of its type, null always there.\<close>

definition table_of_modules :: "compressor_t option list \<Rightarrow> bool" where
  "table_of_modules table \<longleftrightarrow>
     length table = 5 \<and> table ! 0 \<noteq> None \<and> (\<forall>c m. c < 5 \<longrightarrow> table ! c = Some m \<longrightarrow> unat (ctype m) = c)"

lemma default_level_result:
  assumes "default_level t cfg = Some cfg'" and "level_set (compresslevel cfg)"
  shows "\<exists>lv. cfg' = cfg\<lparr>compresslevel := lv\<rparr> \<and>
    (lv = ''wb'' \<and> (t = 0 \<or> t = 3) \<or> (\<exists>d. level_char d \<and> lv = ''wb'' @ [d]))"
proof -
  obtain d where d: "compresslevel cfg = ''wb'' @ [d]" "d = CHR ''x'' \<or> level_char d"
    using assms(2) by (auto simp: level_set_def)
  have l: "compresslevel cfg ! 2 = d" "\<And>e. (compresslevel cfg)[2 := e] = ''wb'' @ [e]" "take 2 (compresslevel cfg) = ''wb''"
    using d(1) list_update_length [of "''wb''" d "[]"] nth_append_length [of "''wb''" d "[]"] by simp_all
  have lc: "level_char (CHR ''6'')" "level_char (CHR ''4'')" by (simp_all add: level_char_def isdigit_def)
  have same: "cfg\<lparr>compresslevel := compresslevel cfg\<rparr> = cfg" by simp
  consider "d \<noteq> CHR ''x''" | "d = CHR ''x''" "t = 1 \<or> t = 2" | "d = CHR ''x''" "t = 4" | "d = CHR ''x''" "t = 3 \<or> t = 0"
    using assms(1) l(1) by (auto simp: default_level_def split: if_splits)
  then show ?thesis
  proof cases
    case 1
    then have "cfg' = cfg\<lparr>compresslevel := ''wb'' @ [d]\<rparr>" "level_char d"
      using assms(1) l(1) d same by (simp_all add: default_level_def)
    then show ?thesis by blast
  next
    case 2
    then have "cfg' = cfg\<lparr>compresslevel := ''wb'' @ [CHR ''6'']\<rparr>"
      using assms(1) l by (simp add: default_level_def set_level_def)
    then show ?thesis using lc(1) by blast
  next
    case 3
    then have "cfg' = cfg\<lparr>compresslevel := ''wb'' @ [CHR ''4'']\<rparr>"
      using assms(1) l by (simp add: default_level_def set_level_def)
    then show ?thesis using lc(2) by blast
  next
    case 4
    then have "cfg' = cfg\<lparr>compresslevel := ''wb''\<rparr>"
      using assms(1) l by (auto simp: default_level_def)
    then show ?thesis using 4(2) by blast
  qed
qed

lemma level_char_int: "level_char d \<Longrightarrow> 49 \<le> (of_char d :: int) \<and> (of_char d :: int) \<le> 57"
  unfolding level_char_def of_nat_of_char [symmetric, where ?'a = int] by simp

lemma final_args_ok:
  assumes "final_args room root mountpoint s = Some s'" and "options_ok room table s"
  shows "options_ok room table s'"
proof -
  obtain s1 s2 where "(if detach s then Some s else push_args room [''-f''] s) = Some s1"
    "(if dedup_enabled (s_cfg s1) then Some s1 else push_args room [''-o'', ''use_ino''] s1) = Some s2"
    "push_args room [case mountpoint of None \<Rightarrow> root | Some m \<Rightarrow> m] s2 = Some s'"
    using assms(1) unfolding final_args_def bind_eq_Some_conv by blast
  then show ?thesis using assms(2) push_args_ok by (metis option.inject)
qed

lemma final_config_result:
  assumes "table_of_modules table" and "cfg_ok table cfg" and "final_config cfg = Some (Inr cfg')"
  shows "\<exists>c lv. cfg' = cfg\<lparr>compressor_default := Some c, compresslevel := lv\<rparr> \<and> c < 5 \<and> table ! c \<noteq> None \<and>
    (lv = ''wb'' \<and> (c = 0 \<or> c = 3) \<or> (\<exists>d. level_char d \<and> lv = ''wb'' @ [d]))"
proof -
  define c where "c = (case compressor_default cfg of None \<Rightarrow> first_compressor cfg | Some c \<Rightarrow> c)"
  let ?cfg = "cfg\<lparr>compressor_default := Some c\<rparr>"
  obtain m where m: "module_of ?cfg c = Some m" "default_level (ctype m) ?cfg = Some cfg'"
    using assms(3) by (auto simp: final_config_def c_def [symmetric] Let_def bind_eq_Some_conv split: option.split_asm)
  have c: "c < 5" "table ! c = Some m" "unat (ctype m) = c"
    using m(1) assms(1,2) by (auto simp: module_of_def table_of_modules_def cfg_ok_def split: if_splits)
  obtain lv where lv: "cfg' = ?cfg\<lparr>compresslevel := lv\<rparr>"
    "lv = ''wb'' \<and> (ctype m = 0 \<or> ctype m = 3) \<or> (\<exists>d. level_char d \<and> lv = ''wb'' @ [d])"
    using default_level_result [OF m(2)] assms(2) by (auto simp: cfg_ok_def)
  have "lv = ''wb'' \<and> (c = 0 \<or> c = 3) \<or> (\<exists>d. level_char d \<and> lv = ''wb'' @ [d])"
    using lv(2) c(3) by auto
  then show ?thesis using lv(1) c(1,2) by blast
qed

section \<open>The configuration\<close>

text \<open>
  C36: The start makes a usable configuration. If \<open>main\<close> gets past the options, whatever they are,
  the table is the one of the program, the default compressor is in it, the level is one that the
  modules can take (a digit from 1 to 9 when the default is one that reads it), opens no stream for
  reading, and no exclusion is empty; the arguments for \<open>fuse_main\<close> fit into their array, and the
  backing directory is the first operand.
\<close>

theorem startup_config:
  assumes "table_of_modules table" and "0 < argc" and "main_options argv0 argc uid table opts args = Some (Inr (s, root))"
  shows "compressors (s_cfg s) = table \<and> default_ok (s_cfg s) \<and>
    (\<exists>c. compressor_default (s_cfg s) = Some c \<and> table ! c \<noteq> None \<and>
       (c = 4 \<longrightarrow> (\<exists>d. level_digit (compresslevel (s_cfg s)) = Some d \<and> 1 \<le> d \<and> d \<le> 9)) \<and>
       (compresslevel (s_cfg s) = ''wb'' \<and> (c = 0 \<or> c = 3) \<or>
        (\<exists>d. level_char d \<and> compresslevel (s_cfg s) = ''wb'' @ [d]))) \<and>
    CHR ''r'' \<notin> set (compresslevel (s_cfg s)) \<and> (\<forall>p \<in> set (user_exclude_paths (s_cfg s)). p \<noteq> []) \<and>
    length (s_argv s) \<le> argc + MAX_OPTS \<and> args \<noteq> [] \<and> root = hd args"
proof -
  let ?room = "argc + MAX_OPTS"
  obtain s1 p s2 cfg where run: "options_loop ?room opts (initial_startup argv0 uid table) = Some (Inr s1)"
    "operands_loop ?room args s1 0 None None = Some (Inr p)" "final_args ?room (fst p) (snd p) s1 = Some s2"
    "final_config (s_cfg s2) = Some (Inr cfg)" "s = s2\<lparr>s_cfg := cfg\<rparr>" "root = fst p"
    using assms(3) unfolding main_options_def Let_def bind_Inr
    by (auto simp: bind_eq_Some_conv [of "final_args _ _ _ _"] bind_Inr)
  have "options_ok ?room table s1" using options_loop_ok [OF run(1) initial_startup_ok] assms(2) by simp
  then have ok: "options_ok ?room table s2" using final_args_ok [OF run(3)] by blast
  then have cfg: "cfg_ok table (s_cfg s2)" "length (s_argv s2) \<le> ?room" by (simp_all add: options_ok_def)
  obtain c lv where r: "cfg = (s_cfg s2)\<lparr>compressor_default := Some c, compresslevel := lv\<rparr>" "c < 5" "table ! c \<noteq> None"
    and lv: "lv = ''wb'' \<and> (c = 0 \<or> c = 3) \<or> (\<exists>d. level_char d \<and> lv = ''wb'' @ [d])"
    using final_config_result [OF assms(1) cfg(1) run(4)] by blast
  have "default_ok cfg"
    using r cfg(1) assms(1) by (simp add: default_ok_def module_of_def cfg_ok_def table_of_modules_def)
  moreover have "\<exists>d. level_digit lv = Some d \<and> 1 \<le> d \<and> d \<le> 9" if "c = 4"
    using lv that nth_append_length [of "''wb''" _ "[]"] level_char_int by (auto simp: level_digit_def)
  moreover have "CHR ''r'' \<notin> set lv" using lv by (auto simp: level_char_def)
  moreover have "args \<noteq> [] \<and> root = hd args"
    using operands_loop_result [of ?room args s1 "fst p" "snd p"] run(2,6) by simp
  ultimately show ?thesis using lv r cfg run(5) by (auto simp: cfg_ok_def)
qed

theorem startup_config_witness:
  "\<exists>s. main_options ''fusecompress'' 5 0 (compressors ex_cfg) [(CHR ''o'', ''exclude=tmp,level=7,nodetach'')] [''back'', ''mnt''] =
      Some (Inr (s, ''back'')) \<and>
    default_ok (s_cfg s) \<and> compressor_default (s_cfg s) = Some 0 \<and> compresslevel (s_cfg s) = ''wb7''"
proof -
  let ?r = "main_options ''fusecompress'' 5 0 (compressors ex_cfg) [(CHR ''o'', ''exclude=tmp,level=7,nodetach'')] [''back'', ''mnt'']"
  have t: "table_of_modules (compressors ex_cfg)"
    by (auto simp: table_of_modules_def ex_cfg_def module_null_def nth_Cons split: nat.splits)
  have "(case ?r of Some (Inr (s, root)) \<Rightarrow>
      Some (root, compressor_default (s_cfg s), compresslevel (s_cfg s)) | _ \<Rightarrow> None) = Some (''back'', Some 0, ''wb7'')"
    by code_simp
  then obtain s where s: "?r = Some (Inr (s, ''back''))" "compressor_default (s_cfg s) = Some 0" "compresslevel (s_cfg s) = ''wb7''"
    by (auto split: option.split_asm sum.split_asm prod.split_asm)
  have "default_ok (s_cfg s)" using startup_config [OF t _ s(1)] by simp
  with s show ?thesis by blast
qed

section \<open>The array of arguments\<close>

lemma mount_option_suid: "mount_option room ''suid'' s = push_args room [''-o'', ''suid''] s"
  by (simp add: mount_option_def with_value_def strncmp_prefix_def)

lemma mount_options_suid:
  "(mount_options room (replicate n ''suid'') s = None) = (n > 0 \<and> room < length (s_argv s) + 2 * n)"
proof (induction n arbitrary: s)
  case (Suc n)
  then show ?case by (simp add: mount_option_suid push_args_def) linarith
qed simp

text \<open>
  C37: Too many options overrun the array. The loop in \<open>main\<close> checks that there is room for two more
  arguments once per option of the command line, but one \<open>-o\<close> can hold any number of options of the
  file system, and each that is passed on takes two elements: n of them are stored safely only if
  there is room for 2n. A single \<open>-o\<close> with 26 of them writes past the end of the array on the stack.
\<close>

theorem mount_options_overrun:
  "(mount_options room (replicate n ''suid'') s = None) = (n > 0 \<and> room < length (s_argv s) + 2 * n) \<and>
   main_options ''fusecompress'' 4 1000 (compressors ex_cfg) [(CHR ''o'', concat (replicate 25 ''suid,'') @ ''suid'')] [''back''] = None"
proof -
  have "main_options ''fusecompress'' 4 1000 (compressors ex_cfg)
      [(CHR ''o'', concat (replicate 25 ''suid,'') @ ''suid'')] [''back''] = None"
    by code_simp
  then show ?thesis by (simp only: mount_options_suid)
qed

end
