(* ===== verification/Spec2Isabelle.thy ===== *)
theory Spec2Isabelle
  imports FormatProps CompressProps DedupProps ModuleProps DirectProps SystemProps ToolProps StartupProps
begin

text \<open>
  FuseCompress: a file system in user space that keeps its files compressed on a backing file
  system.

  \<^bold>\<open>The program.\<close> A mounted file system is a set of calls from FUSE (\<^verbatim>\<open>fusecompress.c\<close>) and one
  background thread (\<^verbatim>\<open>background_compress.c\<close>). Both work on a database of the files in use
  (\<^verbatim>\<open>direct_compress.c\<close>): an entry knows the file's name, size, compressor, open descriptors and
  number of users. An open compressed file is read through its module, with a cache of decompressed
  pages, and a new one written through it. An idle entry that is not compressed yet is queued, and the
  thread compresses the backing file (\<^verbatim>\<open>do_compress\<close> of \<^verbatim>\<open>compress.c\<close>): it writes a header and the
  compressed data to a temporary file and renames that over the original. When a compressed file has
  to be changed in the middle, it is decompressed the same way (\<^verbatim>\<open>do_decompress\<close>). Headers and
  temporary files are the business of \<^verbatim>\<open>file.c\<close>, the formats that of the modules (\<^verbatim>\<open>compress_null.c\<close>,
  \<^verbatim>\<open>compress_lzo.c\<close> over \<^verbatim>\<open>minilzo/lzo.c\<close>, \<^verbatim>\<open>compress_gz.c\<close>, \<^verbatim>\<open>compress_bz2.c\<close>, \<^verbatim>\<open>compress_lzma.c\<close>).
  With deduplication (\<^verbatim>\<open>dedup.c\<close>), equal files are hard links to one inode; a table of sums finds
  equal files, and attribute files hold what differs between the names of one inode. All lists are
  those of \<^verbatim>\<open>list.h\<close>. \<^verbatim>\<open>tools/offline.c\<close> compresses and decompresses a backing file system that is
  not mounted, \<^verbatim>\<open>tools/fsck.c\<close> checks one.

  \<^bold>\<open>The model of the environment.\<close> Theory \<open>Posix\<close> is the backing file system: names, inodes with
  their data and attributes, descriptors, and the calls the program makes, as functions on a
  \<open>world\<close>. A world carries a \<open>script\<close>, the outcomes of the calls to come: done normally, failing
  with an error, or transferring only a part. A theorem without a hypothesis on the script holds
  whatever fails; a world is \<open>clean\<close> when nothing will. \<open>suffixes\<close> are the names \<open>mkstemp\<close> tries,
  \<open>cancels\<close> the moments at which another thread asks a compression to stop. \<open>PosixFacts\<close> and
  \<open>Quiet\<close> say what each call leaves alone.

  \<^bold>\<open>The model of the program.\<close> A C function is a function of its arguments and the world that
  returns its result, the structures it changed and the world; \<open>None\<close> is an assertion that fails or
  undefined behaviour (a read past an array, a null pointer). Functions keep their names.
  \<^item> \<open>Prelude\<close>: machine integers, little-endian byte lists, \<open>off_t\<close>.
  \<^item> \<open>CList\<close>: \<^verbatim>\<open>list.h\<close>, on a heap of pointers; the other theories use Isabelle lists instead,
    which its lemmas and the locale \<open>intrusive_list\<close> justify.
  \<^item> \<open>CString\<close>: \<^verbatim>\<open>utils.h\<close> and the C string functions in use.
  \<^item> \<open>Structs\<close>: \<^verbatim>\<open>structs.h\<close>, \<^verbatim>\<open>globals.c\<close> and the structures of \<^verbatim>\<open>lzo.h\<close>. A compressor is known by
    its index in the table, a list of descriptors is a list.
  \<^item> \<open>FileFormat\<close>: \<^verbatim>\<open>file.c\<close> and \<open>choose_compressor\<close>.
  \<^item> \<open>Lzo\<close>, \<open>LzoStream\<close>: \<^verbatim>\<open>minilzo/lzo.c\<close> and what its reader and writer do to a stream of blocks.
  \<^item> \<open>Copying\<close>, \<open>Sink\<close>, \<open>StreamModule\<close>: the loops shared by the modules, over the locales
    \<open>source_stream\<close> and \<open>sink_stream\<close>; the contract \<open>codec_module\<close> of a module, and what the modules
    that wrap a library's streams have in common (\<open>stream_library\<close>).
  \<^item> \<open>Modules\<close>, \<open>LibModules\<close>, \<open>Lzma\<close>, \<open>LzmaFacts\<close>: the null and LZO modules, the gzip and bzip2
    modules, and the LZMA module, which are proved to keep the contract.
  \<^item> \<open>Compress\<close>, \<open>DecompressFacts\<close>, \<open>CompressFacts\<close>: \<^verbatim>\<open>compress.c\<close> and what a compression or
    decompression can do to the backing file system.
  \<^item> \<open>DedupDb\<close>, \<open>DedupSave\<close>, \<open>DedupFs\<close>: \<^verbatim>\<open>dedup.c\<close>; the database in memory, on disk, and the
    links and attribute files.
  \<^item> \<open>FileDb\<close>, \<open>FileDbInv\<close>, \<open>SameFile\<close>: the database of \<^verbatim>\<open>direct_compress.c\<close>, its queue, a turn of
    the thread of \<^verbatim>\<open>background_compress.c\<close>, and their invariant.
  \<^item> \<open>Direct\<close>, \<open>DirectRead\<close>, \<open>DirectWrite\<close>: reading and writing an open file through its module, over
    the locales \<open>stream_reader\<close> and \<open>stream_writer\<close>, which the null and LZO modules keep.
  \<^item> \<open>Fuse\<close>, \<open>FuseKeep\<close>, \<open>FuseInv\<close>, \<open>FuseDirs\<close>: the operations of \<^verbatim>\<open>fusecompress.c\<close>, and that each keeps
    the invariant of the database.
  \<^item> \<open>System\<close>, \<open>ThreadInv\<close>, \<open>Waiting\<close>: a mounted file system as a step relation of requests, renames in
    progress and the thread, its invariant, and who waits for whom.
  \<^item> \<open>Startup\<close>: \<open>main\<close> up to the mount, \<open>fusecompress_init\<close>, and the handler of SIGTERM.
  \<^item> \<open>Offline\<close>, \<open>OfflineFacts\<close>, \<open>Fsck\<close>, \<open>FsckFacts\<close>: the tools.
  \<^item> \<open>Examples\<close> and the theories whose names end in \<open>Props\<close>: concrete inputs, and the properties.

  \<^bold>\<open>What is shown.\<close> \<open>CompressProps\<close>: compressing and decompressing a backing file loses nothing
  whatever fails, as far as the module notices, and is invisible to the user. \<open>DirectProps\<close>: reads and
  writes of an open file transfer exactly the bytes asked for. \<open>FormatProps\<close> and \<open>ModuleProps\<close>: the
  formats and the modules. \<open>DedupProps\<close>: the tables of the deduplication, and their file.
  \<open>SystemProps\<close>: the invariant of every reachable state, mutual exclusion of the thread and the
  requests without their lock, and the error paths that break it. \<open>StartupProps\<close>: the configuration.
  \<open>ToolProps\<close>: the tools.

  \<^bold>\<open>Loops.\<close> Loops over data are structural recursions. The copying loops need not end (a
  descriptor copied onto itself does not), so they are partial functions with \<open>None\<close> for not ending;
  that they end on separate files is part of the properties. \<open>file_create_temp\<close> gives up after 50
  names, which is its measure. The list loops take fuel, and one more than the length is enough; the
  loop of \<open>lzoread\<close> takes two more than the number of bytes wanted, as every round but the first and
  the last delivers one.

  \<^bold>\<open>Hypotheses.\<close> The libraries are parameters: \<open>lzo_lib_ok\<close> says that compression succeeds and
  decompression with room for the original gives it back; the records \<open>ext_lib\<close> and \<open>lzma_lib\<close> are the
  streams of zlib, libbz2 and liblzma, with the documented contract of their encoder and decoder as
  hypotheses. \<open>table_ok\<close> says that every module of the table keeps the contract \<open>codec_module\<close>.

  \<^bold>\<open>Concurrency.\<close> A request that holds the lock of its file is one step. Where the program gives the lock
  up, there are several: a rename, a compression and a deduplication. The locks that error paths do not
  give back are in the state (\<open>held\<close>, \<open>db_locked\<close>).

  \<^bold>\<open>Not modelled.\<close> Failed allocations; messages and statistics (\<^verbatim>\<open>log.c\<close>); the loop of
  \<open>fusecompress_destroy\<close> beyond one round, creating, cancelling and joining the thread, and the installation
  of signal handlers, which are calls into the threads library and the kernel; \<open>getopt\<close>, whose results are
  an argument of \<open>main_options\<close>; raising the limit of open files; the option parsing and the walk through
  the directories of the tools, whose files are an argument. The programs under \<^verbatim>\<open>test\<close> are drivers
  without logic of their own.
\<close>

end
